(* ===== verification/Renoa_Prelude.thy ===== *)
theory Renoa_Prelude
  imports Main "HOL-Library.Multiset" "HOL-Library.Word" "HOL-Library.Char_ord" "HOL-Library.List_Lexorder"
begin

section \<open>Shared vocabulary of the Renoa development\<close>

text \<open>
  This theory holds what every component of the development uses: Rust's \<open>Result\<close> as a sum
  type with the \<open>?\<close> operator as \<open>and_then\<close>, the \<open>Option\<close> and iterator helpers the source
  calls, 64-bit integers with their range checks written out, a \<open>BTreeMap\<close> as a sorted
  association list, and SQL tables as lists of rows with \<open>SELECT\<close>, \<open>UPDATE\<close> and
  \<open>ORDER BY\<close> on them. The collections \<open>result_eq\<close> (inversion of successful results) and
  \<open>table_simps\<close> (effect of an update on a query) carry the component proofs.
\<close>

named_theorems result_eq \<open>when a result is Ok\<close>
named_theorems table_simps \<open>queries on updated tables\<close>

subsection \<open>Results\<close>

text \<open>\<open>Inl\<close> is Rust's \<open>Err\<close>, \<open>Inr\<close> its \<open>Ok\<close>; \<open>and_then m f\<close> is \<open>f(m?)\<close>.\<close>

definition and_then :: "'e + 'a \<Rightarrow> ('a \<Rightarrow> 'e + 'b) \<Rightarrow> 'e + 'b" where
  "and_then m f = (case m of Inl e \<Rightarrow> Inl e | Inr a \<Rightarrow> f a)"

definition ok_or :: "'a option \<Rightarrow> 'e \<Rightarrow> 'e + 'a" where
  "ok_or m e = (case m of None \<Rightarrow> Inl e | Some a \<Rightarrow> Inr a)"

definition require :: "bool \<Rightarrow> 'e \<Rightarrow> 'e + unit" where
  "require b e = (if b then Inr () else Inl e)"

definition map_err :: "('e \<Rightarrow> 'f) \<Rightarrow> 'e + 'a \<Rightarrow> 'f + 'a" where
  "map_err f m = (case m of Inl e \<Rightarrow> Inl (f e) | Inr a \<Rightarrow> Inr a)"

text \<open>\<open>opt.map(f).transpose()\<close>: apply a fallible function under an option.\<close>

fun transpose_map :: "('a \<Rightarrow> 'e + 'b) \<Rightarrow> 'a option \<Rightarrow> 'e + 'b option" where
  "transpose_map f None = Inr None"
| "transpose_map f (Some a) = and_then (f a) (\<lambda>b. Inr (Some b))"

text \<open>A \<open>for\<close> loop that pushes one fallible result per element and stops at the first error.\<close>

fun try_map :: "('a \<Rightarrow> 'e + 'b) \<Rightarrow> 'a list \<Rightarrow> 'e + 'b list" where
  "try_map f [] = Inr []"
| "try_map f (x # xs) = and_then (f x) (\<lambda>y. and_then (try_map f xs) (\<lambda>ys. Inr (y # ys)))"

text \<open>A \<open>for\<close> loop that threads a state and stops at the first error.\<close>

fun try_fold :: "('a \<Rightarrow> 's \<Rightarrow> 'e + 's) \<Rightarrow> 'a list \<Rightarrow> 's \<Rightarrow> 'e + 's" where
  "try_fold f [] s = Inr s"
| "try_fold f (x # xs) s = and_then (f x s) (try_fold f xs)"

lemma and_then_simps [simp]:
  "and_then (Inr a) f = f a"
  "and_then (Inl e) f = Inl e"
  by (simp_all add: and_then_def)

lemma and_then_assoc:
  "and_then (and_then m f) g = and_then m (\<lambda>a. and_then (f a) g)"
  by (cases m) simp_all

lemma ok_or_simps [simp]:
  "ok_or None e = Inl e"
  "ok_or (Some a) e = Inr a"
  by (simp_all add: ok_or_def)

lemma require_simps [simp]:
  "require True e = Inr ()"
  "require False e = Inl e"
  by (simp_all add: require_def)

lemma map_err_simps [simp]:
  "map_err f (Inr a) = Inr a"
  "map_err f (Inl e) = Inl (f e)"
  by (simp_all add: map_err_def)

lemma and_then_eq_Inr [result_eq]:
  "and_then m f = Inr b \<longleftrightarrow> (\<exists>a. m = Inr a \<and> f a = Inr b)"
  by (cases m) simp_all

lemma and_then_InrE:
  assumes "and_then m f = Inr b"
  obtains a where "m = Inr a" and "f a = Inr b"
  using assms by (auto simp: and_then_eq_Inr)

lemma and_then_eq_Inl:
  "and_then m f = Inl e \<longleftrightarrow> m = Inl e \<or> (\<exists>a. m = Inr a \<and> f a = Inl e)"
  by (cases m) auto

lemma ok_or_eq_Inr [result_eq]: "ok_or m e = Inr a \<longleftrightarrow> m = Some a"
  by (cases m) simp_all

lemma require_eq_Inr [result_eq]: "require b e = Inr u \<longleftrightarrow> b"
  by (cases b) simp_all

lemma map_err_eq_Inr [result_eq]: "map_err f m = Inr a \<longleftrightarrow> m = Inr a"
  by (cases m) simp_all

lemma transpose_map_eq_Some [result_eq]:
  "transpose_map f m = Inr (Some b) \<longleftrightarrow> (\<exists>a. m = Some a \<and> f a = Inr b)"
  by (cases m) (auto simp: and_then_eq_Inr)

lemma transpose_map_eq_None [result_eq]:
  "transpose_map f m = Inr None \<longleftrightarrow> m = None"
  by (cases m) (auto simp: and_then_eq_Inr)

lemma try_map_eq_Inr [result_eq]:
  "try_map f xs = Inr ys \<longleftrightarrow> list_all2 (\<lambda>x y. f x = Inr y) xs ys"
  by (induction xs arbitrary: ys) (auto simp: and_then_eq_Inr list_all2_Cons1)

lemma try_map_map: "try_map f (map g xs) = try_map (\<lambda>x. f (g x)) xs"
  by (induction xs) simp_all

lemma try_map_total:
  assumes "\<And>x. x \<in> set xs \<Longrightarrow> f x = Inr (g x)"
  shows "try_map f xs = Inr (map g xs)"
  using assms by (induction xs) simp_all

lemma try_map_exists:
  assumes "\<And>x. x \<in> set xs \<Longrightarrow> \<exists>y. f x = Inr y"
  shows "\<exists>ys. try_map f xs = Inr ys"
  using assms by (induction xs) fastforce+

lemma try_fold_append:
  "try_fold f (xs @ ys) s = and_then (try_fold f xs s) (try_fold f ys)"
proof (induction xs arbitrary: s)
  case (Cons x xs)
  then show ?case by (cases "f x s") simp_all
qed simp

text \<open>An invariant of the loop body is an invariant of the loop.\<close>

lemma try_fold_invariant:
  assumes "try_fold f xs s = Inr s'" and "I s"
    and "\<And>x s s'. x \<in> set xs \<Longrightarrow> f x s = Inr s' \<Longrightarrow> I s \<Longrightarrow> I s'"
  shows "I s'"
  using assms by (induction xs arbitrary: s) (auto simp: and_then_eq_Inr)

subsection \<open>64-bit integers\<close>

text \<open>
  Rust's \<open>i64\<close> and \<open>u64\<close>, and SQLite's \<open>INTEGER\<close>, are integers in a range; an addition in
  the source is \<open>checked_add\<close>, which is \<open>None\<close> outside it. \<open>u32\<close> values are only compared.
\<close>

type_synonym i64 = int
type_synonym u64 = int
type_synonym u32 = nat

definition in_i64 :: "int \<Rightarrow> bool" where
  "in_i64 n \<longleftrightarrow> - (2 ^ 63) \<le> n \<and> n < 2 ^ 63"

definition in_u64 :: "int \<Rightarrow> bool" where
  "in_u64 n \<longleftrightarrow> 0 \<le> n \<and> n < 2 ^ 64"

definition checked_add_i64 :: "i64 \<Rightarrow> i64 \<Rightarrow> i64 option" where
  "checked_add_i64 a b = (if in_i64 (a + b) then Some (a + b) else None)"

definition checked_add_u64 :: "u64 \<Rightarrow> u64 \<Rightarrow> u64 option" where
  "checked_add_u64 a b = (if in_u64 (a + b) then Some (a + b) else None)"

definition u32_max :: u32 where
  "u32_max = 2 ^ 32 - 1"

lemma checked_add_i64_eq_Some [result_eq]:
  "checked_add_i64 a b = Some c \<longleftrightarrow> in_i64 (a + b) \<and> c = a + b"
  by (auto simp: checked_add_i64_def)

lemma checked_add_u64_eq_Some [result_eq]:
  "checked_add_u64 a b = Some c \<longleftrightarrow> in_u64 (a + b) \<and> c = a + b"
  by (auto simp: checked_add_u64_def)

lemma in_i64_u64: "in_i64 n \<Longrightarrow> 0 \<le> n \<Longrightarrow> in_u64 n"
  by (simp add: in_i64_def in_u64_def)

subsection \<open>\<open>BTreeMap\<close>\<close>

text \<open>A \<open>BTreeMap\<close> is its list of entries in key order; \<open>insert\<close> replaces an equal key.\<close>

fun btree_insert :: "'k::linorder \<Rightarrow> 'v \<Rightarrow> ('k \<times> 'v) list \<Rightarrow> ('k \<times> 'v) list" where
  "btree_insert k v [] = [(k, v)]"
| "btree_insert k v ((k', v') # m) =
     (if k < k' then (k, v) # (k', v') # m
      else if k = k' then (k, v) # m
      else (k', v') # btree_insert k v m)"

abbreviation btree_get :: "('k \<times> 'v) list \<Rightarrow> 'k \<Rightarrow> 'v option" where
  "btree_get \<equiv> map_of"

lemma btree_get_insert:
  "btree_get (btree_insert k v m) k' = (if k' = k then Some v else btree_get m k')"
  by (induction k v m rule: btree_insert.induct) auto

lemma btree_insert_keys: "fst ` set (btree_insert k v m) = insert k (fst ` set m)"
  by (induction k v m rule: btree_insert.induct) auto

lemma btree_insert_sorted:
  "sorted (map fst m) \<Longrightarrow> distinct (map fst m) \<Longrightarrow>
   sorted (map fst (btree_insert k v m)) \<and> distinct (map fst (btree_insert k v m))"
proof (induction k v m rule: btree_insert.induct)
  case (1 k v)
  then show ?case by simp
next
  case (2 k v k' v' m)
  have keys: "set (map fst (btree_insert k v m)) = insert k (set (map fst m))"
    using btree_insert_keys [of k v m] by simp
  show ?case
    using 2 keys by (auto simp: less_le)
qed

subsection \<open>Tables\<close>

text \<open>
  A table is the list of its rows. \<open>find P\<close> is a \<open>SELECT\<close> that reads one row,
  \<open>filter P\<close> one that reads all; \<open>update_where\<close> is \<open>UPDATE ... WHERE P\<close> and
  \<open>changed\<close> the row count it reports; \<open>order_by\<close> is \<open>ORDER BY\<close> on a key.
\<close>

definition update_where :: "('r \<Rightarrow> bool) \<Rightarrow> ('r \<Rightarrow> 'r) \<Rightarrow> 'r list \<Rightarrow> 'r list" where
  "update_where P f rows = map (\<lambda>r. if P r then f r else r) rows"

definition changed :: "('r \<Rightarrow> bool) \<Rightarrow> 'r list \<Rightarrow> nat" where
  "changed P rows = length (filter P rows)"

definition exists_row :: "('r \<Rightarrow> bool) \<Rightarrow> 'r list \<Rightarrow> bool" where
  "exists_row P rows = list_ex P rows"

definition order_by :: "('r \<Rightarrow> int) \<Rightarrow> 'r list \<Rightarrow> 'r list" where
  "order_by k rows = sort_key k rows"

definition first_row :: "'r list \<Rightarrow> 'r option" where
  "first_row rows = (case rows of [] \<Rightarrow> None | r # _ \<Rightarrow> Some r)"

definition unique_on :: "('r \<Rightarrow> 'k) \<Rightarrow> 'r list \<Rightarrow> bool" where
  "unique_on k rows = distinct (map k rows)"

lemma exists_row_iff [simp]: "exists_row P rows \<longleftrightarrow> (\<exists>r \<in> set rows. P r)"
  by (simp add: exists_row_def list_ex_iff)

lemma set_order_by [simp]: "set (order_by k rows) = set rows"
  by (simp add: order_by_def)

lemma sorted_order_by: "sorted (map k (order_by k rows))"
  by (simp add: order_by_def)

lemma order_by_Nil_iff [simp]: "order_by k rows = [] \<longleftrightarrow> rows = []"
  by (metis set_order_by set_empty)

lemma first_row_None_iff [simp]: "first_row rows = None \<longleftrightarrow> rows = []"
  by (simp add: first_row_def split: list.splits)

lemma first_row_Some_mem: "first_row rows = Some r \<Longrightarrow> r \<in> set rows"
  by (auto simp: first_row_def split: list.splits)

lemma first_row_unique:
  assumes "x \<in> set rows" and "\<And>y. y \<in> set rows \<Longrightarrow> y = x"
  shows "first_row rows = Some x"
proof (cases rows)
  case (Cons y ys)
  then have "y = x" by (intro assms(2)) simp
  then show ?thesis by (simp add: first_row_def Cons)
qed (use assms(1) in simp)

lemma first_row_order_by_least:
  assumes "first_row (order_by k rows) = Some r"
  shows "r \<in> set rows" and "\<And>r'. r' \<in> set rows \<Longrightarrow> k r \<le> k r'"
proof -
  obtain rs where rs: "order_by k rows = r # rs"
    using assms by (auto simp: first_row_def split: list.splits)
  have set: "set rows = insert r (set rs)"
    using set_order_by [of k rows] rs by simp
  then show "r \<in> set rows" by simp
  fix r' assume "r' \<in> set rows"
  then show "k r \<le> k r'"
    using sorted_order_by [of k rows] rs set by auto
qed

lemma find_None_iff_ball: "find P rows = None \<longleftrightarrow> (\<forall>r \<in> set rows. \<not> P r)"
  by (auto simp: find_None_iff)

lemma find_SomeD: "find P rows = Some r \<Longrightarrow> r \<in> set rows \<and> P r"
  by (auto simp: find_Some_iff in_set_conv_nth)

lemma find_Some_ex: "r \<in> set rows \<Longrightarrow> P r \<Longrightarrow> \<exists>r'. find P rows = Some r'"
  by (metis find_None_iff_ball not_None_eq)

lemma unique_onD:
  "unique_on k rows \<Longrightarrow> r \<in> set rows \<Longrightarrow> r' \<in> set rows \<Longrightarrow> k r = k r' \<Longrightarrow> r = r'"
  by (auto simp: unique_on_def distinct_map inj_on_def)

lemma unique_on_filter: "unique_on k rows \<Longrightarrow> unique_on k (filter P rows)"
  by (auto simp: unique_on_def distinct_map inj_on_def)

text \<open>A query by a unique key finds exactly the row with that key.\<close>

lemma find_unique:
  assumes "unique_on k rows" and "r \<in> set rows" and "P r"
    and "\<And>r'. r' \<in> set rows \<Longrightarrow> P r' \<Longrightarrow> k r' = k r"
  shows "find P rows = Some r"
proof -
  obtain r' where r': "find P rows = Some r'"
    using find_Some_ex assms(2,3) by metis
  then have "r' \<in> set rows" and "P r'" using find_SomeD by metis+
  with assms r' show ?thesis by (metis unique_onD)
qed

lemma set_update_where:
  "set (update_where P f rows) = (\<lambda>r. if P r then f r else r) ` set rows"
  by (simp add: update_where_def)

lemma length_update_where [simp]: "length (update_where P f rows) = length rows"
  by (simp add: update_where_def)

lemma update_where_mem:
  "r \<in> set (update_where P f rows) \<longleftrightarrow>
   (\<exists>r0 \<in> set rows. (P r0 \<and> r = f r0) \<or> (\<not> P r0 \<and> r = r0))"
  by (auto simp: set_update_where)

lemma update_where_one:
  assumes "r0 \<in> set rows" and "P r0" and "\<And>r. r \<in> set rows \<Longrightarrow> P r \<Longrightarrow> r = r0"
  shows "r \<in> set (update_where P f rows) \<longleftrightarrow> r = f r0 \<or> (r \<in> set rows \<and> \<not> P r)"
  unfolding update_where_mem using assms by metis

lemma update_where_twice:
  assumes "\<And>r. r \<in> set rows \<Longrightarrow> P r \<Longrightarrow> P (f r)"
  shows "update_where P g (update_where P f rows) = update_where P (\<lambda>r. g (f r)) rows"
  using assms by (simp add: update_where_def)

lemma map_update_where [table_simps]:
  "(\<And>r. P r \<Longrightarrow> k (f r) = k r) \<Longrightarrow> map k (update_where P f rows) = map k rows"
  by (simp add: update_where_def)

lemma unique_on_update_where [table_simps]:
  "(\<And>r. P r \<Longrightarrow> k (f r) = k r) \<Longrightarrow> unique_on k (update_where P f rows) = unique_on k rows"
  by (simp add: unique_on_def map_update_where)

lemma update_where_id: "(\<And>r. r \<in> set rows \<Longrightarrow> \<not> P r) \<Longrightarrow> update_where P f rows = rows"
  by (induction rows) (auto simp: update_where_def)

lemma filter_update_where [table_simps]:
  assumes "\<And>r. r \<in> set rows \<Longrightarrow> P r \<Longrightarrow> Q (f r) = Q r"
  shows "filter Q (update_where P f rows) = update_where P f (filter Q rows)"
  using assms by (induction rows) (auto simp: update_where_def)

lemma filter_update_where_other:
  assumes "\<And>r. r \<in> set rows \<Longrightarrow> P r \<Longrightarrow> \<not> Q r \<and> \<not> Q (f r)"
  shows "filter Q (update_where P f rows) = filter Q rows"
  using assms by (induction rows) (auto simp: update_where_def)

lemma changed_pos_iff: "changed P rows \<noteq> 0 \<longleftrightarrow> (\<exists>r \<in> set rows. P r)"
  by (induction rows) (auto simp: changed_def)

lemma changed_oneD:
  assumes "changed P rows = 1"
  obtains r where "r \<in> set rows" and "P r" and "\<And>r'. r' \<in> set rows \<Longrightarrow> P r' \<Longrightarrow> r' = r"
proof -
  obtain r where "filter P rows = [r]"
    using assms by (auto simp: changed_def length_Suc_conv)
  then have "{x \<in> set rows. P x} = {r}"
    using set_filter [of P rows] by simp
  then show thesis using that by blast
qed

text \<open>On a uniquely keyed table a selection by that key counts one row when there is one.\<close>

lemma changed_unique:
  assumes "unique_on k rows" and "r \<in> set rows" and "P r"
    and "\<And>r'. r' \<in> set rows \<Longrightarrow> P r' \<Longrightarrow> k r' = k r"
  shows "changed P rows = 1"
proof -
  have "distinct (filter P rows)"
    using assms(1) by (auto simp: unique_on_def distinct_map)
  moreover have "set (filter P rows) = {r}"
    using assms by (auto dest: unique_onD)
  ultimately have "length (filter P rows) = card {r}"
    using distinct_card by metis
  then show ?thesis by (simp add: changed_def)
qed

subsection \<open>Gapless numbering\<close>

text \<open>
  Commands, events, batches and effects are numbered from 0 without a gap by a counter kept
  beside them: the numbers in the table are exactly those below the counter, once each.
\<close>

definition gapless :: "int \<Rightarrow> int list \<Rightarrow> bool" where
  "gapless n ns \<longleftrightarrow> 0 \<le> n \<and> distinct ns \<and> set ns = {0..<n}"

lemma gapless_0 [simp]: "gapless 0 []"
  by (simp add: gapless_def)

lemma gapless_snoc: "gapless n ns \<Longrightarrow> gapless (n + 1) (ns @ [n])"
  by (auto simp: gapless_def)

lemma gapless_append_run:
  "gapless n ns \<Longrightarrow> gapless (n + int k) (ns @ map (\<lambda>i. n + int i) [0..<k])"
proof (induction k)
  case 0
  then show ?case by simp
next
  case (Suc k)
  then have "gapless (n + int k) (ns @ map (\<lambda>i. n + int i) [0..<k])" by simp
  from gapless_snoc [OF this] show ?case by (simp add: ac_simps)
qed

lemma sorted_upto_int: "sorted (map int [0..<n])"
  by (induction n) (auto simp: sorted_append)

lemma set_upto_int: "set (map int [0..<nat n]) = {0..<n}"
proof -
  have "k \<in> int ` {0..<nat n} \<longleftrightarrow> 0 \<le> k \<and> k < n" for k
    by (cases k) (auto simp: image_iff)
  then show ?thesis by auto
qed

lemma gapless_sorted:
  assumes "gapless n ns"
  shows "sort ns = map int [0..<nat n]"
proof (rule sorted_distinct_set_unique)
  show "set (sort ns) = set (map int [0..<nat n])"
    using assms by (simp only: set_sort set_upto_int gapless_def)
  show "distinct (map int [0..<nat n])" by (simp add: distinct_map)
  show "distinct (sort ns)" using assms by (simp add: gapless_def)
qed (simp_all add: sorted_upto_int)

lemma map_order_by: "map k (order_by k rows) = sort (map k rows)"
proof (rule properties_for_sort [symmetric])
  show "mset (map k (order_by k rows)) = mset (map k rows)"
    by (simp add: order_by_def)
qed (rule sorted_order_by)

text \<open>The rows of a gaplessly numbered table, read in order, carry the numbers 0, 1, 2 and so on.\<close>

lemma gapless_order_by:
  "gapless n (map k rows) \<Longrightarrow> map k (order_by k rows) = map int [0..<nat n]"
  by (simp add: map_order_by gapless_sorted)

text \<open>The numbers from \<open>m\<close> on, read in order.\<close>

lemma gapless_sorted_from:
  assumes "gapless n ns" and "0 \<le> m" and "m \<le> n"
  shows "sort (filter (\<lambda>k. m \<le> k) ns) = map (\<lambda>i. m + int i) [0..<nat (n - m)]"
proof (rule sorted_distinct_set_unique)
  have "set (map (\<lambda>i. m + int i) [0..<nat (n - m)]) = (+) m ` set (map int [0..<nat (n - m)])"
    by (simp add: image_image)
  also have "\<dots> = (+) m ` {0..<n - m}" by (simp only: set_upto_int)
  also have "\<dots> = {m..<n}" by auto
  finally have run: "set (map (\<lambda>i. m + int i) [0..<nat (n - m)]) = {m..<n}" .
  show "set (sort (filter (\<lambda>k. m \<le> k) ns)) = set (map (\<lambda>i. m + int i) [0..<nat (n - m)])"
    unfolding run using assms by (auto simp: gapless_def)
  show "distinct (sort (filter (\<lambda>k. m \<le> k) ns))" using assms by (simp add: gapless_def)
  show "distinct (map (\<lambda>i. m + int i) [0..<nat (n - m)])" by (simp add: distinct_map inj_on_def)
  show "sorted (map (\<lambda>i. m + int i) [0..<nat (n - m)])"
    by (simp add: sorted_iff_nth_mono)
qed simp

subsection \<open>Joins\<close>

lemma insort_key_map: "insort_key k (f x) (map f xs) = map f (insort_key (\<lambda>x. k (f x)) x xs)"
  by (induction xs) auto

lemma order_by_map: "order_by k (map f xs) = map f (order_by (\<lambda>x. k (f x)) xs)"
  unfolding order_by_def by (induction xs) (simp_all add: insort_key_map)

lemma comprehension_filter:
  "concat (map (\<lambda>r. if P r then [h r] else []) rows) = map h (filter P rows)"
  by (induction rows) auto

lemma if_conj: "(if P then if Q then x else y else y) = (if P \<and> Q then x else y)"
  by simp

lemma filter_unique:
  assumes "unique_on k rows" and "r \<in> set rows" and "P r"
    and "\<And>r'. r' \<in> set rows \<Longrightarrow> P r' \<Longrightarrow> k r' = k r"
  shows "filter P rows = [r]"
proof -
  have "changed P rows = 1" using assms by (rule changed_unique)
  then obtain r1 where r1: "filter P rows = [r1]" by (auto simp: changed_def length_Suc_conv)
  then have "r \<in> set [r1]" using assms(2,3) by (simp flip: r1)
  then show ?thesis using r1 by simp
qed

lemma concat_map_guard:
  "concat (map (\<lambda>r. if P r then h r else []) rows) = concat (map h (filter P rows))"
  by (induction rows) simp_all

lemma gapless_length:
  assumes "gapless n ns"
  shows "gapless (int (length ns)) ns"
proof -
  have "card (set ns) = length ns" using assms by (intro distinct_card) (simp add: gapless_def)
  then have "int (length ns) = n" using assms by (auto simp: gapless_def)
  then show ?thesis using assms by simp
qed

lemma gapless_upt: "gapless (int n) (map int [0..<n])"
  using set_upto_int [of "int n"] by (simp add: gapless_def distinct_map)

lemma update_where_fixed:
  assumes "unique_on k rows" and "r \<in> set rows" and "f r = r"
  shows "update_where (\<lambda>x. k x = k r) f rows = rows"
  unfolding update_where_def
proof (rule map_idI)
  fix x assume "x \<in> set rows"
  then show "(if k x = k r then f x else x) = x" using unique_onD [OF assms(1) _ assms(2)] assms(3) by metis
qed

lemma update_where_eq_on:
  assumes "unique_on k rows" and "r \<in> set rows" and "f r = g r"
  shows "update_where (\<lambda>x. k x = k r) f rows = update_where (\<lambda>x. k x = k r) g rows"
  unfolding update_where_def
proof (rule map_cong [OF refl])
  fix x assume "x \<in> set rows"
  then show "(if k x = k r then f x else x) = (if k x = k r then g x else x)"
    using unique_onD [OF assms(1) _ assms(2)] assms(3) by metis
qed

lemma update_where_insert:
  assumes "\<And>r. k (f r) = k r" and "x \<notin> K"
  shows "update_where (\<lambda>r. k r \<in> K) f (update_where (\<lambda>r. k r = x) f rows) =
    update_where (\<lambda>r. k r \<in> insert x K) f rows"
  using assms by (auto simp: update_where_def)

lemma enumerate_positions:
  assumes "gapless (int (length rows)) (map k rows)"
  shows "\<forall>(i, r) \<in> set (enumerate 0 (order_by k rows)). k r = int i"
proof -
  have "map k (order_by k rows) = map int [0..<length rows]"
    using gapless_order_by [OF assms] by simp
  then have "k (order_by k rows ! i) = int i" if "i < length (order_by k rows)" for i
    using that nth_map [of i "order_by k rows" k] by (metis length_map length_upt diff_zero nth_map nth_upt add_0)
  then show ?thesis by (auto simp: in_set_enumerate_eq)
qed

lemma try_map_rel:
  assumes "\<And>x. x \<in> set xs \<Longrightarrow> \<exists>y. f x = Inr y \<and> R x y"
  shows "\<exists>ys. try_map f xs = Inr ys \<and> list_all2 R xs ys"
  using assms
proof (induction xs)
  case (Cons x xs)
  obtain y where y: "f x = Inr y" "R x y" using Cons.prems [of x] by auto
  obtain ys where "try_map f xs = Inr ys" "list_all2 R xs ys" using Cons by auto
  then show ?case using y by (intro exI [of _ "y # ys"]) simp
qed simp

text \<open>Gaplessly numbered rows, read in order with their index.\<close>

lemma try_map_enumerate:
  assumes gap: "gapless (int (length rows)) (map k rows)"
    and total: "\<And>i r. r \<in> set rows \<Longrightarrow> k r = int i \<Longrightarrow> \<exists>y. f (i, r) = Inr y \<and> R r y"
  shows "\<exists>ys. try_map f (enumerate 0 (order_by k rows)) = Inr ys \<and> list_all2 R (order_by k rows) ys"
proof -
  have "\<exists>y. f x = Inr y \<and> R (snd x) y" if x: "x \<in> set (enumerate 0 (order_by k rows))" for x
  proof -
    obtain i r where ir: "x = (i, r)" by force
    have "r \<in> set (order_by k rows)" using x nth_mem by (fastforce simp: ir in_set_enumerate_eq simp del: set_order_by)
    moreover have "k r = int i" using enumerate_positions [OF gap] x by (auto simp: ir)
    ultimately show ?thesis using total [of r i] by (simp add: ir)
  qed
  from try_map_rel [where R = "\<lambda>x. R (snd x)", OF this] obtain ys
    where ys: "try_map f (enumerate 0 (order_by k rows)) = Inr ys"
      "list_all2 (\<lambda>x. R (snd x)) (enumerate 0 (order_by k rows)) ys" by blast
  then have "list_all2 R (map snd (enumerate 0 (order_by k rows))) ys" by (simp only: list_all2_map1)
  then show ?thesis using ys(1) by auto
qed

lemma list_all2_mem2: "list_all2 P xs ys \<Longrightarrow> y \<in> set ys \<Longrightarrow> \<exists>x \<in> set xs. P x y"
  by (induction xs ys rule: list_all2_induct) auto

lemma distinct_count_list: "distinct xs \<Longrightarrow> count_list xs x = (if x \<in> set xs then 1 else 0)"
  by (induction xs) auto

lemma try_map_append:
  "try_map f (xs @ ys) = and_then (try_map f xs) (\<lambda>as. and_then (try_map f ys) (\<lambda>bs. Inr (as @ bs)))"
proof (induction xs)
  case Nil
  show ?case by (cases "try_map f ys") simp_all
next
  case (Cons x xs)
  then show ?case by (cases "f x"; cases "try_map f xs"; cases "try_map f ys") simp_all
qed

text \<open>Rows appended in order, with keys above all present ones, are read after them.\<close>

lemma insort_key_append:
  "\<forall>y \<in> set ys. k x < k y \<Longrightarrow> insort_key k x (zs @ ys) = insort_key k x zs @ ys"
  by (induction zs) (auto intro!: insort_is_Cons less_imp_le)

lemma order_by_append:
  assumes "sorted (map k ys)" and "\<And>x y. x \<in> set xs \<Longrightarrow> y \<in> set ys \<Longrightarrow> k x < k y"
  shows "order_by k (xs @ ys) = order_by k xs @ ys"
proof -
  have "sort_key k ys = ys" using assms(1)
    by (induction ys) (simp_all add: insort_is_Cons)
  then have "sort_key k (xs @ ys) = sort_key k xs @ ys" using assms(2)
    by (induction xs) (auto simp: insort_key_append)
  then show ?thesis by (simp add: order_by_def)
qed

end
