(* ===== verification/Protocol_Values.thy ===== *)
theory Protocol_Values
  imports Renoa_Prelude
begin

section \<open>Protocol values\<close>

text \<open>
  The values every Renoa process exchanges (\<open>src/crates/renoa-protocol\<close>): Rust strings as lists
  of Unicode scalar values with their UTF-8 length, the shape checks of an attachment and of a
  target card (\<open>attachment.rs\<close>, \<open>command.rs\<close>), and the command envelope. The lemmas say when an
  attachment is accepted and that the name of a card for an acceptable target is acceptable on the
  wire: it is the longest prefix of the given name that fits, trimmed, or the target itself.
\<close>

subsection \<open>Strings\<close>

text \<open>
  A Rust \<open>String\<close> is the list of its scalar values; its \<open>len()\<close> is the length of its UTF-8
  encoding and its character boundaries are the lengths of its prefixes.
\<close>

type_synonym utext = "nat list"

definition str :: "string \<Rightarrow> utext" where
  "str s = map of_char s"

definition len_utf8 :: "nat \<Rightarrow> nat" where
  "len_utf8 c = (if c < 128 then 1 else if c < 2048 then 2 else if c < 65536 then 3 else 4)"

definition byte_len :: "utext \<Rightarrow> nat" where
  "byte_len s = sum_list (map len_utf8 s)"

definition is_control :: "nat \<Rightarrow> bool" where
  "is_control c \<longleftrightarrow> c < 32 \<or> (127 \<le> c \<and> c < 160)"

definition is_whitespace :: "nat \<Rightarrow> bool" where
  "is_whitespace c \<longleftrightarrow>
     (9 \<le> c \<and> c \<le> 13) \<or> (8192 \<le> c \<and> c \<le> 8202) \<or>
     c \<in> set [32, 133, 160, 5760, 8232, 8233, 8239, 8287, 12288]"

definition is_ascii_graphic :: "nat \<Rightarrow> bool" where
  "is_ascii_graphic c \<longleftrightarrow> 33 \<le> c \<and> c \<le> 126"

definition trim :: "utext \<Rightarrow> utext" where
  "trim s = rev (dropWhile is_whitespace (rev (dropWhile is_whitespace s)))"

fun is_char_boundary :: "utext \<Rightarrow> nat \<Rightarrow> bool" where
  "is_char_boundary s 0 = True"
| "is_char_boundary [] n = False"
| "is_char_boundary (c # s) n = (len_utf8 c \<le> n \<and> is_char_boundary s (n - len_utf8 c))"

text \<open>
  \<open>String::truncate(n)\<close> keeps the first \<open>n\<close> bytes, does nothing when there are no more than \<open>n\<close>,
  and panics (\<open>None\<close>) when \<open>n\<close> is not a character boundary. \<open>within\<close> is the prefix of the
  characters that end within the first \<open>n\<close> bytes.
\<close>

fun within :: "utext \<Rightarrow> nat \<Rightarrow> utext" where
  "within [] n = []"
| "within (c # s) n = (if len_utf8 c \<le> n then c # within s (n - len_utf8 c) else [])"

definition truncate_at :: "utext \<Rightarrow> nat \<Rightarrow> utext option" where
  "truncate_at s n =
     (if n > byte_len s then Some s else if is_char_boundary s n then Some (within s n) else None)"

definition split_once :: "nat \<Rightarrow> utext \<Rightarrow> (utext \<times> utext) option" where
  "split_once d s =
     (case dropWhile (\<lambda>c. c \<noteq> d) s of
        [] \<Rightarrow> None
      | _ # rest \<Rightarrow> Some (takeWhile (\<lambda>c. c \<noteq> d) s, rest))"

text \<open>\<open>to_string()\<close> of an unsigned integer.\<close>

fun show_nat :: "nat \<Rightarrow> utext" where
  "show_nat n = (if n < 10 then [48 + n] else show_nat (n div 10) @ [48 + n mod 10])"

declare show_nat.simps [simp del]

lemma len_utf8_pos [simp]: "0 < len_utf8 c"
  by (simp add: len_utf8_def)

lemma byte_len_simps [simp]:
  "byte_len [] = 0"
  "byte_len (c # s) = len_utf8 c + byte_len s"
  "byte_len (s @ t) = byte_len s + byte_len t"
  by (simp_all add: byte_len_def)

lemma is_char_boundary_iff: "is_char_boundary s n \<longleftrightarrow> (\<exists>p q. s = p @ q \<and> byte_len p = n)"
proof (induction s n rule: is_char_boundary.induct)
  case (1 s)
  show ?case by (auto intro: exI [of _ "[]"])
next
  case (3 c s n)
  show ?case
  proof
    assume "is_char_boundary (c # s) (Suc n)"
    then obtain p q where "s = p @ q" "byte_len p = Suc n - len_utf8 c" "len_utf8 c \<le> Suc n"
      using 3 by auto
    then show "\<exists>p q. c # s = p @ q \<and> byte_len p = Suc n" by (intro exI [of _ "c # p"] exI [of _ q]) simp
  next
    assume "\<exists>p q. c # s = p @ q \<and> byte_len p = Suc n"
    then obtain p q where p: "c # s = p @ q" "byte_len p = Suc n" by blast
    then obtain p' where "p = c # p'" by (cases p) auto
    then show "is_char_boundary (c # s) (Suc n)" using p 3 by auto
  qed
qed simp

lemma within_prefix: "\<exists>q. s = within s n @ q"
  by (induction s n rule: within.induct) auto

lemma within_fits: "byte_len (within s n) \<le> n"
  by (induction s n rule: within.induct) auto

lemma within_longest: "s = p @ q \<Longrightarrow> byte_len p \<le> n \<Longrightarrow> \<exists>r. within s n = p @ r"
proof (induction s n arbitrary: p rule: within.induct)
  case (2 c s n)
  then show ?case by (cases p) auto
qed simp

lemma trim_substring: "\<exists>a b. s = a @ trim s @ b"
proof -
  let ?t = "dropWhile is_whitespace s"
  have "s = takeWhile is_whitespace s @ ?t" by simp
  moreover have "rev ?t = takeWhile is_whitespace (rev ?t) @ dropWhile is_whitespace (rev ?t)" by simp
  then have "?t = trim s @ rev (takeWhile is_whitespace (rev ?t))"
    unfolding trim_def by (metis rev_append rev_rev_ident)
  ultimately show ?thesis by metis
qed

lemma split_once_Some:
  "split_once d s = Some (a, b) \<longleftrightarrow> s = a @ d # b \<and> d \<notin> set a"
proof
  assume "split_once d s = Some (a, b)"
  then obtain x where x: "dropWhile (\<lambda>c. c \<noteq> d) s = x # b" and a: "a = takeWhile (\<lambda>c. c \<noteq> d) s"
    by (auto simp: split_once_def split: list.splits)
  have "s = a @ x # b" and "x = d"
    using dropWhile_eq_Cons_conv [THEN iffD1, OF x] unfolding a by blast+
  moreover have "d \<notin> set a" unfolding a by (blast dest: set_takeWhileD)
  ultimately show "s = a @ d # b \<and> d \<notin> set a" by simp
next
  assume s: "s = a @ d # b \<and> d \<notin> set a"
  then have "dropWhile (\<lambda>c. c \<noteq> d) s = d # b" and "takeWhile (\<lambda>c. c \<noteq> d) s = a"
    by (induction a arbitrary: s) auto
  then show "split_once d s = Some (a, b)" by (simp add: split_once_def)
qed

subsection \<open>Attachments\<close>

type_synonym Uuid = "128 word"

record Attachment =
  upload_id :: Uuid
  attachment_name :: utext
  mime_type :: utext

datatype AttachmentError = AttachmentName | AttachmentMediaType | TooManyAttachments

definition MAX_PER_COMMAND :: nat where
  "MAX_PER_COMMAND = 10"

definition MAX_NAME_BYTES :: nat where
  "MAX_NAME_BYTES = 255"

definition MAX_MIME_TYPE_BYTES :: nat where
  "MAX_MIME_TYPE_BYTES = 255"

text \<open>
  A \<open>char\<close> outside ASCII has only bytes above 127 in UTF-8, so \<open>bytes().all(is_ascii_graphic)\<close>
  holds of a string exactly when each of its characters is graphic ASCII; 47 is the slash.
\<close>

definition attachment_new :: "Uuid \<Rightarrow> utext \<Rightarrow> utext \<Rightarrow> AttachmentError + Attachment" where
  "attachment_new upload name mime =
     (if name = [] \<or> byte_len name > MAX_NAME_BYTES \<or> list_ex is_control name
      then Inl AttachmentName
      else if \<not> (byte_len mime \<le> MAX_MIME_TYPE_BYTES \<and> list_all is_ascii_graphic mime \<and>
        (case split_once 47 mime of
           None \<Rightarrow> False
         | Some (kind, subtype) \<Rightarrow> kind \<noteq> [] \<and> subtype \<noteq> [] \<and> \<not> List.member subtype 47))
      then Inl AttachmentMediaType
      else Inr \<lparr>upload_id = upload, attachment_name = name, mime_type = mime\<rparr>)"

text \<open>
  Reading a command's attachments from the wire: every entry is read through \<open>attachment_new\<close>
  (\<open>TryFrom<Fields>\<close>), then their number is checked.
\<close>

definition bounded :: "(Uuid \<times> utext \<times> utext) list \<Rightarrow> AttachmentError + Attachment list" where
  "bounded entries = and_then (try_map (\<lambda>(u, n, t). attachment_new u n t) entries) (\<lambda>attachments.
     if length attachments > MAX_PER_COMMAND then Inl TooManyAttachments else Inr attachments)"

definition label_is_valid :: "utext \<Rightarrow> bool" where
  "label_is_valid label \<longleftrightarrow> label \<noteq> [] \<and> byte_len label \<le> 256 \<and> \<not> list_ex is_control label"

text \<open>A media type is \<open>type/subtype\<close>: graphic ASCII, at most 255 bytes, with exactly one slash
  inside.\<close>

definition media_type :: "utext \<Rightarrow> bool" where
  "media_type mime \<longleftrightarrow> byte_len mime \<le> 255 \<and> (\<forall>c \<in> set mime. 33 \<le> c \<and> c \<le> 126) \<and>
     (\<exists>kind subtype. mime = kind @ 47 # subtype \<and> kind \<noteq> [] \<and> subtype \<noteq> [] \<and>
       47 \<notin> set kind \<and> 47 \<notin> set subtype)"

lemma media_type_iff:
  "media_type mime \<longleftrightarrow> byte_len mime \<le> MAX_MIME_TYPE_BYTES \<and> list_all is_ascii_graphic mime \<and>
     (case split_once 47 mime of
        None \<Rightarrow> False
      | Some (kind, subtype) \<Rightarrow> kind \<noteq> [] \<and> subtype \<noteq> [] \<and> \<not> List.member subtype 47)"
proof -
  have "(\<exists>kind subtype. mime = kind @ 47 # subtype \<and> kind \<noteq> [] \<and> subtype \<noteq> [] \<and>
      47 \<notin> set kind \<and> 47 \<notin> set subtype) \<longleftrightarrow>
    (\<exists>kind subtype. split_once 47 mime = Some (kind, subtype) \<and> kind \<noteq> [] \<and> subtype \<noteq> [] \<and>
      47 \<notin> set subtype)"
    unfolding split_once_Some by blast
  also have "\<dots> \<longleftrightarrow> (case split_once 47 mime of
        None \<Rightarrow> False
      | Some (kind, subtype) \<Rightarrow> kind \<noteq> [] \<and> subtype \<noteq> [] \<and> \<not> List.member subtype 47)"
    by (auto split: option.splits)
  finally show ?thesis
    by (simp add: media_type_def MAX_MIME_TYPE_BYTES_def list_all_iff is_ascii_graphic_def)
qed

lemma attachment_new_iff:
  "attachment_new u n t = Inr a \<longleftrightarrow>
     n \<noteq> [] \<and> byte_len n \<le> 255 \<and> (\<forall>c \<in> set n. \<not> is_control c) \<and> media_type t \<and>
     a = \<lparr>upload_id = u, attachment_name = n, mime_type = t\<rparr>"
  unfolding attachment_new_def media_type_iff [symmetric]
  by (auto simp: MAX_NAME_BYTES_def list_ex_iff)

subsection \<open>Target cards\<close>

type_synonym TargetRef = utext
type_synonym SurfaceRef = utext

record TargetCard =
  card_target :: TargetRef
  card_name :: utext

definition MAX_LABEL_BYTES :: nat where
  "MAX_LABEL_BYTES = 256"

text \<open>The loop that steps back from \<open>end\<close> to a character boundary; 0 is one.\<close>

fun step_back :: "utext \<Rightarrow> nat \<Rightarrow> nat" where
  "step_back s n = (if is_char_boundary s n then n else if n = 0 then 0 else step_back s (n - 1))"

declare step_back.simps [simp del]

definition target_card_new :: "TargetRef \<Rightarrow> utext \<Rightarrow> TargetCard option" where
  "target_card_new target name =
     (let name = map (\<lambda>c. if is_control c then 32 else c) name;
          last_byte = step_back name (min (byte_len name) MAX_LABEL_BYTES)
      in case truncate_at name last_byte of
           None \<Rightarrow> None
         | Some name \<Rightarrow>
             let name = trim name
             in Some \<lparr>card_target = target, card_name = (if name = [] then target else name)\<rparr>)"

lemma step_back_greatest:
  "is_char_boundary s (step_back s n) \<and> step_back s n \<le> n \<and>
   (\<forall>m \<le> n. is_char_boundary s m \<longrightarrow> m \<le> step_back s n)"
proof (induction n)
  case (Suc n)
  then show ?case
    by (subst (1 2 3) step_back.simps) (auto simp: le_Suc_eq)
qed (simp add: step_back.simps)

text \<open>Cutting at the boundary the loop finds is cutting at the limit: it does not panic, and
  nothing that fits is lost.\<close>

lemma truncate_step_back: "truncate_at s (step_back s (min (byte_len s) n)) = Some (within s n)"
proof -
  obtain q where q: "s = within s n @ q" using within_prefix by blast
  let ?k = "byte_len (within s n)" and ?b = "step_back s (min (byte_len s) n)"
  have b: "is_char_boundary s ?b" "?b \<le> min (byte_len s) n" using step_back_greatest by blast+
  have "is_char_boundary s ?k" using q by (auto simp: is_char_boundary_iff)
  moreover have "?k \<le> min (byte_len s) n"
    using within_fits [of s n] q byte_len_simps(3) [of "within s n" q] by simp
  ultimately have "?k \<le> ?b" using step_back_greatest by blast
  then obtain r where r: "within s ?b = within s n @ r" using within_longest [OF q] by blast
  have "byte_len (within s ?b) \<le> n" using within_fits b(2) by (metis min.boundedE order_trans)
  moreover obtain q' where "s = within s ?b @ q'" using within_prefix by blast
  ultimately obtain r' where "within s n = within s ?b @ r'" using within_longest by metis
  with r have "within s ?b = within s n" by simp
  then show ?thesis using b by (simp add: truncate_at_def)
qed

lemma target_card_new_eq:
  "target_card_new target name =
     (let shown = trim (within (map (\<lambda>c. if is_control c then 32 else c) name) 256)
      in Some \<lparr>card_target = target, card_name = (if shown = [] then target else shown)\<rparr>)"
  by (simp add: target_card_new_def truncate_step_back MAX_LABEL_BYTES_def Let_def)

lemma shown_name:
  fixes name :: utext
  defines "clean \<equiv> map (\<lambda>c. if is_control c then 32 else c) name"
  shows "byte_len (trim (within clean 256)) \<le> 256" and "\<not> list_ex is_control (trim (within clean 256))"
proof -
  let ?t = "within clean 256"
  obtain a b where ab: "?t = a @ trim ?t @ b" using trim_substring by blast
  obtain q where q: "clean = ?t @ q" using within_prefix by blast
  have "byte_len ?t = byte_len a + (byte_len (trim ?t) + byte_len b)"
    by (subst ab) (simp only: byte_len_simps)
  then show "byte_len (trim ?t) \<le> 256" using within_fits [of clean 256] by simp
  have "set (trim ?t) \<subseteq> set ?t" by (subst (2) ab) auto
  moreover have "set ?t \<subseteq> set clean" by (subst (2) q) auto
  moreover have "\<forall>c \<in> set clean. \<not> is_control c" by (auto simp: clean_def is_control_def)
  ultimately show "\<not> list_ex is_control (trim ?t)" by (auto simp: list_ex_iff)
qed

text \<open>
  C35 (type): for a target that is itself acceptable on the wire, \<open>TargetCard::new\<close> does not
  panic, and the name of the card it builds is acceptable too: \<open>label_is_valid\<close> holds of it,
  whatever characters the given name has and wherever the 256-byte limit falls in it.
\<close>

theorem target_card_name_valid:
  assumes "label_is_valid target"
  shows "\<exists>card. target_card_new target name = Some card \<and> card_target card = target \<and>
    label_is_valid (card_name card)"
  using assms shown_name [of name]
  by (auto simp: target_card_new_eq Let_def label_is_valid_def)

theorem target_card_name_valid_witness:
  "label_is_valid (str ''kitchen'') \<and>
   (\<exists>card. target_card_new (str ''kitchen'') (replicate 255 97 @ [233, 98]) = Some card \<and>
     card_target card = str ''kitchen'' \<and> label_is_valid (card_name card))"
proof -
  have "label_is_valid (str ''kitchen'')"
    by (simp add: label_is_valid_def str_def byte_len_def len_utf8_def is_control_def)
  then show ?thesis using target_card_name_valid by simp
qed

text \<open>
  C36 (error): reading a command's attachments succeeds exactly when there are at most ten of
  them and each has a name of 1 to 255 bytes without a control character and a media type that
  is \<open>type/subtype\<close> in printable ASCII of at most 255 bytes; every other list is refused as a
  whole.
\<close>

theorem attachments_accepted_iff:
  "(\<exists>attachments. bounded entries = Inr attachments) \<longleftrightarrow>
     length entries \<le> 10 \<and>
     (\<forall>(u, n, t) \<in> set entries.
        n \<noteq> [] \<and> byte_len n \<le> 255 \<and> (\<forall>c \<in> set n. \<not> is_control c) \<and> media_type t)"
proof -
  have len: "length as = length entries" if "try_map (\<lambda>(u, n, t). attachment_new u n t) entries = Inr as" for as
    using that by (auto simp: try_map_eq_Inr dest: list_all2_lengthD)
  have "(\<exists>as. try_map (\<lambda>(u, n, t). attachment_new u n t) entries = Inr as) \<longleftrightarrow>
    (\<forall>(u, n, t) \<in> set entries. \<exists>a. attachment_new u n t = Inr a)"
    by (induction entries) (auto simp: and_then_eq_Inr)
  then show ?thesis
    using len by (fastforce simp: bounded_def and_then_eq_Inr MAX_PER_COMMAND_def attachment_new_iff split: if_splits)
qed

theorem attachments_accepted_iff_witness:
  "(\<exists>attachments. bounded [(1, str ''fridge.jpg'', str ''image/jpeg'')] = Inr attachments) \<and>
   \<not> (\<exists>attachments. bounded (replicate 11 (1, str ''a.txt'', str ''text/plain'')) = Inr attachments)"
proof -
  have "media_type (str ''image/jpeg'')"
    unfolding media_type_iff
    by (simp add: MAX_MIME_TYPE_BYTES_def str_def byte_len_def len_utf8_def is_ascii_graphic_def split_once_def)
  then show ?thesis
    unfolding attachments_accepted_iff by (simp add: str_def byte_len_def len_utf8_def is_control_def)
qed

subsection \<open>Commands\<close>

datatype Author = Principal | Guest

datatype CommandInput =
  TextInput (input_text: utext) (input_context: "utext option") (input_author: Author)
    (input_quiet: bool) (input_attachments: "Attachment list")

definition from_text :: "utext \<Rightarrow> CommandInput" where
  "from_text t = TextInput t None Principal False []"

definition quiet_if :: "CommandInput \<Rightarrow> bool \<Rightarrow> CommandInput" where
  "quiet_if i q = (case i of TextInput t c a _ as \<Rightarrow> TextInput t c a q as)"

datatype AgentMessageKind = AgentRequest | AgentReply | AgentFailure

record AgentOrigin =
  from_command :: Uuid
  origin_from :: TargetRef
  origin_name :: utext
  depth :: u32
  origin_kind :: AgentMessageKind

record CommandEnvelope =
  envelope_id :: Uuid
  principal_id :: Uuid
  surface :: SurfaceRef
  envelope_target :: TargetRef
  envelope_input :: CommandInput
  envelope_origin :: "AgentOrigin option"

end
