(* ===== verification/Run_Types.thy ===== *)
theory Run_Types
  imports Protocol_Values
begin

section \<open>The run ledger's vocabulary\<close>

text \<open>
  The provider-neutral types of the reference runtime (\<open>src/crates/renoa-core\<close>): agents,
  capabilities, model messages, run events and transcripts, and the trait \<open>RunStore\<close> as a
  record of operations on a store state. A JSON \<open>Value\<close> of a call or an outcome is only carried
  by the runtime, so its type is a parameter \<open>'j\<close>; the runtime builds one such value, the object
  \<open>{"error": message}\<close>, and receives that constructor as an argument.
\<close>

record ResolvedAgent =
  instructions :: utext
  capability_grants :: "utext list"

record 'j CapabilitySpec =
  spec_name :: utext
  spec_description :: utext
  input_schema :: 'j

record 'j CapabilityCall =
  call_id :: utext
  call_name :: utext
  call_arguments :: 'j

record 'j CapabilityRequest =
  request_run :: Uuid
  request_target :: TargetRef
  request_ordinal :: u32
  request_call :: "'j CapabilityCall"

record 'j CapabilityOutcome =
  model_view :: 'j
  outcome_is_error :: bool

definition capability_error :: "(utext \<Rightarrow> 'j) \<Rightarrow> utext \<Rightarrow> 'j CapabilityOutcome" where
  "capability_error error_value message =
     \<lparr>model_view = error_value message, outcome_is_error = True\<rparr>"

datatype 'j Message =
  SystemMessage utext
| UserMessage utext
| AssistantMessage utext "'j CapabilityCall list"
| CapabilityMessage utext utext "'j CapabilityOutcome"

record 'j ModelResponse =
  response_text :: utext
  capability_calls :: "'j CapabilityCall list"
  truncated :: bool

record 'j ModelRequest =
  model_run :: Uuid
  model_round :: u32
  messages :: "'j Message list"
  capabilities :: "'j CapabilitySpec list"

datatype 'j ModelEvent = TextDelta utext | ModelCompleted "'j ModelResponse"

datatype RunStatus = StatusOpen | StatusCompleted | StatusFailed | StatusCancelled

datatype TerminalState = RunCompleted utext | RunFailed utext | RunCancelled utext

definition terminal_status :: "TerminalState \<Rightarrow> RunStatus" where
  "terminal_status t = (case t of
     RunCompleted _ \<Rightarrow> StatusCompleted | RunFailed _ \<Rightarrow> StatusFailed | RunCancelled _ \<Rightarrow> StatusCancelled)"

datatype 'j RunEventKind =
  RunStarted CommandEnvelope ResolvedAgent
| ModelRequested u32
| ModelResponded u32 "'j ModelResponse"
| CapabilityRequested u32 "'j CapabilityCall"
| CapabilityCompleted u32 utext "'j CapabilityOutcome"
| RunTerminated TerminalState

record 'j RunEvent =
  run_event_id :: Uuid
  event_run :: Uuid
  event_sequence :: u64
  event_recorded_at_ms :: i64
  event_kind :: "'j RunEventKind"

record RunRecord =
  run_id :: Uuid
  run_command :: CommandEnvelope
  run_agent :: ResolvedAgent
  run_status :: RunStatus
  run_terminal :: "TerminalState option"
  run_created_at_ms :: i64
  run_finished_at_ms :: "i64 option"

record 'j RunTranscript =
  transcript_run :: RunRecord
  transcript_events :: "'j RunEvent list"

datatype RunAdmission = Admitted Uuid | Existing Uuid | Conflict Uuid

text \<open>
  A \<open>StoreError\<close> is one message; each constructor stands for the message of one place that
  makes it, the texts of SQLite's, serde's and the standard library's own errors left out.
\<close>

datatype StoreError =
  SqliteError
| RunJsonError
| RunNotFound Uuid
| InvalidRunId
| InvalidEventId
| NegativeEventSequence
| NegativeEventCursor
| AppendToTerminal Uuid
| AlreadyTerminal Uuid
| CompareAndSetLost Uuid
| ClockBeforeEpoch
| TimestampRange
| IntegerRange
| UnknownRunStatus string
| StoredRoundCount

text \<open>The trait \<open>RunStore\<close>: each method reads and may change the store's state.\<close>

record ('s, 'j) RunStore =
  admit_run :: "CommandEnvelope \<Rightarrow> ResolvedAgent \<Rightarrow> 's \<Rightarrow> (StoreError + RunAdmission) \<times> 's"
  append_events :: "Uuid \<Rightarrow> 'j RunEventKind list \<Rightarrow> 's \<Rightarrow> (StoreError + unit) \<times> 's"
  finish_run :: "Uuid \<Rightarrow> TerminalState \<Rightarrow> 's \<Rightarrow> (StoreError + unit) \<times> 's"
  load_transcript :: "Uuid \<Rightarrow> 's \<Rightarrow> (StoreError + 'j RunTranscript) \<times> 's"

fun is_terminated :: "'j RunEventKind \<Rightarrow> bool" where
  "is_terminated (RunTerminated _) = True"
| "is_terminated _ = False"

definition closing_kinds :: "RunRecord \<Rightarrow> 'j RunEventKind list" where
  "closing_kinds run = (case run_terminal run of None \<Rightarrow> [] | Some t \<Rightarrow> [RunTerminated t])"

text \<open>
  A transcript is in order when its events are numbered from 0 without a gap, the first is the
  start of its own command and agent, and a terminal run ends with the event of its terminal
  state. It is well formed when moreover no other event terminates it and every event is its own.
\<close>

definition transcript_in_order :: "'j RunTranscript \<Rightarrow> bool" where
  "transcript_in_order tr \<longleftrightarrow>
     (let run = transcript_run tr; events = transcript_events tr in
      map event_sequence events = map int [0..<length events] \<and>
      (\<exists>rest. map event_kind events =
         RunStarted (run_command run) (run_agent run) # rest @ closing_kinds run) \<and>
      (case run_terminal run of
         None \<Rightarrow> run_status run = StatusOpen \<and> run_finished_at_ms run = None
       | Some t \<Rightarrow> run_status run = terminal_status t \<and> run_finished_at_ms run \<noteq> None))"

definition transcript_ok :: "'j RunTranscript \<Rightarrow> bool" where
  "transcript_ok tr \<longleftrightarrow> transcript_in_order tr \<and>
     list_all (\<lambda>e. event_run e = run_id (transcript_run tr)) (transcript_events tr) \<and>
     filter is_terminated (map event_kind (transcript_events tr)) = closing_kinds (transcript_run tr)"

end
