(* ===== verification/Renoa_Systems.thy ===== *)
theory Renoa_Systems
  imports Main
begin

section \<open>Transition systems\<close>

text \<open>
  Two contracts a state machine of the development is shown to meet: an invariant that holds
  initially and that every step keeps, and a reflexive and transitive relation that every step
  from a state with the invariant satisfies. What follows for every sequence of steps, in
  whatever order, is proved here once.
\<close>

locale invariant_system =
  fixes init :: "'s"
    and step :: "'s \<Rightarrow> 's \<Rightarrow> bool"
    and inv :: "'s \<Rightarrow> bool"
  assumes init_inv: "inv init"
    and step_inv: "inv s \<Longrightarrow> step s s' \<Longrightarrow> inv s'"
begin

lemma steps_inv:
  assumes "step\<^sup>*\<^sup>* s s'" and "inv s"
  shows "inv s'"
  using assms by (induction rule: rtranclp_induct) (auto intro: step_inv)

lemma reachable_inv: "step\<^sup>*\<^sup>* init s \<Longrightarrow> inv s"
  using steps_inv init_inv by blast

end

locale history_system = invariant_system +
  fixes hist :: "'s \<Rightarrow> 's \<Rightarrow> bool"
  assumes hist_refl: "hist s s"
    and hist_trans: "hist a b \<Longrightarrow> hist b c \<Longrightarrow> hist a c"
    and step_hist: "inv s \<Longrightarrow> step s s' \<Longrightarrow> hist s s'"
begin

lemma steps_hist:
  assumes "step\<^sup>*\<^sup>* s s'" and "inv s"
  shows "hist s s'"
  using assms
proof (induction rule: rtranclp_induct)
  case base
  show ?case by (rule hist_refl)
next
  case (step y z)
  have "inv y" by (rule steps_inv [OF step.hyps(1) step.prems])
  then show ?case using step step_hist hist_trans by blast
qed

lemma reachable_hist:
  assumes "step\<^sup>*\<^sup>* init s" and "step\<^sup>*\<^sup>* s s'"
  shows "inv s'" and "hist s s'"
  using reachable_inv [OF assms(1)] steps_inv steps_hist assms(2) by blast+

end

text \<open>
  The third contract is that of an enumeration kept in a text column: reading a written value
  gives it back, and only written values are read.
\<close>

locale text_enum =
  fixes show_text :: "'e \<Rightarrow> string"
    and parse_text :: "string \<Rightarrow> 'err + 'e"
  assumes parse_show: "parse_text (show_text x) = Inr x"
    and parse_exact: "parse_text t = Inr x \<Longrightarrow> t = show_text x"
begin

lemma show_inj: "show_text x = show_text y \<longleftrightarrow> x = y"
  by (metis parse_show sum.inject(2))

lemma parse_iff: "parse_text t = Inr x \<longleftrightarrow> t = show_text x"
  using parse_show parse_exact by blast

lemma parse_total_iff: "(\<exists>x. parse_text t = Inr x) \<longleftrightarrow> t \<in> range show_text"
  using parse_iff by blast

end

end
