(* ===== verification/Run_Store.thy ===== *)
theory Run_Store
  imports Run_Types Renoa_Systems
begin

section \<open>The SQLite run ledger\<close>

text \<open>
  \<open>SqliteRunStore\<close> (\<open>src/crates/renoa-store-sqlite\<close>): the two tables of the ledger, the schema's
  initialization with the migration that gives old runs their command identity, the four methods
  of \<open>RunStore\<close> and \<open>load_events_after\<close>, each transaction a function on the ledger that either
  fails and changes nothing or returns the changed ledger.
\<close>

subsection \<open>Tables and codec\<close>

text \<open>
  JSON texts and printed UUIDs have a type parameter \<open>'t\<close>; serde and the uuid crate are the
  codec below. \<open>run_codec_ok\<close> states what the ledger relies on: a printed UUID parses back, and
  what serde writes it reads back. The JSON values \<open>'j\<close> inside a call or an outcome are those that
  serde reads back as they were written (it parses a printed float with its default precision and
  nesting up to its recursion limit). A command with more than ten attachments is written but not
  read back (\<open>attachment::bounded\<close>): \<open>run_codec_ok\<close> says nothing of those, and
  \<open>refuses_oversized\<close> says that reading them fails.
\<close>

record ('t, 'j) run_codec =
  uuid_text :: "Uuid \<Rightarrow> 't"
  uuid_parse :: "'t \<Rightarrow> Uuid option"
  command_to_json :: "CommandEnvelope \<Rightarrow> 't option"
  command_from_json :: "'t \<Rightarrow> CommandEnvelope option"
  agent_to_json :: "ResolvedAgent \<Rightarrow> 't option"
  agent_from_json :: "'t \<Rightarrow> ResolvedAgent option"
  terminal_to_json :: "TerminalState \<Rightarrow> 't option"
  terminal_from_json :: "'t \<Rightarrow> TerminalState option"
  kind_to_json :: "'j RunEventKind \<Rightarrow> 't option"
  kind_from_json :: "'t \<Rightarrow> 'j RunEventKind option"

definition readable :: "CommandEnvelope \<Rightarrow> bool" where
  "readable c \<longleftrightarrow> length (input_attachments (envelope_input c)) \<le> MAX_PER_COMMAND"

fun readable_kind :: "'j RunEventKind \<Rightarrow> bool" where
  "readable_kind (RunStarted c a) = readable c"
| "readable_kind _ = True"

definition run_codec_ok :: "('t, 'j) run_codec \<Rightarrow> bool" where
  "run_codec_ok C \<longleftrightarrow>
     (\<forall>u. uuid_parse C (uuid_text C u) = Some u) \<and>
     (\<forall>c t. readable c \<longrightarrow> command_to_json C c = Some t \<longrightarrow> command_from_json C t = Some c) \<and>
     (\<forall>a t. agent_to_json C a = Some t \<longrightarrow> agent_from_json C t = Some a) \<and>
     (\<forall>s t. terminal_to_json C s = Some t \<longrightarrow> terminal_from_json C t = Some s) \<and>
     (\<forall>k t. readable_kind k \<longrightarrow> kind_to_json C k = Some t \<longrightarrow> kind_from_json C t = Some k)"

definition refuses_oversized :: "('t, 'j) run_codec \<Rightarrow> bool" where
  "refuses_oversized C \<longleftrightarrow>
     (\<forall>c t. \<not> readable c \<longrightarrow> command_to_json C c = Some t \<longrightarrow> command_from_json C t = None) \<and>
     (\<forall>k t. \<not> readable_kind k \<longrightarrow> kind_to_json C k = Some t \<longrightarrow> kind_from_json C t = None)"

record 't run_row =
  row_run_id :: 't
  row_command_id :: "'t option"
  row_command_json :: 't
  row_agent_json :: 't
  row_status :: string
  row_terminal_json :: "'t option"
  row_next_sequence :: i64
  row_created_at_ms :: i64
  row_finished_at_ms :: "i64 option"

record 't run_event_row =
  row_event_id :: 't
  row_event_run :: 't
  row_sequence :: i64
  row_recorded_at_ms :: i64
  row_kind_json :: 't

record 't Ledger =
  runs_table :: bool
  events_table :: bool
  events_index :: bool
  command_id_column :: bool
  command_id_index :: bool
  runs :: "'t run_row list"
  run_events :: "'t run_event_row list"

subsection \<open>Helpers\<close>

definition run_sql_integer :: "u64 \<Rightarrow> StoreError + i64" where
  "run_sql_integer n = (if in_i64 n then Inr n else Inl IntegerRange)"

definition from_run_integer :: "i64 \<Rightarrow> StoreError \<Rightarrow> StoreError + u64" where
  "from_run_integer n e = (if 0 \<le> n then Inr n else Inl e)"

text \<open>The clock as milliseconds since the Unix epoch, negative before it.\<close>

definition run_now_ms :: "int \<Rightarrow> StoreError + i64" where
  "run_now_ms clock =
     (if clock < 0 then Inl ClockBeforeEpoch
      else if in_i64 clock then Inr clock else Inl TimestampRange)"

definition run_status_name :: "RunStatus \<Rightarrow> string" where
  "run_status_name s = (case s of
     StatusOpen \<Rightarrow> ''open''
   | StatusCompleted \<Rightarrow> ''completed''
   | StatusFailed \<Rightarrow> ''failed''
   | StatusCancelled \<Rightarrow> ''cancelled'')"

definition parse_run_status :: "string \<Rightarrow> StoreError + RunStatus" where
  "parse_run_status value =
     (if value = ''open'' then Inr StatusOpen
      else if value = ''completed'' then Inr StatusCompleted
      else if value = ''failed'' then Inr StatusFailed
      else if value = ''cancelled'' then Inr StatusCancelled
      else Inl (UnknownRunStatus value))"

interpretation run_status_text: text_enum run_status_name parse_run_status
proof
  show "parse_run_status (run_status_name s) = Inr s" for s
    by (cases s) (simp_all add: parse_run_status_def run_status_name_def)
  show "parse_run_status t = Inr s \<Longrightarrow> t = run_status_name s" for t s
    by (auto simp: parse_run_status_def run_status_name_def split: if_splits)
qed

definition load_open_cursor ::
  "('t, 'j) run_codec \<Rightarrow> Uuid \<Rightarrow> 't Ledger \<Rightarrow> StoreError + (RunStatus \<times> u64)" where
  "load_open_cursor C r l =
     and_then (ok_or (find (\<lambda>row. row_run_id row = uuid_text C r) (runs l)) (RunNotFound r)) (\<lambda>row.
     and_then (from_run_integer (row_next_sequence row) NegativeEventCursor) (\<lambda>sequence.
     and_then (parse_run_status (row_status row)) (\<lambda>status. Inr (status, sequence))))"

text \<open>
  \<open>INSERT INTO run_events\<close> under the table's primary key, its \<open>UNIQUE(run_id, sequence)\<close> and
  its foreign key; the event id is the one \<open>EventId::new\<close> draws.
\<close>

definition new_event_row ::
  "('t, 'j) run_codec \<Rightarrow> Uuid \<Rightarrow> i64 \<Rightarrow> i64 \<Rightarrow> 't \<Rightarrow> Uuid \<Rightarrow> 't run_event_row" where
  "new_event_row C r sequence recorded kind_json event_id =
     \<lparr>row_event_id = uuid_text C event_id, row_event_run = uuid_text C r,
      row_sequence = sequence, row_recorded_at_ms = recorded, row_kind_json = kind_json\<rparr>"

definition insert_run_event ::
  "('t, 'j) run_codec \<Rightarrow> Uuid \<Rightarrow> u64 \<Rightarrow> i64 \<Rightarrow> 'j RunEventKind \<Rightarrow> Uuid \<Rightarrow> 't Ledger \<Rightarrow>
   StoreError + 't Ledger" where
  "insert_run_event C r sequence recorded kind event_id l =
     and_then (ok_or (kind_to_json C kind) RunJsonError) (\<lambda>kind_json.
     and_then (run_sql_integer sequence) (\<lambda>sequence.
       if exists_row (\<lambda>e. row_event_id e = uuid_text C event_id \<or>
            (row_event_run e = uuid_text C r \<and> row_sequence e = sequence)) (run_events l) \<or>
          \<not> exists_row (\<lambda>row. row_run_id row = uuid_text C r) (runs l)
       then Inl SqliteError
       else Inr (l\<lparr>run_events := run_events l @
         [new_event_row C r sequence recorded kind_json event_id]\<rparr>)))"

subsection \<open>Transactions\<close>

text \<open>\<open>clock\<close>, \<open>new_run\<close> and \<open>ids\<close> are what the transaction reads of the clock and of
  \<open>Uuid::new_v7\<close>. An empty batch of events returns before a transaction is begun.\<close>

definition new_run_row ::
  "('t, 'j) run_codec \<Rightarrow> Uuid \<Rightarrow> Uuid \<Rightarrow> 't \<Rightarrow> 't \<Rightarrow> i64 \<Rightarrow> 't run_row" where
  "new_run_row C r command_id command_json agent_json created =
     \<lparr>row_run_id = uuid_text C r, row_command_id = Some (uuid_text C command_id),
      row_command_json = command_json, row_agent_json = agent_json,
      row_status = ''open'', row_terminal_json = None, row_next_sequence = 1,
      row_created_at_ms = created, row_finished_at_ms = None\<rparr>"

definition admit_run_tx ::
  "('t, 'j) run_codec \<Rightarrow> CommandEnvelope \<Rightarrow> ResolvedAgent \<Rightarrow> int \<Rightarrow> Uuid \<Rightarrow> Uuid \<Rightarrow> 't Ledger \<Rightarrow>
   StoreError + (RunAdmission \<times> 't Ledger)" where
  "admit_run_tx C command agent clock new_run event_id l =
     and_then (ok_or (command_to_json C command) RunJsonError) (\<lambda>command_json.
     and_then (ok_or (agent_to_json C agent) RunJsonError) (\<lambda>agent_json.
     case find (\<lambda>row. row_command_id row = Some (uuid_text C (envelope_id command))) (runs l) of
       Some row \<Rightarrow>
         and_then (ok_or (uuid_parse C (row_run_id row)) InvalidRunId) (\<lambda>r.
           Inr (if row_command_json row = command_json \<and> row_agent_json row = agent_json
                then Existing r else Conflict r, l))
     | None \<Rightarrow>
         and_then (run_now_ms clock) (\<lambda>created.
         and_then
           (if exists_row (\<lambda>row. row_run_id row = uuid_text C new_run \<or>
                 (command_id_index l \<and>
                  row_command_id row = Some (uuid_text C (envelope_id command)))) (runs l)
            then Inl SqliteError
            else Inr (l\<lparr>runs := runs l @
              [new_run_row C new_run (envelope_id command) command_json agent_json created]\<rparr>)) (\<lambda>l.
         and_then (insert_run_event C new_run 0 created (RunStarted command agent) event_id l) (\<lambda>l.
           Inr (Admitted new_run, l))))))"

definition append_events_tx ::
  "('t, 'j) run_codec \<Rightarrow> Uuid \<Rightarrow> 'j RunEventKind list \<Rightarrow> int \<Rightarrow> (nat \<Rightarrow> Uuid) \<Rightarrow> 't Ledger \<Rightarrow>
   StoreError + (unit \<times> 't Ledger)" where
  "append_events_tx C r events clock ids l =
     (if events = [] then Inr ((), l) else
     and_then (load_open_cursor C r l) (\<lambda>(status, next_sequence).
     if status \<noteq> StatusOpen then Inl (AppendToTerminal r) else
     and_then (run_now_ms clock) (\<lambda>recorded.
     and_then (try_fold (\<lambda>(offset, kind). insert_run_event C r (next_sequence + int offset) recorded kind (ids offset))
        (enumerate 0 events) l) (\<lambda>l.
     and_then (run_sql_integer (next_sequence + int (length events))) (\<lambda>next_sequence.
       Inr ((), l\<lparr>runs := update_where (\<lambda>row. row_run_id row = uuid_text C r)
         (row_next_sequence_update (\<lambda>_. next_sequence)) (runs l)\<rparr>))))))"

definition finish_run_tx ::
  "('t, 'j) run_codec \<Rightarrow> Uuid \<Rightarrow> TerminalState \<Rightarrow> int \<Rightarrow> Uuid \<Rightarrow> 't Ledger \<Rightarrow>
   StoreError + (unit \<times> 't Ledger)" where
  "finish_run_tx C r terminal clock event_id l =
     and_then (load_open_cursor C r l) (\<lambda>(status, next_sequence).
     if status \<noteq> StatusOpen then Inl (AlreadyTerminal r) else
     and_then (run_now_ms clock) (\<lambda>finished.
     and_then (ok_or (terminal_to_json C terminal) RunJsonError) (\<lambda>terminal_json.
     and_then (run_sql_integer (next_sequence + 1)) (\<lambda>after.
       let is_open = (\<lambda>row. row_run_id row = uuid_text C r \<and> row_status row = ''open'') in
       if changed is_open (runs l) \<noteq> 1 then Inl (CompareAndSetLost r) else
       and_then (insert_run_event C r next_sequence finished (RunTerminated terminal) event_id
          (l\<lparr>runs := update_where is_open
             (\<lambda>row. row\<lparr>row_status := run_status_name (terminal_status terminal),
                row_terminal_json := Some terminal_json, row_next_sequence := after,
                row_finished_at_ms := Some finished\<rparr>) (runs l)\<rparr>)) (\<lambda>l.
         Inr ((), l))))))"

subsection \<open>Reads\<close>

definition read_run_event ::
  "('t, 'j) run_codec \<Rightarrow> Uuid \<Rightarrow> 't run_event_row \<Rightarrow> StoreError + 'j RunEvent" where
  "read_run_event C r row =
     and_then (ok_or (uuid_parse C (row_event_id row)) InvalidEventId) (\<lambda>event_id.
     and_then (from_run_integer (row_sequence row) NegativeEventSequence) (\<lambda>sequence.
     and_then (ok_or (kind_from_json C (row_kind_json row)) RunJsonError) (\<lambda>kind.
       Inr \<lparr>run_event_id = event_id, event_run = r, event_sequence = sequence,
         event_recorded_at_ms = row_recorded_at_ms row, event_kind = kind\<rparr>)))"

definition read_run :: "('t, 'j) run_codec \<Rightarrow> Uuid \<Rightarrow> 't run_row \<Rightarrow> StoreError + RunRecord" where
  "read_run C r row =
     and_then (ok_or (command_from_json C (row_command_json row)) RunJsonError) (\<lambda>command.
     and_then (ok_or (agent_from_json C (row_agent_json row)) RunJsonError) (\<lambda>agent.
     and_then (parse_run_status (row_status row)) (\<lambda>status.
     and_then (transpose_map (\<lambda>t. ok_or (terminal_from_json C t) RunJsonError) (row_terminal_json row))
       (\<lambda>terminal.
       Inr \<lparr>run_id = r, run_command = command, run_agent = agent, run_status = status,
         run_terminal = terminal, run_created_at_ms = row_created_at_ms row,
         run_finished_at_ms = row_finished_at_ms row\<rparr>))))"

definition load_transcript_tx ::
  "('t, 'j) run_codec \<Rightarrow> Uuid \<Rightarrow> 't Ledger \<Rightarrow> StoreError + 'j RunTranscript" where
  "load_transcript_tx C r l =
     and_then (ok_or (find (\<lambda>row. row_run_id row = uuid_text C r) (runs l)) (RunNotFound r)) (\<lambda>row.
     and_then (read_run C r row) (\<lambda>run.
     and_then (try_map (read_run_event C r)
       (order_by row_sequence (filter (\<lambda>e. row_event_run e = uuid_text C r) (run_events l)))) (\<lambda>events.
       Inr \<lparr>transcript_run = run, transcript_events = events\<rparr>)))"

definition load_events_after_tx ::
  "('t, 'j) run_codec \<Rightarrow> Uuid \<Rightarrow> u64 option \<Rightarrow> 't Ledger \<Rightarrow> StoreError + 'j RunEvent list" where
  "load_events_after_tx C r after_sequence l =
     (if \<not> exists_row (\<lambda>row. row_run_id row = uuid_text C r) (runs l) then Inl (RunNotFound r) else
      and_then (transpose_map run_sql_integer after_sequence) (\<lambda>after_sequence.
        try_map (read_run_event C r) (order_by row_sequence (filter (\<lambda>e.
          row_event_run e = uuid_text C r \<and>
          (case after_sequence of None \<Rightarrow> True | Some n \<Rightarrow> row_sequence e > n)) (run_events l)))))"

subsection \<open>Schema\<close>

text \<open>
  \<open>migrate_command_identity\<close> in one transaction: a ledger without the column \<open>command_id\<close> gets
  it, filled from each run's stored command, and the unique index on it is made when it is
  missing, which fails when two runs have the same command id.
\<close>

definition backfill_command_id ::
  "('t, 'j) run_codec \<Rightarrow> 't \<times> 't \<Rightarrow> 't Ledger \<Rightarrow> StoreError + 't Ledger" where
  "backfill_command_id C legacy l =
     and_then (ok_or (command_from_json C (snd legacy)) RunJsonError) (\<lambda>command.
       Inr (l\<lparr>runs := update_where (\<lambda>row. row_run_id row = fst legacy)
         (row_command_id_update (\<lambda>_. Some (uuid_text C (envelope_id command)))) (runs l)\<rparr>))"

definition migrate_command_identity ::
  "('t, 'j) run_codec \<Rightarrow> 't Ledger \<Rightarrow> StoreError + 't Ledger" where
  "migrate_command_identity C l =
     and_then
       (if command_id_column l then Inr l
        else try_fold (backfill_command_id C)
          (map (\<lambda>row. (row_run_id row, row_command_json row)) (runs l))
          (l\<lparr>command_id_column := True, runs := map (row_command_id_update (\<lambda>_. None)) (runs l)\<rparr>))
       (\<lambda>l.
        if command_id_index l then Inr l
        else if distinct (filter (\<lambda>c. c \<noteq> None) (map row_command_id (runs l)))
        then Inr (l\<lparr>command_id_index := True\<rparr>) else Inl SqliteError)"

text \<open>The three statements of \<open>execute_batch\<close>, each committed by itself.\<close>

definition create_run_tables :: "'t Ledger \<Rightarrow> 't Ledger" where
  "create_run_tables l =
     (let l = if runs_table l then l
              else l\<lparr>runs_table := True, command_id_column := True, command_id_index := False, runs := []\<rparr>;
          l = if events_table l then l
              else l\<lparr>events_table := True, events_index := False, run_events := []\<rparr>
      in if events_index l then l else l\<lparr>events_index := True\<rparr>)"

text \<open>The result of \<open>initialize\<close> and the ledger it leaves on disk.\<close>

definition initialize_ledger ::
  "('t, 'j) run_codec \<Rightarrow> 't Ledger \<Rightarrow> (StoreError + unit) \<times> 't Ledger" where
  "initialize_ledger C l =
     (let l = create_run_tables l in
      case migrate_command_identity C l of Inl e \<Rightarrow> (Inl e, l) | Inr l' \<Rightarrow> (Inr (), l'))"

subsection \<open>The store\<close>

text \<open>
  A store is its ledger with what its calls read of their surroundings: at each tick the clock,
  the next UUID and whether SQLite opens the file. A call whose connection does not open fails
  and changes nothing.
\<close>

record 't SqliteRunStore =
  ledger :: "'t Ledger"
  store_clock :: "nat \<Rightarrow> int"
  store_uuids :: "nat \<Rightarrow> Uuid"
  store_opens :: "nat \<Rightarrow> bool"
  ticks :: nat

definition run_commit ::
  "nat \<Rightarrow> (StoreError + ('a \<times> 't Ledger)) \<Rightarrow> 't SqliteRunStore \<Rightarrow> (StoreError + 'a) \<times> 't SqliteRunStore" where
  "run_commit n result s =
     (let s = s\<lparr>ticks := ticks s + n\<rparr> in
      if \<not> store_opens s (ticks s) then (Inl SqliteError, s) else
      case result of Inl e \<Rightarrow> (Inl e, s) | Inr (a, l) \<Rightarrow> (Inr a, s\<lparr>ledger := l\<rparr>))"

definition sqlite_admit_run ::
  "('t, 'j) run_codec \<Rightarrow> CommandEnvelope \<Rightarrow> ResolvedAgent \<Rightarrow> 't SqliteRunStore \<Rightarrow>
   (StoreError + RunAdmission) \<times> 't SqliteRunStore" where
  "sqlite_admit_run C command agent s =
     run_commit 2 (admit_run_tx C command agent (store_clock s (ticks s)) (store_uuids s (ticks s))
       (store_uuids s (ticks s + 1)) (ledger s)) s"

definition sqlite_append_events ::
  "('t, 'j) run_codec \<Rightarrow> Uuid \<Rightarrow> 'j RunEventKind list \<Rightarrow> 't SqliteRunStore \<Rightarrow>
   (StoreError + unit) \<times> 't SqliteRunStore" where
  "sqlite_append_events C r events s =
     (if events = [] then (Inr (), s)
      else run_commit (length events) (append_events_tx C r events (store_clock s (ticks s))
        (\<lambda>i. store_uuids s (ticks s + i)) (ledger s)) s)"

definition sqlite_finish_run ::
  "('t, 'j) run_codec \<Rightarrow> Uuid \<Rightarrow> TerminalState \<Rightarrow> 't SqliteRunStore \<Rightarrow>
   (StoreError + unit) \<times> 't SqliteRunStore" where
  "sqlite_finish_run C r terminal s =
     run_commit 1 (finish_run_tx C r terminal (store_clock s (ticks s)) (store_uuids s (ticks s)) (ledger s)) s"

definition sqlite_load_transcript ::
  "('t, 'j) run_codec \<Rightarrow> Uuid \<Rightarrow> 't SqliteRunStore \<Rightarrow>
   (StoreError + 'j RunTranscript) \<times> 't SqliteRunStore" where
  "sqlite_load_transcript C r s =
     run_commit 1 (and_then (load_transcript_tx C r (ledger s)) (\<lambda>tr. Inr (tr, ledger s))) s"

definition sqlite_store :: "('t, 'j) run_codec \<Rightarrow> ('t SqliteRunStore, 'j) RunStore" where
  "sqlite_store C =
     \<lparr>admit_run = sqlite_admit_run C, append_events = sqlite_append_events C,
      finish_run = sqlite_finish_run C, load_transcript = sqlite_load_transcript C\<rparr>"

end
