(* ===== verification/Run_Ledger.thy ===== *)
theory Run_Ledger
  imports Run_Store
begin

section \<open>What the run ledger keeps\<close>

text \<open>
  The invariant of the ledger and its history. Whatever transactions are made, with whatever
  arguments, every row is the stored form of a transcript that is in order. When moreover the
  admitted commands have at most ten attachments and the appended events are a run's progress,
  as the engine's are, every run can be read back with a well-formed transcript, a transaction
  extends at most the events of its own run, and a terminal one never changes. The abstract
  content of a ledger is what \<open>load_transcript\<close> returns for each run.
\<close>

definition progress :: "'j RunEventKind \<Rightarrow> bool" where
  "progress k \<longleftrightarrow> (case k of RunStarted _ _ \<Rightarrow> False | RunTerminated _ \<Rightarrow> False | _ \<Rightarrow> True)"

definition run_events_of :: "('t, 'j) run_codec \<Rightarrow> Uuid \<Rightarrow> 't Ledger \<Rightarrow> 't run_event_row list" where
  "run_events_of C r l = filter (\<lambda>e. row_event_run e = uuid_text C r) (run_events l)"

abbreviation run_row_of :: "('t, 'j) run_codec \<Rightarrow> Uuid \<Rightarrow> 't Ledger \<Rightarrow> 't run_row option" where
  "run_row_of C r l \<equiv> find (\<lambda>row. row_run_id row = uuid_text C r) (runs l)"

subsection \<open>Stored transcripts\<close>

text \<open>The rows that hold an event, a run and a whole transcript, whether they can be read back or
  not.\<close>

definition event_stored :: "('t, 'j) run_codec \<Rightarrow> Uuid \<Rightarrow> 't run_event_row \<Rightarrow> 'j RunEvent \<Rightarrow> bool" where
  "event_stored C r row ev \<longleftrightarrow>
     row_event_id row = uuid_text C (run_event_id ev) \<and> event_run ev = r \<and>
     row_sequence row = event_sequence ev \<and> 0 \<le> event_sequence ev \<and>
     row_recorded_at_ms row = event_recorded_at_ms ev \<and>
     kind_to_json C (event_kind ev) = Some (row_kind_json row)"

definition run_stored :: "('t, 'j) run_codec \<Rightarrow> 't run_row \<Rightarrow> RunRecord \<Rightarrow> bool" where
  "run_stored C row run \<longleftrightarrow>
     row_command_id row = Some (uuid_text C (envelope_id (run_command run))) \<and>
     command_to_json C (run_command run) = Some (row_command_json row) \<and>
     agent_to_json C (run_agent run) = Some (row_agent_json row) \<and>
     row_status row = run_status_name (run_status run) \<and>
     (case run_terminal run of
        None \<Rightarrow> row_terminal_json row = None
      | Some t \<Rightarrow> terminal_to_json C t = row_terminal_json row \<and> row_terminal_json row \<noteq> None) \<and>
     row_created_at_ms row = run_created_at_ms run \<and> row_finished_at_ms row = run_finished_at_ms run"

definition stored_in :: "('t, 'j) run_codec \<Rightarrow> Uuid \<Rightarrow> 't run_row \<Rightarrow> 't run_event_row list \<Rightarrow> 'j RunTranscript \<Rightarrow> bool" where
  "stored_in C r row rows tr \<longleftrightarrow>
     run_id (transcript_run tr) = r \<and> run_stored C row (transcript_run tr) \<and>
     list_all2 (event_stored C r) (order_by row_sequence rows) (transcript_events tr) \<and>
     row_next_sequence row = int (length (transcript_events tr)) \<and> in_i64 (row_next_sequence row)"

definition stored :: "('t, 'j) run_codec \<Rightarrow> Uuid \<Rightarrow> 't Ledger \<Rightarrow> 'j RunTranscript \<Rightarrow> bool" where
  "stored C r l tr \<longleftrightarrow>
     (\<exists>row. run_row_of C r l = Some row \<and> stored_in C r row (run_events_of C r l) tr)"

definition readable_transcript :: "'j RunTranscript \<Rightarrow> bool" where
  "readable_transcript tr \<longleftrightarrow> readable (run_command (transcript_run tr)) \<and>
     (\<forall>ev \<in> set (transcript_events tr). readable_kind (event_kind ev))"

text \<open>A transcript that reads back and is well formed.\<close>

definition clean :: "'j RunTranscript \<Rightarrow> bool" where
  "clean tr \<longleftrightarrow> readable_transcript tr \<and> transcript_ok tr"

text \<open>Every run of the ledger is the stored form of a transcript with \<open>P\<close>.\<close>

definition ledger_holds :: "('j RunTranscript \<Rightarrow> bool) \<Rightarrow> ('t, 'j) run_codec \<Rightarrow> 't Ledger \<Rightarrow> bool" where
  "ledger_holds P C l \<longleftrightarrow>
     runs_table l \<and> events_table l \<and> command_id_column l \<and> command_id_index l \<and>
     unique_on row_run_id (runs l) \<and> unique_on row_command_id (runs l) \<and>
     unique_on row_event_id (run_events l) \<and>
     (\<forall>e \<in> set (run_events l). \<exists>row \<in> set (runs l). row_event_run e = row_run_id row) \<and>
     (\<forall>row \<in> set (runs l). \<exists>r tr. row_run_id row = uuid_text C r \<and> stored C r l tr \<and> P tr)"

abbreviation ledger_inv :: "('t, 'j) run_codec \<Rightarrow> 't Ledger \<Rightarrow> bool" where
  "ledger_inv C \<equiv> ledger_holds clean C"

subsection \<open>Codec\<close>

lemma uuid_text_eq [simp]:
  assumes "run_codec_ok C"
  shows "uuid_text C a = uuid_text C b \<longleftrightarrow> a = b"
  using assms unfolding run_codec_ok_def by (metis option.inject)

lemma codec_reads:
  assumes "run_codec_ok C"
  shows "uuid_parse C (uuid_text C u) = Some u"
    and "readable c \<Longrightarrow> command_to_json C c = Some t \<Longrightarrow> command_from_json C t = Some c"
    and "agent_to_json C a = Some t \<Longrightarrow> agent_from_json C t = Some a"
    and "terminal_to_json C s = Some t \<Longrightarrow> terminal_from_json C t = Some s"
    and "readable_kind k \<Longrightarrow> kind_to_json C k = Some t \<Longrightarrow> kind_from_json C t = Some k"
  using assms unfolding run_codec_ok_def by blast+

lemma progress_kind: "progress k \<Longrightarrow> readable_kind k \<and> \<not> is_terminated k"
  by (cases k) (simp_all add: progress_def)

subsection \<open>Reading a run\<close>

lemma load_transcript_iff:
  "load_transcript_tx C r l = Inr tr \<longleftrightarrow>
     (\<exists>row. run_row_of C r l = Some row \<and> read_run C r row = Inr (transcript_run tr) \<and>
        list_all2 (\<lambda>row ev. read_run_event C r row = Inr ev)
          (order_by row_sequence (run_events_of C r l)) (transcript_events tr))"
  by (cases tr) (auto simp: load_transcript_tx_def run_events_of_def result_eq)

lemma load_transcript_cong:
  "run_row_of C r l' = run_row_of C r l \<Longrightarrow> run_events_of C r l' = run_events_of C r l \<Longrightarrow>
   load_transcript_tx C r l' = load_transcript_tx C r l"
  by (simp add: load_transcript_tx_def run_events_of_def)

lemma read_event_fields:
  "read_run_event C r row = Inr ev \<Longrightarrow> event_run ev = r \<and> event_sequence ev = row_sequence row"
  by (auto simp: read_run_event_def from_run_integer_def result_eq split: if_splits)

lemma read_run_fields:
  "read_run C r row = Inr run \<Longrightarrow> run_id run = r \<and> parse_run_status (row_status row) = Inr (run_status run)"
  by (auto simp: read_run_def result_eq)

lemma read_stored_event:
  assumes "run_codec_ok C" and "event_stored C r row ev" and "readable_kind (event_kind ev)"
  shows "read_run_event C r row = Inr ev"
  using assms codec_reads(1,5) [OF assms(1)]
  by (cases ev) (simp add: read_run_event_def event_stored_def from_run_integer_def)

lemma refused_stored_event:
  assumes "run_codec_ok C" and "refuses_oversized C" and "event_stored C r row ev"
    and "\<not> readable_kind (event_kind ev)"
  shows "read_run_event C r row = Inl RunJsonError"
proof -
  have "kind_from_json C (row_kind_json row) = None"
    using assms(2-4) unfolding refuses_oversized_def event_stored_def by blast
  then show ?thesis
    using assms(3) codec_reads(1) [OF assms(1)]
    by (simp add: read_run_event_def event_stored_def from_run_integer_def)
qed

lemma read_stored_events:
  assumes "run_codec_ok C" and "list_all2 (event_stored C r) rows evs"
    and "\<forall>ev \<in> set evs. readable_kind (event_kind ev)"
  shows "list_all2 (\<lambda>row ev. read_run_event C r row = Inr ev) rows evs"
  using assms(2,3) by (induction rows evs rule: list_all2_induct) (auto intro: read_stored_event [OF assms(1)])

lemma refused_stored_events:
  assumes "run_codec_ok C" and "refuses_oversized C" and "list_all2 (event_stored C r) rows evs"
    and "\<exists>ev \<in> set evs. \<not> readable_kind (event_kind ev)"
  shows "try_map (read_run_event C r) rows = Inl RunJsonError"
  using assms(3,4)
proof (induction rows evs rule: list_all2_induct)
  case (Cons row rows ev evs)
  then show ?case
    using read_stored_event [OF assms(1)] refused_stored_event [OF assms(1,2)]
    by (cases "readable_kind (event_kind ev)") auto
qed simp

lemma read_stored_run:
  assumes "run_codec_ok C" and "run_stored C row run" and "readable (run_command run)"
  shows "read_run C (run_id run) row = Inr run"
  using assms codec_reads(2-4) [OF assms(1)] run_status_text.parse_show
  by (cases run) (auto simp: read_run_def run_stored_def split: option.splits)

text \<open>A stored transcript is read back exactly when no command in it has too many attachments.\<close>

lemma load_stored:
  assumes "run_codec_ok C" and "stored C r l tr" and "readable_transcript tr"
  shows "load_transcript_tx C r l = Inr tr"
  using assms read_stored_run [OF assms(1)] read_stored_events [OF assms(1)]
  by (auto simp: load_transcript_iff stored_def stored_in_def readable_transcript_def)

lemma load_refused:
  assumes "run_codec_ok C" and "refuses_oversized C" and "stored C r l tr" and "\<not> readable_transcript tr"
  shows "load_transcript_tx C r l = Inl RunJsonError"
proof -
  obtain row where row: "run_row_of C r l = Some row" "run_id (transcript_run tr) = r"
    "run_stored C row (transcript_run tr)"
    "list_all2 (event_stored C r) (order_by row_sequence (run_events_of C r l)) (transcript_events tr)"
    using assms(3) by (auto simp: stored_def stored_in_def)
  show ?thesis
  proof (cases "readable (run_command (transcript_run tr))")
    case True
    then have "read_run C r row = Inr (transcript_run tr)" using read_stored_run [OF assms(1) row(3)] row(2) by simp
    moreover have "try_map (read_run_event C r) (order_by row_sequence (run_events_of C r l)) = Inl RunJsonError"
      using refused_stored_events [OF assms(1,2) row(4)] True assms(4) by (auto simp: readable_transcript_def)
    ultimately show ?thesis using row(1) by (simp add: load_transcript_tx_def run_events_of_def)
  next
    case False
    then have "command_from_json C (row_command_json row) = None"
      using assms(2) row(3) unfolding refuses_oversized_def run_stored_def by blast
    then show ?thesis using row(1) by (simp add: load_transcript_tx_def read_run_def)
  qed
qed

lemma stored_cong:
  "run_row_of C r l' = run_row_of C r l \<Longrightarrow> run_events_of C r l' = run_events_of C r l \<Longrightarrow>
   stored C r l' = stored C r l"
  by (simp add: stored_def fun_eq_iff)

lemma stored_numbers:
  "list_all2 (event_stored C r) rows evs \<Longrightarrow> map row_sequence rows = map event_sequence evs"
  by (induction rows evs rule: list_all2_induct) (auto simp: event_stored_def)

lemma in_order_sequences:
  "transcript_in_order tr \<Longrightarrow>
   map event_sequence (transcript_events tr) = map int [0..<length (transcript_events tr)]"
  by (simp add: transcript_in_order_def Let_def)

lemma transcript_okD: "transcript_ok tr \<Longrightarrow> transcript_in_order tr"
  by (simp add: transcript_ok_def)

lemma cleanD: "clean tr \<Longrightarrow> transcript_in_order tr"
  by (simp add: clean_def transcript_ok_def)

text \<open>The stored events of a run whose transcript is in order are numbered below their count.\<close>

lemma stored_sequences:
  assumes "stored C r l tr" and "transcript_in_order tr"
  shows "gapless (int (length (transcript_events tr))) (map row_sequence (run_events_of C r l))"
proof -
  let ?n = "length (transcript_events tr)"
  have "map row_sequence (order_by row_sequence (run_events_of C r l)) = map int [0..<?n]"
    using assms stored_numbers in_order_sequences unfolding stored_def stored_in_def by metis
  then have "sort (map row_sequence (run_events_of C r l)) = map int [0..<?n]" by (simp add: map_order_by)
  then show ?thesis using gapless_upt [of ?n] unfolding gapless_def by (metis distinct_sort set_sort)
qed

lemma ledger_run:
  assumes "run_codec_ok C" and "ledger_holds P C l" and "run_row_of C r l = Some row"
  obtains tr where "stored C r l tr" and "P tr"
proof -
  have row: "row \<in> set (runs l)" "row_run_id row = uuid_text C r" using find_SomeD [OF assms(3)] by auto
  then obtain r' tr where "row_run_id row = uuid_text C r'" "stored C r' l tr" "P tr"
    using assms(2) unfolding ledger_holds_def by blast
  then show thesis using that row(2) assms(1) by simp
qed

lemma ledger_row:
  assumes "run_codec_ok C" and "ledger_holds P C l" and "row \<in> set (runs l)"
  obtains r where "row_run_id row = uuid_text C r" and "run_row_of C r l = Some row"
proof -
  obtain r where r: "row_run_id row = uuid_text C r"
    using assms unfolding ledger_holds_def by blast
  have "run_row_of C r l = Some row"
    using assms(2,3) r unfolding ledger_holds_def by (intro find_unique [of row_run_id]) auto
  then show thesis using that r by blast
qed

text \<open>In a ledger whose runs all read back, what is read is what is stored.\<close>

lemma loaded_run:
  assumes "run_codec_ok C" and "ledger_inv C l" and "load_transcript_tx C r l = Inr tr"
  shows "stored C r l tr" and "clean tr"
proof -
  obtain row where "run_row_of C r l = Some row" using assms(3) by (auto simp: load_transcript_iff)
  then obtain tr' where "stored C r l tr'" "clean tr'" using ledger_run [OF assms(1,2)] by metis
  moreover from this have "load_transcript_tx C r l = Inr tr'"
    using load_stored [OF assms(1)] by (simp add: clean_def)
  ultimately show "stored C r l tr" and "clean tr" using assms(3) by simp_all
qed

text \<open>A transaction that touches one run only has to show what becomes of this run.\<close>

definition stores ::
  "('t, 'j) run_codec \<Rightarrow> Uuid \<Rightarrow> 'j RunTranscript \<Rightarrow> 't Ledger \<Rightarrow> 't Ledger \<Rightarrow> bool" where
  "stores C r tr' l l' \<longleftrightarrow> stored C r l' tr' \<and>
     (\<forall>r'. r' \<noteq> r \<longrightarrow> run_row_of C r' l' = run_row_of C r' l \<and> run_events_of C r' l' = run_events_of C r' l) \<and>
     (\<forall>P. ledger_holds P C l \<longrightarrow> P tr' \<longrightarrow> ledger_holds P C l')"

lemma storesI:
  assumes "run_codec_ok C" and keys: "\<And>P. ledger_holds P C l \<Longrightarrow>
      runs_table l' \<and> events_table l' \<and> command_id_index l' \<and> command_id_column l' \<and>
      unique_on row_run_id (runs l') \<and> unique_on row_command_id (runs l') \<and>
      unique_on row_event_id (run_events l') \<and>
      (\<forall>e \<in> set (run_events l'). \<exists>row \<in> set (runs l'). row_event_run e = row_run_id row)"
    and others: "\<And>r'. r' \<noteq> r \<Longrightarrow> run_row_of C r' l' = run_row_of C r' l \<and> run_events_of C r' l' = run_events_of C r' l"
    and rows: "\<And>row. row \<in> set (runs l') \<Longrightarrow> row_run_id row \<noteq> uuid_text C r \<Longrightarrow> row \<in> set (runs l)"
    and self: "stored C r l' tr'"
  shows "stores C r tr' l l'"
proof -
  have "ledger_holds P C l'" if P: "ledger_holds P C l" "P tr'" for P
  proof -
    have "\<exists>r tr. row_run_id row = uuid_text C r \<and> stored C r l' tr \<and> P tr" if row: "row \<in> set (runs l')" for row
    proof (cases "row_run_id row = uuid_text C r")
      case True
      then show ?thesis using self P(2) by blast
    next
      case False
      then have "row \<in> set (runs l)" using rows row by simp
      then obtain r' tr where old: "row_run_id row = uuid_text C r'" "stored C r' l tr" "P tr"
        using P(1) unfolding ledger_holds_def by blast
      moreover from this False have "stored C r' l' = stored C r' l"
        using others [of r'] by (intro stored_cong) auto
      ultimately show ?thesis by metis
    qed
    then show ?thesis using keys [OF P(1)] by (simp add: ledger_holds_def)
  qed
  then show ?thesis using self others by (simp add: stores_def)
qed

subsection \<open>Inserting events\<close>

lemma insert_event_eq_Inr:
  "insert_run_event C r n recorded k e l = Inr l' \<longleftrightarrow>
     (\<exists>t. kind_to_json C k = Some t \<and> in_i64 n \<and>
        (\<forall>x \<in> set (run_events l). row_event_id x \<noteq> uuid_text C e \<and>
           \<not> (row_event_run x = uuid_text C r \<and> row_sequence x = n)) \<and>
        (\<exists>row \<in> set (runs l). row_run_id row = uuid_text C r) \<and>
        l' = l\<lparr>run_events := run_events l @ [new_event_row C r n recorded t e]\<rparr>)"
  by (auto simp: insert_run_event_def run_sql_integer_def result_eq split: if_splits)

lemma new_event_row_fields [simp]:
  "row_event_run (new_event_row C r n recorded t e) = uuid_text C r"
  "row_event_id (new_event_row C r n recorded t e) = uuid_text C e"
  "row_sequence (new_event_row C r n recorded t e) = n"
  by (simp_all add: new_event_row_def)

text \<open>The events a batch adds, numbered from \<open>n\<close>.\<close>

definition batch_events ::
  "Uuid \<Rightarrow> u64 \<Rightarrow> i64 \<Rightarrow> (nat \<Rightarrow> Uuid) \<Rightarrow> (nat \<times> 'j RunEventKind) list \<Rightarrow> 'j RunEvent list" where
  "batch_events r n recorded ids ks = map (\<lambda>(i, k). \<lparr>run_event_id = ids i, event_run = r,
     event_sequence = n + int i, event_recorded_at_ms = recorded, event_kind = k\<rparr>) ks"

lemma event_stored_new:
  "kind_to_json C k = Some t \<Longrightarrow> 0 \<le> n \<Longrightarrow> event_stored C r (new_event_row C r n recorded t e)
     \<lparr>run_event_id = e, event_run = r, event_sequence = n, event_recorded_at_ms = recorded, event_kind = k\<rparr>"
  by (simp add: event_stored_def new_event_row_def)

lemma insert_events_fold:
  assumes "0 \<le> n"
    and "try_fold (\<lambda>(i, k). insert_run_event C r (n + int i) recorded k (ids i)) ks l = Inr l'"
    and "unique_on row_event_id (run_events l)"
  shows "\<exists>rows. l' = l\<lparr>run_events := run_events l @ rows\<rparr> \<and>
    list_all2 (event_stored C r) rows (batch_events r n recorded ids ks) \<and>
    (\<forall>row \<in> set rows. row_event_run row = uuid_text C r) \<and>
    unique_on row_event_id (run_events l @ rows)"
  using assms(2-)
proof (induction ks arbitrary: l)
  case Nil
  then show ?case by (auto simp: batch_events_def)
next
  case (Cons ik ks)
  obtain i k where ik: "ik = (i, k)" by force
  obtain l1 where l1: "insert_run_event C r (n + int i) recorded k (ids i) l = Inr l1"
    and tail: "try_fold (\<lambda>(i, k). insert_run_event C r (n + int i) recorded k (ids i)) ks l1 = Inr l'"
    using Cons.prems(1) by (auto simp: ik result_eq)
  then obtain t where t: "kind_to_json C k = Some t"
    and l1_eq: "l1 = l\<lparr>run_events := run_events l @ [new_event_row C r (n + int i) recorded t (ids i)]\<rparr>"
    and fresh: "\<forall>x \<in> set (run_events l). row_event_id x \<noteq> uuid_text C (ids i)"
    by (auto simp: insert_event_eq_Inr)
  have "unique_on row_event_id (run_events l1)"
    using Cons.prems(2) fresh by (auto simp: l1_eq unique_on_def)
  then obtain rows where rows: "l' = l1\<lparr>run_events := run_events l1 @ rows\<rparr>"
    "list_all2 (event_stored C r) rows (batch_events r n recorded ids ks)"
    "\<forall>row \<in> set rows. row_event_run row = uuid_text C r" "unique_on row_event_id (run_events l1 @ rows)"
    using Cons.IH [OF tail] by metis
  then show ?case
    using event_stored_new [OF t, of "n + int i"] assms(1)
    by (intro exI [of _ "new_event_row C r (n + int i) recorded t (ids i) # rows"])
      (simp add: l1_eq ik batch_events_def)
qed

lemma batch_events_enumerate:
  "map event_kind (batch_events r n recorded ids (enumerate 0 ks)) = ks"
  "map event_sequence (batch_events r n recorded ids (enumerate 0 ks)) = map (\<lambda>i. n + int i) [0..<length ks]"
  "list_all (\<lambda>e. event_run e = r) (batch_events r n recorded ids (enumerate 0 ks))"
proof -
  have "map event_kind (batch_events r n recorded ids (enumerate 0 ks)) = map snd (enumerate 0 ks)"
    unfolding batch_events_def map_map by (rule map_cong) auto
  then show "map event_kind (batch_events r n recorded ids (enumerate 0 ks)) = ks" by simp
  have "map event_sequence (batch_events r n recorded ids (enumerate 0 ks)) =
    map (\<lambda>i. n + int i) (map fst (enumerate 0 ks))"
    unfolding batch_events_def map_map by (rule map_cong) auto
  then show "map event_sequence (batch_events r n recorded ids (enumerate 0 ks)) =
    map (\<lambda>i. n + int i) [0..<length ks]" by simp
  show "list_all (\<lambda>e. event_run e = r) (batch_events r n recorded ids (enumerate 0 ks))"
    by (auto simp: batch_events_def list_all_iff)
qed

text \<open>A run's stored events after rows were added behind its last event.\<close>

lemma run_events_of_append:
  assumes stored: "stored C r l tr" and ok: "transcript_in_order tr"
    and rows: "list_all2 (event_stored C r) rows evs" "\<forall>row \<in> set rows. row_event_run row = uuid_text C r"
    and numbers: "map event_sequence evs = map (\<lambda>i. int (length (transcript_events tr)) + int i) [0..<length evs]"
    and l': "run_events l' = run_events l @ rows"
  shows "list_all2 (event_stored C r)
    (order_by row_sequence (run_events_of C r l')) (transcript_events tr @ evs)"
proof -
  have seqs: "map row_sequence rows = map (\<lambda>i. int (length (transcript_events tr)) + int i) [0..<length evs]"
    using stored_numbers [OF rows(1)] numbers by simp
  have "set (map row_sequence (run_events_of C r l)) = {0..<int (length (transcript_events tr))}"
    using stored_sequences [OF stored ok] by (simp only: gapless_def)
  then have old: "\<And>x. x \<in> set (run_events_of C r l) \<Longrightarrow> row_sequence x < int (length (transcript_events tr))"
    by auto
  have new: "\<And>y. y \<in> set rows \<Longrightarrow> int (length (transcript_events tr)) \<le> row_sequence y"
  proof -
    fix y assume "y \<in> set rows"
    then have "row_sequence y \<in> set (map row_sequence rows)" by simp
    then show "int (length (transcript_events tr)) \<le> row_sequence y" unfolding seqs by auto
  qed
  have "run_events_of C r l' = run_events_of C r l @ rows" using rows(2) by (simp add: run_events_of_def l' filter_True)
  moreover have "order_by row_sequence (run_events_of C r l @ rows) = order_by row_sequence (run_events_of C r l) @ rows"
  proof (rule order_by_append)
    show "sorted (map row_sequence rows)" unfolding seqs by (simp add: sorted_iff_nth_mono)
    show "row_sequence x < row_sequence y" if "x \<in> set (run_events_of C r l)" "y \<in> set rows" for x y
      using old [OF that(1)] new [OF that(2)] by simp
  qed
  ultimately have "order_by row_sequence (run_events_of C r l') = order_by row_sequence (run_events_of C r l) @ rows"
    by simp
  then show ?thesis
    using stored rows(1) by (auto simp: stored_def stored_in_def intro: list_all2_appendI)
qed

subsection \<open>Transcripts grow\<close>

lemma sequences_append:
  assumes "map event_sequence xs = map int [0..<length xs]"
    and "map event_sequence ys = map (\<lambda>i. int (length xs) + int i) [0..<length ys]"
  shows "map event_sequence (xs @ ys) = map int [0..<length (xs @ ys)]"
proof -
  have "map int [0..<a + b] = map int [0..<a] @ map (\<lambda>i. int a + int i) [0..<b]" for a b
    by (induction b) simp_all
  then show ?thesis using assms by simp
qed

lemma in_order_append:
  assumes "transcript_in_order tr" and "run_terminal (transcript_run tr) = None"
    and "map event_sequence evs = map (\<lambda>i. int (length (transcript_events tr)) + int i) [0..<length evs]"
  shows "transcript_in_order (tr\<lparr>transcript_events := transcript_events tr @ evs\<rparr>)"
proof -
  have "map event_sequence (transcript_events tr @ evs) = map int [0..<length (transcript_events tr @ evs)]"
    using assms(3) in_order_sequences [OF assms(1)] by (intro sequences_append) auto
  then show ?thesis
    using assms(1,2) by (auto simp: transcript_in_order_def Let_def closing_kinds_def)
qed

definition finished_run :: "RunRecord \<Rightarrow> TerminalState \<Rightarrow> i64 \<Rightarrow> RunRecord" where
  "finished_run run t finished =
     run\<lparr>run_status := terminal_status t, run_terminal := Some t, run_finished_at_ms := Some finished\<rparr>"

lemma finished_run_fields [simp]:
  "run_id (finished_run run t n) = run_id run"
  "run_command (finished_run run t n) = run_command run"
  "run_agent (finished_run run t n) = run_agent run"
  "run_terminal (finished_run run t n) = Some t"
  "run_created_at_ms (finished_run run t n) = run_created_at_ms run"
  by (simp_all add: finished_run_def)

lemma in_order_finish:
  assumes "transcript_in_order tr" and "run_terminal (transcript_run tr) = None"
    and "event_kind ev = RunTerminated t" and "event_sequence ev = int (length (transcript_events tr))"
  shows "transcript_in_order \<lparr>transcript_run = finished_run (transcript_run tr) t finished,
    transcript_events = transcript_events tr @ [ev]\<rparr>"
proof -
  have "map event_sequence (transcript_events tr @ [ev]) = map int [0..<length (transcript_events tr @ [ev])]"
    using assms(4) in_order_sequences [OF assms(1)] by (intro sequences_append) auto
  then show ?thesis
    using assms(1-3) by (auto simp: transcript_in_order_def Let_def closing_kinds_def finished_run_def)
qed

lemma clean_append:
  assumes "clean tr" and "run_terminal (transcript_run tr) = None" and "list_all progress (map event_kind evs)"
    and "list_all (\<lambda>e. event_run e = run_id (transcript_run tr)) evs"
    and "transcript_in_order (tr\<lparr>transcript_events := transcript_events tr @ evs\<rparr>)"
  shows "clean (tr\<lparr>transcript_events := transcript_events tr @ evs\<rparr>)"
proof -
  have "filter is_terminated (map event_kind evs) = []" and "\<forall>ev \<in> set evs. readable_kind (event_kind ev)"
    using assms(3) by (auto simp: list_all_iff filter_empty_conv dest: progress_kind)
  then show ?thesis
    using assms by (auto simp: clean_def transcript_ok_def readable_transcript_def)
qed

lemma clean_finish:
  assumes "clean tr" and "run_terminal (transcript_run tr) = None" and "event_kind ev = RunTerminated t"
    and "event_run ev = run_id (transcript_run tr)"
    and "transcript_in_order \<lparr>transcript_run = finished_run (transcript_run tr) t finished,
      transcript_events = transcript_events tr @ [ev]\<rparr>"
  shows "clean \<lparr>transcript_run = finished_run (transcript_run tr) t finished,
    transcript_events = transcript_events tr @ [ev]\<rparr>"
  using assms by (auto simp: clean_def transcript_ok_def readable_transcript_def closing_kinds_def)

subsection \<open>The transactions\<close>

lemma find_update_key:
  assumes "\<And>r. k (f r) = k r"
  shows "find (\<lambda>r. k r = x) (update_where (\<lambda>r. k r = y \<and> Q r) f rows) =
    map_option (\<lambda>r. if x = y \<and> Q r then f r else r) (find (\<lambda>r. k r = x) rows)"
  using assms by (induction rows) (auto simp: update_where_def)

lemma load_open_cursor_run:
  assumes "run_codec_ok C" and "ledger_holds P C l" and "load_open_cursor C r l = Inr (status, n)"
  obtains row tr where "run_row_of C r l = Some row" and "stored C r l tr" and "P tr"
    and "row_status row = run_status_name status" and "status = run_status (transcript_run tr)"
    and "n = int (length (transcript_events tr))" and "run_id (transcript_run tr) = r"
    and "stored_in C r row (run_events_of C r l) tr"
proof -
  obtain row where row: "run_row_of C r l = Some row" "parse_run_status (row_status row) = Inr status"
    "n = row_next_sequence row"
    using assms(3) by (auto simp: load_open_cursor_def from_run_integer_def result_eq split: if_splits)
  obtain tr where tr: "stored C r l tr" "P tr" using ledger_run [OF assms(1,2) row(1)] .
  then have "stored_in C r row (run_events_of C r l) tr" using row(1) by (simp add: stored_def)
  then show thesis
    using that row tr run_status_text.parse_iff run_status_text.show_inj
    by (auto simp: stored_in_def run_stored_def)
qed

lemma stores_update:
  assumes codec: "run_codec_ok C" and row: "run_row_of C r l = Some row"
    and l': "l' = l\<lparr>run_events := run_events l @ rows,
      runs := update_where (\<lambda>row. row_run_id row = uuid_text C r \<and> Q row) f (runs l)\<rparr>"
    and f: "Q row" "\<And>row. row_run_id (f row) = row_run_id row" "\<And>row. row_command_id (f row) = row_command_id row"
    and rows: "\<forall>e \<in> set rows. row_event_run e = uuid_text C r" "unique_on row_event_id (run_events l @ rows)"
    and new: "stored_in C r (f row) (run_events_of C r l') tr'"
  shows "stores C r tr' l l'"
proof (rule storesI [OF codec])
  have find: "run_row_of C r' l' = map_option (\<lambda>row. if r' = r \<and> Q row then f row else row) (run_row_of C r' l)" for r'
    using find_update_key [of row_run_id f "uuid_text C r'" "uuid_text C r" Q "runs l"] f(2) codec
    by (simp add: l')
  show "stored C r l' tr'" using new row f(1) by (simp add: stored_def find)
  show "run_row_of C r' l' = run_row_of C r' l \<and> run_events_of C r' l' = run_events_of C r' l" if "r' \<noteq> r" for r'
  proof -
    have "filter (\<lambda>e. row_event_run e = uuid_text C r') rows = []"
      using rows(1) that codec by (intro filter_False) auto
    then show ?thesis using that by (simp add: find option.map_ident) (simp add: run_events_of_def l')
  qed
  have ids: "map row_run_id (runs l') = map row_run_id (runs l)" "map row_command_id (runs l') = map row_command_id (runs l)"
    using f(2,3) by (simp_all add: l' map_update_where)
  have uuid: "uuid_text C r \<in> set (map row_run_id (runs l))"
    using find_SomeD [OF row] by force
  show "runs_table l' \<and> events_table l' \<and> command_id_index l' \<and> command_id_column l' \<and>
      unique_on row_run_id (runs l') \<and> unique_on row_command_id (runs l') \<and>
      unique_on row_event_id (run_events l') \<and>
      (\<forall>e \<in> set (run_events l'). \<exists>row \<in> set (runs l'). row_event_run e = row_run_id row)"
    if "ledger_holds P C l" for P
  proof -
    have "row_event_run e \<in> set (map row_run_id (runs l))" if e: "e \<in> set (run_events l')" for e
      using e \<open>ledger_holds P C l\<close> rows(1) uuid unfolding l' ledger_holds_def by force
    then have "\<forall>e \<in> set (run_events l'). row_event_run e \<in> set (map row_run_id (runs l'))"
      unfolding ids(1) by blast
    then show ?thesis using that ids rows(2) by (auto simp: l' ledger_holds_def unique_on_def)
  qed
  show "row' \<in> set (runs l)" if "row' \<in> set (runs l')" "row_run_id row' \<noteq> uuid_text C r" for row'
    using that by (auto simp: l' update_where_mem f(2))
qed

lemma append_stores:
  assumes codec: "run_codec_ok C" and inv: "ledger_holds P C l" and order: "\<And>tr. P tr \<Longrightarrow> transcript_in_order tr"
    and ks: "ks \<noteq> []" and run: "append_events_tx C r ks clock ids l = Inr (u, l')"
  obtains tr evs where "stored C r l tr" and "P tr" and "run_terminal (transcript_run tr) = None"
    and "map event_kind evs = ks" and "list_all (\<lambda>e. event_run e = run_id (transcript_run tr)) evs"
    and "transcript_in_order (tr\<lparr>transcript_events := transcript_events tr @ evs\<rparr>)"
    and "stores C r (tr\<lparr>transcript_events := transcript_events tr @ evs\<rparr>) l l'"
proof -
  obtain n recorded l1 where cursor: "load_open_cursor C r l = Inr (StatusOpen, n)"
    and fold: "try_fold (\<lambda>(i, k). insert_run_event C r (n + int i) recorded k (ids i)) (enumerate 0 ks) l = Inr l1"
    and range: "in_i64 (n + int (length ks))"
    and l': "l' = l1\<lparr>runs := update_where (\<lambda>row. row_run_id row = uuid_text C r)
         (row_next_sequence_update (\<lambda>_. n + int (length ks))) (runs l1)\<rparr>"
    using run ks by (auto simp: append_events_tx_def run_sql_integer_def result_eq split: prod.splits if_splits)
  obtain row tr where row: "run_row_of C r l = Some row" and tr: "stored C r l tr" "P tr"
      "run_id (transcript_run tr) = r" "run_status (transcript_run tr) = StatusOpen"
    and n: "n = int (length (transcript_events tr))" and old: "stored_in C r row (run_events_of C r l) tr"
    by (rule load_open_cursor_run [OF codec inv cursor]) auto
  define evs where "evs = batch_events r n recorded ids (enumerate 0 ks)"
  note evs = batch_events_enumerate [of r n recorded ids ks, folded evs_def]
  have length_evs: "length evs = length ks" using evs(1) by (metis length_map)
  obtain rows where rows: "l1 = l\<lparr>run_events := run_events l @ rows\<rparr>"
    "list_all2 (event_stored C r) rows evs"
    "\<forall>row \<in> set rows. row_event_run row = uuid_text C r" "unique_on row_event_id (run_events l @ rows)"
    using insert_events_fold [OF _ fold] inv n unfolding evs_def ledger_holds_def by auto
  have closed: "run_terminal (transcript_run tr) = None"
    using tr(4) order [OF tr(2)] by (auto simp: transcript_in_order_def Let_def terminal_status_def
        split: option.splits TerminalState.splits)
  let ?tr = "tr\<lparr>transcript_events := transcript_events tr @ evs\<rparr>"
  have "stores C r ?tr l l'"
  proof (rule stores_update [OF codec row, where rows = rows and Q = "\<lambda>_. True"])
    show "stored_in C r (row\<lparr>row_next_sequence := n + int (length ks)\<rparr>) (run_events_of C r l') ?tr"
      using run_events_of_append [OF tr(1) order [OF tr(2)] rows(2,3), of l'] evs(2) old n length_evs range
      by (simp add: l' rows(1) stored_in_def run_stored_def split: option.splits)
  qed (use rows in \<open>auto simp: l'\<close>)
  moreover have "transcript_in_order ?tr"
    using evs n length_evs by (intro in_order_append [OF order [OF tr(2)] closed]) simp
  ultimately show thesis using that tr closed evs by metis
qed

lemma finish_stores:
  fixes C :: "('t, 'j) run_codec"
  assumes codec: "run_codec_ok C" and inv: "ledger_holds P C l" and order: "\<And>tr. P tr \<Longrightarrow> transcript_in_order tr"
    and run: "finish_run_tx C r t clock e l = Inr (u, l')"
  obtains tr ev finished where "stored C r l tr" and "P tr" and "run_terminal (transcript_run tr) = None"
    and "event_kind ev = RunTerminated t" and "event_run ev = run_id (transcript_run tr)"
    and "transcript_in_order \<lparr>transcript_run = finished_run (transcript_run tr) t finished,
      transcript_events = transcript_events tr @ [ev]\<rparr>"
    and "stores C r \<lparr>transcript_run = finished_run (transcript_run tr) t finished,
      transcript_events = transcript_events tr @ [ev]\<rparr> l l'"
proof -
  let ?open = "\<lambda>row. row_run_id row = uuid_text C r \<and> row_status row = ''open''"
  let ?f = "\<lambda>n finished tj row. row\<lparr>row_status := run_status_name (terminal_status t),
    row_terminal_json := Some tj, row_next_sequence := n + 1, row_finished_at_ms := Some finished\<rparr>"
  obtain n finished tj where cursor: "load_open_cursor C r l = Inr (StatusOpen, n)"
    and tj: "terminal_to_json C t = Some tj" and range: "in_i64 (n + 1)"
    and ins: "insert_run_event C r n finished (RunTerminated t) e
      (l\<lparr>runs := update_where ?open (?f n finished tj) (runs l)\<rparr>) = Inr l'"
    using run by (auto simp: finish_run_tx_def run_sql_integer_def Let_def result_eq split: prod.splits if_splits)
  obtain row tr where row: "run_row_of C r l = Some row" "row_status row = ''open''"
    and tr: "stored C r l tr" "P tr" "run_id (transcript_run tr) = r" "run_status (transcript_run tr) = StatusOpen"
    and n: "n = int (length (transcript_events tr))" and old: "stored_in C r row (run_events_of C r l) tr"
    by (rule load_open_cursor_run [OF codec inv cursor]) (auto simp: run_status_name_def)
  obtain kj where kj: "kind_to_json C (RunTerminated t) = Some kj"
    and fresh: "\<forall>x \<in> set (run_events l). row_event_id x \<noteq> uuid_text C e"
    and l': "l' = l\<lparr>run_events := run_events l @ [new_event_row C r n finished kj e],
      runs := update_where ?open (?f n finished tj) (runs l)\<rparr>"
    using ins by (auto simp: insert_event_eq_Inr)
  define ev :: "'j RunEvent" where "ev = \<lparr>run_event_id = e, event_run = r, event_sequence = n,
    event_recorded_at_ms = finished, event_kind = RunTerminated t\<rparr>"
  have read: "list_all2 (event_stored C r) [new_event_row C r n finished kj e] [ev]"
    using event_stored_new [OF kj] n by (simp add: ev_def)
  have closed: "run_terminal (transcript_run tr) = None"
    using tr(4) order [OF tr(2)] by (auto simp: transcript_in_order_def Let_def terminal_status_def
        split: option.splits TerminalState.splits)
  let ?tr = "\<lparr>transcript_run = finished_run (transcript_run tr) t finished,
      transcript_events = transcript_events tr @ [ev]\<rparr>"
  have "stores C r ?tr l l'"
  proof (rule stores_update [OF codec row(1) l'])
    show "unique_on row_event_id (run_events l @ [new_event_row C r n finished kj e])"
      using inv fresh by (auto simp: ledger_holds_def unique_on_def)
    show "stored_in C r (?f n finished tj row) (run_events_of C r l') ?tr"
      using run_events_of_append [OF tr(1) order [OF tr(2)] read, of l'] old n range tj
      by (simp add: l' ev_def stored_in_def run_stored_def finished_run_def)
  qed (use row(2) in auto)
  moreover have "transcript_in_order ?tr"
    using n by (intro in_order_finish [OF order [OF tr(2)] closed]) (simp_all add: ev_def)
  ultimately show thesis using that [OF tr(1,2) closed, of ev finished] tr(3) by (simp add: ev_def)
qed

subsection \<open>Admission\<close>

definition started_transcript ::
  "Uuid \<Rightarrow> CommandEnvelope \<Rightarrow> ResolvedAgent \<Rightarrow> i64 \<Rightarrow> Uuid \<Rightarrow> 'j RunTranscript" where
  "started_transcript r c a created e =
     \<lparr>transcript_run = \<lparr>run_id = r, run_command = c, run_agent = a, run_status = StatusOpen,
        run_terminal = None, run_created_at_ms = created, run_finished_at_ms = None\<rparr>,
      transcript_events = [\<lparr>run_event_id = e, event_run = r, event_sequence = 0,
        event_recorded_at_ms = created, event_kind = RunStarted c a\<rparr>]\<rparr>"

lemma find_append:
  "find P (xs @ ys) = (case find P xs of None \<Rightarrow> find P ys | Some x \<Rightarrow> Some x)"
  by (induction xs) simp_all

lemma started_in_order: "transcript_in_order (started_transcript r c a created e)"
  and started_clean: "readable c \<Longrightarrow> clean (started_transcript r c a created e)"
  by (simp_all add: clean_def transcript_ok_def transcript_in_order_def Let_def started_transcript_def
      closing_kinds_def readable_transcript_def)

lemma admit_stores:
  fixes C :: "('t, 'j) run_codec"
  assumes codec: "run_codec_ok C" and inv: "ledger_holds P C l"
    and run: "admit_run_tx C c a clock new_run e l = Inr (Admitted r, l')"
  obtains created where "run_row_of C r l = None"
    and "\<forall>row \<in> set (runs l). row_command_id row \<noteq> Some (uuid_text C (envelope_id c))"
    and "stores C r (started_transcript r c a created e) l l'"
proof -
  obtain cj aj created kj where cj: "command_to_json C c = Some cj" and aj: "agent_to_json C a = Some aj"
    and none: "find (\<lambda>row. row_command_id row = Some (uuid_text C (envelope_id c))) (runs l) = None"
    and fresh: "\<forall>row \<in> set (runs l). row_run_id row \<noteq> uuid_text C r"
    and kj: "kind_to_json C (RunStarted c a) = Some kj"
    and fresh_event: "\<forall>x \<in> set (run_events l). row_event_id x \<noteq> uuid_text C e"
    and l': "l' = l\<lparr>runs := runs l @ [new_run_row C r (envelope_id c) cj aj created],
       run_events := run_events l @ [new_event_row C r 0 created kj e]\<rparr>"
    using run by (auto simp: admit_run_tx_def insert_event_eq_Inr result_eq split: option.splits if_splits)
  let ?row = "new_run_row C r (envelope_id c) cj aj created"
  have missing: "run_row_of C r l = None" using fresh by (simp add: find_None_iff_ball)
  have find: "run_row_of C r' l' = (if r' = r then Some ?row else run_row_of C r' l)" for r'
    using missing codec by (cases "run_row_of C r' l")
      (auto simp: l' find_append new_run_row_def split: option.splits)
  have "run_events_of C r l = []"
    using inv fresh unfolding run_events_of_def ledger_holds_def by (intro filter_False) fastforce
  then have "run_events_of C r l' = [new_event_row C r 0 created kj e]" by (simp add: run_events_of_def l')
  then have self: "stored C r l' (started_transcript r c a created e)"
    using cj aj kj
    by (simp add: stored_def stored_in_def find run_stored_def event_stored_def started_transcript_def
        new_run_row_def new_event_row_def order_by_def in_i64_def run_status_name_def)
  have "stores C r (started_transcript r c a created e) l l'"
  proof (rule storesI [OF codec _ _ _ self])
    show "run_row_of C r' l' = run_row_of C r' l \<and> run_events_of C r' l' = run_events_of C r' l"
      if "r' \<noteq> r" for r'
      using that codec by (simp add: find) (simp add: run_events_of_def l')
  qed (use none fresh fresh_event in
      \<open>auto simp: l' new_run_row_def ledger_holds_def unique_on_def find_None_iff_ball\<close>)
  then show thesis using that none missing by (simp add: find_None_iff_ball)
qed

text \<open>A command whose identity is already in the ledger changes nothing.\<close>

lemma admit_unchanged:
  assumes "admit_run_tx C c a clock new_run e l = Inr (adm, l')" and "\<And>r. adm \<noteq> Admitted r"
  shows "l' = l"
  using assms(1) assms(2) [of new_run]
  by (auto simp: admit_run_tx_def result_eq split: option.splits if_splits)

subsection \<open>A ledger whose runs all read back\<close>

text \<open>What a transaction on run \<open>r\<close> may do: its transcript becomes \<open>tr'\<close>, nothing else changes.\<close>

definition replaces ::
  "('t, 'j) run_codec \<Rightarrow> Uuid \<Rightarrow> 'j RunTranscript \<Rightarrow> 't Ledger \<Rightarrow> 't Ledger \<Rightarrow> bool" where
  "replaces C r tr' l l' \<longleftrightarrow> ledger_inv C l' \<and> load_transcript_tx C r l' = Inr tr' \<and> transcript_ok tr' \<and>
     (\<forall>r'. r' \<noteq> r \<longrightarrow> load_transcript_tx C r' l' = load_transcript_tx C r' l)"

lemma replacesI:
  assumes "run_codec_ok C" and "ledger_inv C l" and "stores C r tr' l l'" and "clean tr'"
  shows "replaces C r tr' l l'"
proof -
  have "load_transcript_tx C r' l' = load_transcript_tx C r' l" if "r' \<noteq> r" for r'
    using assms(3) that unfolding stores_def by (intro load_transcript_cong) auto
  moreover have "load_transcript_tx C r l' = Inr tr'"
    using load_stored [OF assms(1)] assms(3,4) by (simp add: stores_def clean_def)
  ultimately show ?thesis using assms(2-4) by (simp add: replaces_def stores_def clean_def)
qed

lemma append_events_effect:
  assumes codec: "run_codec_ok C" and inv: "ledger_inv C l" and kinds: "list_all progress ks"
    and ks: "ks \<noteq> []" and run: "append_events_tx C r ks clock ids l = Inr (u, l')"
  obtains tr evs where "load_transcript_tx C r l = Inr tr" and "transcript_ok tr"
    and "run_terminal (transcript_run tr) = None" and "map event_kind evs = ks"
    and "replaces C r (tr\<lparr>transcript_events := transcript_events tr @ evs\<rparr>) l l'"
proof -
  obtain tr evs where tr: "stored C r l tr" "clean tr" "run_terminal (transcript_run tr) = None"
    "map event_kind evs = ks" "list_all (\<lambda>e. event_run e = run_id (transcript_run tr)) evs"
    "transcript_in_order (tr\<lparr>transcript_events := transcript_events tr @ evs\<rparr>)"
    "stores C r (tr\<lparr>transcript_events := transcript_events tr @ evs\<rparr>) l l'"
    using append_stores [OF codec inv cleanD ks run] by metis
  have "clean (tr\<lparr>transcript_events := transcript_events tr @ evs\<rparr>)"
    by (rule clean_append [OF tr(2,3) _ tr(5,6)]) (simp add: tr(4) kinds)
  from replacesI [OF codec inv tr(7) this] tr that load_stored [OF codec tr(1)] show thesis
    by (auto simp: clean_def)
qed

lemma finish_run_effect:
  assumes codec: "run_codec_ok C" and inv: "ledger_inv C l"
    and run: "finish_run_tx C r t clock e l = Inr (u, l')"
  obtains tr ev finished where "load_transcript_tx C r l = Inr tr" and "transcript_ok tr"
    and "run_terminal (transcript_run tr) = None" and "event_kind ev = RunTerminated t"
    and "replaces C r \<lparr>transcript_run = finished_run (transcript_run tr) t finished,
      transcript_events = transcript_events tr @ [ev]\<rparr> l l'"
proof -
  obtain tr ev finished where tr: "stored C r l tr" "clean tr" "run_terminal (transcript_run tr) = None"
    "event_kind ev = RunTerminated t" "event_run ev = run_id (transcript_run tr)"
    "transcript_in_order \<lparr>transcript_run = finished_run (transcript_run tr) t finished,
      transcript_events = transcript_events tr @ [ev]\<rparr>"
    "stores C r \<lparr>transcript_run = finished_run (transcript_run tr) t finished,
      transcript_events = transcript_events tr @ [ev]\<rparr> l l'"
    using finish_stores [OF codec inv cleanD run] by metis
  from replacesI [OF codec inv tr(7) clean_finish [OF tr(2-6)]] tr that load_stored [OF codec tr(1)]
  show thesis by (auto simp: clean_def)
qed

lemma admit_run_admitted:
  assumes codec: "run_codec_ok C" and inv: "ledger_inv C l" and readable: "readable c"
    and run: "admit_run_tx C c a clock new_run e l = Inr (Admitted r, l')"
  obtains created where "load_transcript_tx C r l = Inl (RunNotFound r)"
    and "\<And>row. row \<in> set (runs l) \<Longrightarrow> row_command_id row \<noteq> Some (uuid_text C (envelope_id c))"
    and "replaces C r (started_transcript r c a created e) l l'"
proof -
  obtain created where new: "run_row_of C r l = None"
    "\<forall>row \<in> set (runs l). row_command_id row \<noteq> Some (uuid_text C (envelope_id c))"
    "stores C r (started_transcript r c a created e) l l'"
    by (rule admit_stores [OF codec inv run])
  from replacesI [OF codec inv new(3) started_clean [OF readable]] show thesis
    using that new(1,2) by (simp add: load_transcript_tx_def)
qed

text \<open>A command whose identity is already in the ledger is the stored run's own command or a
  different one.\<close>

lemma loaded_row:
  assumes "run_codec_ok C" and "ledger_inv C l" and "load_transcript_tx C r l = Inr tr"
  obtains row where "run_row_of C r l = Some row" and "row \<in> set (runs l)"
    and "run_stored C row (transcript_run tr)" and "run_id (transcript_run tr) = r"
    and "row_next_sequence row = int (length (transcript_events tr))"
proof -
  obtain row where "run_row_of C r l = Some row" "stored_in C r row (run_events_of C r l) tr"
    using loaded_run(1) [OF assms] by (auto simp: stored_def)
  then show thesis using that find_SomeD by (force simp: stored_in_def)
qed

lemma admit_run_known:
  assumes codec: "run_codec_ok C" and inv: "ledger_inv C l" and readable: "readable c"
    and run: "admit_run_tx C c a clock new_run e l = Inr (adm, l')" and known: "\<And>r. adm \<noteq> Admitted r"
  obtains r tr where "l' = l" and "load_transcript_tx C r l = Inr tr"
    and "envelope_id (run_command (transcript_run tr)) = envelope_id c"
    and "adm = (if run_command (transcript_run tr) = c \<and> run_agent (transcript_run tr) = a
      then Existing r else Conflict r)"
proof -
  obtain cj aj row r where cj: "command_to_json C c = Some cj" and aj: "agent_to_json C a = Some aj"
    and row: "find (\<lambda>row. row_command_id row = Some (uuid_text C (envelope_id c))) (runs l) = Some row"
    and r: "uuid_parse C (row_run_id row) = Some r"
    and adm: "adm = (if row_command_json row = cj \<and> row_agent_json row = aj then Existing r else Conflict r)"
    using run known [of new_run] by (auto simp: admit_run_tx_def result_eq split: option.splits if_splits)
  have "row \<in> set (runs l)" and id: "row_command_id row = Some (uuid_text C (envelope_id c))"
    using find_SomeD [OF row] by auto
  then obtain r' where "row_run_id row = uuid_text C r'" "run_row_of C r' l = Some row"
    using ledger_row [OF codec inv] by metis
  then have found: "run_row_of C r l = Some row" using r codec_reads(1) [OF codec] by simp
  then obtain tr where tr: "stored C r l tr" "clean tr" using ledger_run [OF codec inv] by metis
  then have run: "run_stored C row (transcript_run tr)" and "readable (run_command (transcript_run tr))"
    using found by (auto simp: stored_def stored_in_def clean_def readable_transcript_def)
  then have "envelope_id (run_command (transcript_run tr)) = envelope_id c"
    using id codec by (simp add: run_stored_def)
  moreover have "row_command_json row = cj \<longleftrightarrow> run_command (transcript_run tr) = c"
    using run cj codec_reads(2) [OF codec] readable \<open>readable (run_command (transcript_run tr))\<close>
    unfolding run_stored_def by (metis option.inject)
  moreover have "row_agent_json row = aj \<longleftrightarrow> run_agent (transcript_run tr) = a"
    using run aj codec_reads(3) [OF codec] unfolding run_stored_def by (metis option.inject)
  ultimately show thesis
    using that admit_unchanged [OF assms(4) known] load_stored [OF codec tr(1)] tr(2) adm
    by (simp add: clean_def)
qed

lemma terminal_refused:
  assumes "run_codec_ok C" and "ledger_inv C l" and "load_transcript_tx C r l = Inr tr"
    and "run_terminal (transcript_run tr) \<noteq> None"
  shows "\<exists>status n. load_open_cursor C r l = Inr (status, n) \<and> status \<noteq> StatusOpen"
proof -
  obtain row where row: "run_row_of C r l = Some row" "run_stored C row (transcript_run tr)"
    "row_next_sequence row = int (length (transcript_events tr))"
    using loaded_row [OF assms(1-3)] by metis
  have "run_status (transcript_run tr) \<noteq> StatusOpen"
    using cleanD [OF loaded_run(2) [OF assms(1-3)]] assms(4)
    by (auto simp: transcript_in_order_def Let_def terminal_status_def split: TerminalState.splits)
  then show ?thesis
    using row run_status_text.parse_show
    by (simp add: load_open_cursor_def from_run_integer_def run_stored_def)
qed

subsection \<open>Histories\<close>

text \<open>
  One step of a ledger in use: any transaction, with any command and events, and whatever the
  clock and the UUID generator give it.
\<close>

inductive ledger_step :: "('t, 'j) run_codec \<Rightarrow> 't Ledger \<Rightarrow> 't Ledger \<Rightarrow> bool" for C where
  any_admit: "admit_run_tx C c a clock r e l = Inr (adm, l') \<Longrightarrow> ledger_step C l l'"
| any_append: "append_events_tx C r ks clock ids l = Inr (u, l') \<Longrightarrow> ledger_step C l l'"
| any_finish: "finish_run_tx C r t clock e l = Inr (u, l') \<Longrightarrow> ledger_step C l l'"

text \<open>
  One step of a ledger that admits commands of at most ten attachments, as \<open>attachment::bounded\<close>
  lets them in from the wire, and to which only a run's progress is appended, neither a start nor
  an end, as the engine does.
\<close>

inductive run_step :: "('t, 'j) run_codec \<Rightarrow> 't Ledger \<Rightarrow> 't Ledger \<Rightarrow> bool" for C where
  step_admit: "readable c \<Longrightarrow> admit_run_tx C c a clock r e l = Inr (adm, l') \<Longrightarrow> run_step C l l'"
| step_append: "list_all progress ks \<Longrightarrow> append_events_tx C r ks clock ids l = Inr (u, l') \<Longrightarrow> run_step C l l'"
| step_finish: "finish_run_tx C r t clock e l = Inr (u, l') \<Longrightarrow> run_step C l l'"

definition empty_ledger :: "'t Ledger" where
  "empty_ledger = \<lparr>runs_table = False, events_table = False, events_index = False,
     command_id_column = False, command_id_index = False, runs = [], run_events = []\<rparr>"

definition new_ledger :: "('t, 'j) run_codec \<Rightarrow> 't Ledger" where
  "new_ledger C = snd (initialize_ledger C empty_ledger)"

abbreviation run_steps :: "('t, 'j) run_codec \<Rightarrow> 't Ledger \<Rightarrow> 't Ledger \<Rightarrow> bool" where
  "run_steps C \<equiv> (run_step C)\<^sup>*\<^sup>*"

abbreviation ledger_steps :: "('t, 'j) run_codec \<Rightarrow> 't Ledger \<Rightarrow> 't Ledger \<Rightarrow> bool" where
  "ledger_steps C \<equiv> (ledger_step C)\<^sup>*\<^sup>*"

lemma append_empty_tx: "append_events_tx C r [] clock ids l = Inr ((), l)"
  by (simp add: append_events_tx_def)

lemma ledger_step_kept:
  assumes codec: "run_codec_ok C" and "ledger_step C l l'" and inv: "ledger_holds transcript_in_order C l"
  shows "ledger_holds transcript_in_order C l'"
  using assms(2)
proof cases
  case (any_admit c a clock r e adm)
  show ?thesis
  proof (cases "\<exists>r. adm = Admitted r")
    case True
    then show ?thesis
      using admit_stores [OF codec inv] any_admit inv started_in_order unfolding stores_def by metis
  next
    case False
    then show ?thesis using admit_unchanged [OF any_admit] inv by blast
  qed
next
  case (any_append r ks clock ids u)
  show ?thesis
  proof (cases "ks = []")
    case True
    then show ?thesis using any_append inv by (simp add: append_empty_tx)
  next
    case False
    then show ?thesis
      using append_stores [OF codec inv _ False any_append] inv unfolding stores_def by metis
  qed
next
  case (any_finish r t clock e u)
  then show ?thesis using finish_stores [OF codec inv _ any_finish] inv unfolding stores_def by metis
qed

text \<open>A transcript grows: same command, agent and start, more events, and none once it is terminal.\<close>

definition extends :: "'j RunTranscript \<Rightarrow> 'j RunTranscript \<Rightarrow> bool" where
  "extends tr tr' \<longleftrightarrow>
     run_command (transcript_run tr') = run_command (transcript_run tr) \<and>
     run_agent (transcript_run tr') = run_agent (transcript_run tr) \<and>
     run_created_at_ms (transcript_run tr') = run_created_at_ms (transcript_run tr) \<and>
     (\<exists>evs. transcript_events tr' = transcript_events tr @ evs) \<and>
     (run_terminal (transcript_run tr) \<noteq> None \<longrightarrow> tr' = tr)"

definition ledger_later :: "('t, 'j) run_codec \<Rightarrow> 't Ledger \<Rightarrow> 't Ledger \<Rightarrow> bool" where
  "ledger_later C l l' \<longleftrightarrow> (\<forall>r tr. load_transcript_tx C r l = Inr tr \<longrightarrow>
     (\<exists>tr'. load_transcript_tx C r l' = Inr tr' \<and> extends tr tr'))"

lemma extends_refl: "extends tr tr"
  by (simp add: extends_def)

lemma extends_trans: "extends a b \<Longrightarrow> extends b c \<Longrightarrow> extends a c"
  unfolding extends_def by (metis append.assoc)

lemma replaces_later:
  assumes "replaces C r tr' l l'" and "\<And>tr. load_transcript_tx C r l = Inr tr \<Longrightarrow> extends tr tr'"
  shows "ledger_inv C l' \<and> ledger_later C l l'"
  using assms extends_refl unfolding replaces_def ledger_later_def by metis

lemma run_step_kept:
  assumes codec: "run_codec_ok C" and "run_step C l l'" and inv: "ledger_inv C l"
  shows "ledger_inv C l' \<and> ledger_later C l l'"
  using assms(2)
proof cases
  case (step_admit c a clock r e adm)
  show ?thesis
  proof (cases "\<exists>r. adm = Admitted r")
    case True
    then obtain r' where "adm = Admitted r'" by blast
    with step_admit admit_run_admitted [OF codec inv, of c a clock r e r' l'] show ?thesis
      by (metis Inl_Inr_False replaces_later)
  next
    case False
    then show ?thesis using admit_unchanged [OF step_admit(2)] inv extends_refl by (auto simp: ledger_later_def)
  qed
next
  case (step_append ks r clock ids u)
  show ?thesis
  proof (cases "ks = []")
    case True
    then show ?thesis using step_append inv extends_refl by (auto simp: append_empty_tx ledger_later_def)
  next
    case False
    obtain tr evs where "load_transcript_tx C r l = Inr tr" "run_terminal (transcript_run tr) = None"
      "replaces C r (tr\<lparr>transcript_events := transcript_events tr @ evs\<rparr>) l l'"
      using append_events_effect [OF codec inv step_append(1) False step_append(2)] by metis
    then show ?thesis by (intro replaces_later) (auto simp: extends_def)
  qed
next
  case (step_finish r t clock e u)
  obtain tr ev finished where "load_transcript_tx C r l = Inr tr" "run_terminal (transcript_run tr) = None"
    "replaces C r \<lparr>transcript_run = finished_run (transcript_run tr) t finished,
      transcript_events = transcript_events tr @ [ev]\<rparr> l l'"
    using finish_run_effect [OF codec inv step_finish] by metis
  then show ?thesis by (intro replaces_later) (auto simp: extends_def)
qed

lemma new_ledger_holds: "ledger_holds P C (new_ledger C)"
  by (simp add: new_ledger_def initialize_ledger_def migrate_command_identity_def create_run_tables_def
      empty_ledger_def Let_def ledger_holds_def unique_on_def)

interpretation any_ledger: invariant_system "new_ledger C" "ledger_step C"
    "\<lambda>l. run_codec_ok C \<longrightarrow> ledger_holds transcript_in_order C l" for C
  by unfold_locales (use new_ledger_holds ledger_step_kept in blast)+

interpretation run_ledger: history_system "new_ledger C" "run_step C"
    "\<lambda>l. run_codec_ok C \<longrightarrow> ledger_inv C l" "\<lambda>l l'. run_codec_ok C \<longrightarrow> ledger_later C l l'" for C
proof
  show "run_codec_ok C \<longrightarrow> ledger_inv C (new_ledger C)" by (simp add: new_ledger_holds)
  show "run_codec_ok C \<longrightarrow> ledger_later C l l" for l using extends_refl by (auto simp: ledger_later_def)
  show "run_codec_ok C \<longrightarrow> ledger_later C a c"
    if "run_codec_ok C \<longrightarrow> ledger_later C a b" "run_codec_ok C \<longrightarrow> ledger_later C b c" for a b c
    using that extends_trans unfolding ledger_later_def by metis
qed (use run_step_kept in blast)+

end
