(* ===== verification/Run_Contract.thy ===== *)
theory Run_Contract
  imports Run_Ledger
begin

section \<open>The run store's contract\<close>

text \<open>
  What the engine may rely on of a \<open>RunStore\<close>, as the trait's comment in
  \<open>src/crates/renoa-core/src/run.rs\<close> asks for it: a command identity is admitted once, only an
  open run takes events, and one terminal writer wins. A store is seen through the transcripts it
  holds (\<open>view\<close>). Every call may fail, and then no transcript has changed. The SQLite store meets
  the contract.
\<close>

definition touches :: "(Uuid \<Rightarrow> 'j RunTranscript option) \<Rightarrow> Uuid \<Rightarrow> (Uuid \<Rightarrow> 'j RunTranscript option) \<Rightarrow> bool" where
  "touches v r v' \<longleftrightarrow> (\<forall>r'. r' \<noteq> r \<longrightarrow> v' r' = v r')"

text \<open>Run \<open>r\<close> of command \<open>c\<close> and agent \<open>a\<close> is open with these events; or it ended with \<open>t\<close> after them.\<close>

definition open_run ::
  "CommandEnvelope \<Rightarrow> ResolvedAgent \<Rightarrow> 'j RunEventKind list \<Rightarrow> 'j RunTranscript option \<Rightarrow> bool" where
  "open_run c a ks tr \<longleftrightarrow> (\<exists>t. tr = Some t \<and> run_command (transcript_run t) = c \<and>
     run_agent (transcript_run t) = a \<and> run_terminal (transcript_run t) = None \<and>
     map event_kind (transcript_events t) = ks)"

definition closed_run ::
  "CommandEnvelope \<Rightarrow> ResolvedAgent \<Rightarrow> TerminalState \<Rightarrow> 'j RunEventKind list \<Rightarrow> 'j RunTranscript option \<Rightarrow> bool" where
  "closed_run c a end_state ks tr \<longleftrightarrow> (\<exists>t. tr = Some t \<and> run_command (transcript_run t) = c \<and>
     run_agent (transcript_run t) = a \<and> run_terminal (transcript_run t) = Some end_state \<and>
     map event_kind (transcript_events t) = ks @ [RunTerminated end_state])"

definition admission_allowed ::
  "CommandEnvelope \<Rightarrow> ResolvedAgent \<Rightarrow> (Uuid \<Rightarrow> 'j RunTranscript option) \<Rightarrow> RunAdmission \<Rightarrow>
   (Uuid \<Rightarrow> 'j RunTranscript option) \<Rightarrow> bool" where
  "admission_allowed c a v adm v' \<longleftrightarrow> (case adm of
     Admitted r \<Rightarrow> v r = None \<and> touches v r v' \<and> open_run c a [RunStarted c a] (v' r) \<and>
       (\<forall>r' tr. v r' = Some tr \<longrightarrow> envelope_id (run_command (transcript_run tr)) \<noteq> envelope_id c)
   | Existing r \<Rightarrow> v' = v \<and> (\<exists>tr. v r = Some tr \<and>
       run_command (transcript_run tr) = c \<and> run_agent (transcript_run tr) = a)
   | Conflict r \<Rightarrow> v' = v \<and> (\<exists>tr. v r = Some tr \<and>
       envelope_id (run_command (transcript_run tr)) = envelope_id c \<and>
       \<not> (run_command (transcript_run tr) = c \<and> run_agent (transcript_run tr) = a)))"

locale run_store =
  fixes S :: "('s, 'j) RunStore"
    and ok :: "'s \<Rightarrow> bool"
    and view :: "'s \<Rightarrow> Uuid \<Rightarrow> 'j RunTranscript option"
    and accepts :: "CommandEnvelope \<Rightarrow> bool"
  assumes view_ok: "ok s \<Longrightarrow> view s r = Some tr \<Longrightarrow> transcript_ok tr \<and> run_id (transcript_run tr) = r"
    and view_unique: "ok s \<Longrightarrow> view s r = Some tr \<Longrightarrow> view s r' = Some tr' \<Longrightarrow>
      envelope_id (run_command (transcript_run tr)) = envelope_id (run_command (transcript_run tr')) \<Longrightarrow> r = r'"
    and admit_law: "ok s \<Longrightarrow> accepts c \<Longrightarrow> admit_run S c a s = (admitted, s') \<Longrightarrow>
      ok s' \<and> (case admitted of Inl _ \<Rightarrow> view s' = view s | Inr adm \<Rightarrow> admission_allowed c a (view s) adm (view s'))"
    and append_law: "ok s \<Longrightarrow> list_all progress ks \<Longrightarrow> ks \<noteq> [] \<Longrightarrow> append_events S r ks s = (appended, s') \<Longrightarrow>
      ok s' \<and> (case appended of Inl _ \<Rightarrow> view s' = view s
        | Inr _ \<Rightarrow> touches (view s) r (view s') \<and>
            (\<exists>c a ks0. open_run c a ks0 (view s r) \<and> open_run c a (ks0 @ ks) (view s' r)))"
    and append_empty: "append_events S r [] s = (Inr (), s)"
    and finish_law: "ok s \<Longrightarrow> finish_run S r t s = (finished, s') \<Longrightarrow>
      ok s' \<and> (case finished of Inl _ \<Rightarrow> view s' = view s
        | Inr _ \<Rightarrow> touches (view s) r (view s') \<and>
            (\<exists>c a ks0. open_run c a ks0 (view s r) \<and> closed_run c a t ks0 (view s' r)))"
    and load_law: "ok s \<Longrightarrow> load_transcript S r s = (loaded, s') \<Longrightarrow>
      ok s' \<and> view s' = view s \<and> (case loaded of Inl _ \<Rightarrow> True | Inr tr \<Rightarrow> view s r = Some tr)"
begin

lemma append_open:
  assumes "ok s" and "open_run c a ks0 (view s r)" and "list_all progress ks"
    and "append_events S r ks s = (res, s')"
  shows "ok s' \<and> touches (view s) r (view s') \<and>
    (case res of Inl _ \<Rightarrow> open_run c a ks0 (view s' r) | Inr _ \<Rightarrow> open_run c a (ks0 @ ks) (view s' r))"
proof (cases "ks = []")
  case True
  then show ?thesis using assms append_empty [of r s] by (auto simp: touches_def)
next
  case False
  show ?thesis
    using append_law [OF assms(1,3) False assms(4)] assms(2)
    by (cases res) (auto simp: open_run_def touches_def)
qed

lemma finish_open:
  assumes "ok s" and "open_run c a ks0 (view s r)" and "finish_run S r t s = (res, s')"
  shows "ok s' \<and> touches (view s) r (view s') \<and>
    (case res of Inl _ \<Rightarrow> open_run c a ks0 (view s' r) | Inr _ \<Rightarrow> closed_run c a t ks0 (view s' r))"
  using finish_law [OF assms(1,3)] assms(2)
  by (cases res) (auto simp: open_run_def closed_run_def touches_def)

end

subsection \<open>The SQLite store meets it\<close>

definition store_ok :: "('t, 'j) run_codec \<Rightarrow> 't SqliteRunStore \<Rightarrow> bool" where
  "store_ok C s \<longleftrightarrow> run_codec_ok C \<and> ledger_inv C (ledger s)"

definition store_view :: "('t, 'j) run_codec \<Rightarrow> 't SqliteRunStore \<Rightarrow> Uuid \<Rightarrow> 'j RunTranscript option" where
  "store_view C s r = (case load_transcript_tx C r (ledger s) of Inl _ \<Rightarrow> None | Inr tr \<Rightarrow> Some tr)"

lemma store_view_Some: "store_view C s r = Some tr \<longleftrightarrow> load_transcript_tx C r (ledger s) = Inr tr"
  by (simp add: store_view_def split: sum.splits)

lemma commit_cases:
  assumes "run_commit n result s = (res, s')"
  obtains e where "res = Inl e" and "ledger s' = ledger s"
  | a l where "res = Inr a" and "result = Inr (a, l)" and "ledger s' = l"
proof (cases result)
  case (Inl e)
  then show thesis using assms that(1) by (auto simp: run_commit_def Let_def split: if_splits)
next
  case (Inr al)
  then show thesis
    using assms that by (cases al) (auto simp: run_commit_def Let_def split: if_splits)
qed

lemma store_view_same: "ledger s' = ledger s \<Longrightarrow> store_view C s' = store_view C s"
  by (simp add: store_view_def fun_eq_iff)

lemma replaces_view:
  assumes "replaces C r tr' (ledger s) (ledger s')" and "store_ok C s"
  shows "store_ok C s'" and "touches (store_view C s) r (store_view C s')" and "store_view C s' r = Some tr'"
  using assms by (auto simp: replaces_def store_ok_def touches_def store_view_def)

lemma ledger_unique:
  assumes codec: "run_codec_ok C" and inv: "ledger_inv C l"
    and "load_transcript_tx C r l = Inr tr" and "load_transcript_tx C r' l = Inr tr'"
    and ids: "envelope_id (run_command (transcript_run tr)) = envelope_id (run_command (transcript_run tr'))"
  shows "r = r'"
proof -
  obtain row row' where rows: "run_row_of C r l = Some row" "run_row_of C r' l = Some row'"
    "run_stored C row (transcript_run tr)" "run_stored C row' (transcript_run tr')"
    using loaded_row [OF codec inv assms(3)] loaded_row [OF codec inv assms(4)] by metis
  then have "row_command_id row = row_command_id row'" using ids by (simp add: run_stored_def)
  moreover have "row \<in> set (runs l)" "row' \<in> set (runs l)" "row_run_id row = uuid_text C r" "row_run_id row' = uuid_text C r'"
    using find_SomeD [OF rows(1)] find_SomeD [OF rows(2)] by auto
  ultimately show ?thesis using inv codec unfolding ledger_holds_def by (metis unique_onD uuid_text_eq)
qed

lemma sqlite_admit_law:
  assumes ok: "store_ok C s" and c: "readable c" and run: "sqlite_admit_run C c a s = (res, s')"
  shows "store_ok C s' \<and> (case res of Inl _ \<Rightarrow> store_view C s' = store_view C s
    | Inr adm \<Rightarrow> admission_allowed c a (store_view C s) adm (store_view C s'))"
proof -
  note inv = ok [unfolded store_ok_def, THEN conjunct1] ok [unfolded store_ok_def, THEN conjunct2]
  have "run_commit 2 (admit_run_tx C c a (store_clock s (ticks s)) (store_uuids s (ticks s))
       (store_uuids s (ticks s + 1)) (ledger s)) s = (res, s')"
    using run by (simp add: sqlite_admit_run_def)
  then show ?thesis
  proof (cases rule: commit_cases)
    case (1 e)
    then show ?thesis using ok store_view_same by (auto simp: store_ok_def)
  next
    case (2 adm l)
    show ?thesis
    proof (cases "\<exists>r. adm = Admitted r")
      case True
      then obtain r where r: "adm = Admitted r" by blast
      obtain created e where new: "load_transcript_tx C r (ledger s) = Inl (RunNotFound r)"
        "\<And>row. row \<in> set (runs (ledger s)) \<Longrightarrow> row_command_id row \<noteq> Some (uuid_text C (envelope_id c))"
        "replaces C r (started_transcript r c a created e) (ledger s) (ledger s')"
        using admit_run_admitted [OF inv c] 2 r by metis
      have "envelope_id (run_command (transcript_run tr)) \<noteq> envelope_id c"
        if tr: "store_view C s r' = Some tr" for r' tr
      proof -
        obtain row where "row \<in> set (runs (ledger s))" "run_stored C row (transcript_run tr)"
          using loaded_row [OF inv] tr unfolding store_view_Some by metis
        then show ?thesis using new(2) by (auto simp: run_stored_def)
      qed
      then show ?thesis
        using replaces_view [OF new(3) ok] new(1) 2(1) r
        by (simp add: admission_allowed_def store_view_def open_run_def started_transcript_def)
    next
      case False
      then obtain r tr where known: "l = ledger s" "load_transcript_tx C r (ledger s) = Inr tr"
        "envelope_id (run_command (transcript_run tr)) = envelope_id c"
        "adm = (if run_command (transcript_run tr) = c \<and> run_agent (transcript_run tr) = a
          then Existing r else Conflict r)"
        using admit_run_known [OF inv c 2(2)] by metis
      then have "store_view C s r = Some tr" by (simp add: store_view_Some)
      then show ?thesis
        using known 2 ok store_view_same [of s' s] by (auto simp: admission_allowed_def store_ok_def)
    qed
  qed
qed

lemma sqlite_append_law:
  assumes ok: "store_ok C s" and ks: "list_all progress ks" "ks \<noteq> []"
    and run: "sqlite_append_events C r ks s = (res, s')"
  shows "store_ok C s' \<and> (case res of Inl _ \<Rightarrow> store_view C s' = store_view C s
    | Inr _ \<Rightarrow> touches (store_view C s) r (store_view C s') \<and>
        (\<exists>c a ks0. open_run c a ks0 (store_view C s r) \<and> open_run c a (ks0 @ ks) (store_view C s' r)))"
proof -
  note inv = ok [unfolded store_ok_def, THEN conjunct1] ok [unfolded store_ok_def, THEN conjunct2]
  have "run_commit (length ks) (append_events_tx C r ks (store_clock s (ticks s))
        (\<lambda>i. store_uuids s (ticks s + i)) (ledger s)) s = (res, s')"
    using run ks by (simp add: sqlite_append_events_def)
  then show ?thesis
  proof (cases rule: commit_cases)
    case (1 e)
    then show ?thesis using ok store_view_same by (auto simp: store_ok_def)
  next
    case (2 u l)
    obtain tr evs where tr: "load_transcript_tx C r (ledger s) = Inr tr"
      "run_terminal (transcript_run tr) = None" "map event_kind evs = ks"
      "replaces C r (tr\<lparr>transcript_events := transcript_events tr @ evs\<rparr>) (ledger s) (ledger s')"
      using append_events_effect [OF inv ks] 2 by metis
    then show ?thesis
      using replaces_view [OF tr(4) ok] 2(1) by (simp add: open_run_def store_view_Some)
  qed
qed

lemma sqlite_finish_law:
  assumes ok: "store_ok C s" and run: "sqlite_finish_run C r t s = (res, s')"
  shows "store_ok C s' \<and> (case res of Inl _ \<Rightarrow> store_view C s' = store_view C s
    | Inr _ \<Rightarrow> touches (store_view C s) r (store_view C s') \<and>
        (\<exists>c a ks0. open_run c a ks0 (store_view C s r) \<and> closed_run c a t ks0 (store_view C s' r)))"
proof -
  note inv = ok [unfolded store_ok_def, THEN conjunct1] ok [unfolded store_ok_def, THEN conjunct2]
  have "run_commit 1 (finish_run_tx C r t (store_clock s (ticks s)) (store_uuids s (ticks s)) (ledger s)) s = (res, s')"
    using run by (simp add: sqlite_finish_run_def)
  then show ?thesis
  proof (cases rule: commit_cases)
    case (1 e)
    then show ?thesis using ok store_view_same by (auto simp: store_ok_def)
  next
    case (2 u l)
    obtain tr ev finished where tr: "load_transcript_tx C r (ledger s) = Inr tr"
      "run_terminal (transcript_run tr) = None" "event_kind ev = RunTerminated t"
      "replaces C r \<lparr>transcript_run = finished_run (transcript_run tr) t finished,
        transcript_events = transcript_events tr @ [ev]\<rparr> (ledger s) (ledger s')"
      using finish_run_effect [OF inv] 2 by metis
    then show ?thesis
      using replaces_view [OF tr(4) ok] 2(1) by (simp add: open_run_def closed_run_def store_view_Some)
  qed
qed

lemma sqlite_load_law:
  assumes ok: "store_ok C s" and run: "sqlite_load_transcript C r s = (res, s')"
  shows "store_ok C s' \<and> store_view C s' = store_view C s \<and>
    (case res of Inl _ \<Rightarrow> True | Inr tr \<Rightarrow> store_view C s r = Some tr)"
proof -
  have "run_commit 1 (and_then (load_transcript_tx C r (ledger s)) (\<lambda>tr. Inr (tr, ledger s))) s = (res, s')"
    using run by (simp add: sqlite_load_transcript_def)
  then show ?thesis
    by (cases rule: commit_cases)
      (use ok store_view_same in \<open>auto simp: store_ok_def store_view_Some result_eq\<close>)
qed

lemma sqlite_view_ok:
  assumes "store_ok C s" and "store_view C s r = Some tr"
  shows "transcript_ok tr \<and> run_id (transcript_run tr) = r"
  using assms loaded_run [of C "ledger s" r tr]
  by (auto simp: store_ok_def store_view_Some clean_def stored_def stored_in_def)

interpretation sqlite_runs: run_store "sqlite_store C" "store_ok C" "store_view C" readable for C
proof
  show "transcript_ok tr \<and> run_id (transcript_run tr) = r"
    if "store_ok C s" "store_view C s r = Some tr" for s r tr
    by (rule sqlite_view_ok [OF that])
  show "r = r'" if "store_ok C s" "store_view C s r = Some tr" "store_view C s r' = Some tr'"
    "envelope_id (run_command (transcript_run tr)) = envelope_id (run_command (transcript_run tr'))" for s r r' tr tr'
    using that ledger_unique [of C "ledger s"] unfolding store_view_Some store_ok_def by blast
  show "append_events (sqlite_store C) r [] s = (Inr (), s)" for r s
    by (simp add: sqlite_store_def sqlite_append_events_def)
qed (simp only: sqlite_store_def RunStore.simps, rule sqlite_admit_law sqlite_append_law sqlite_finish_law
    sqlite_load_law, assumption+)+

text \<open>A stored command is recognized whenever SQLite opens the file.\<close>

lemma admit_existing:
  assumes codec: "run_codec_ok C" and inv: "ledger_inv C l" and load: "load_transcript_tx C r l = Inr tr"
    and "run_command (transcript_run tr) = c" and "run_agent (transcript_run tr) = a"
  shows "admit_run_tx C c a clock new_run e l = Inr (Existing r, l)"
proof -
  obtain row where row: "run_row_of C r l = Some row" "row \<in> set (runs l)" "run_stored C row (transcript_run tr)"
    using loaded_row [OF codec inv load] by metis
  have "find (\<lambda>row. row_command_id row = Some (uuid_text C (envelope_id c))) (runs l) = Some row"
    using row assms(4) inv unfolding ledger_holds_def
    by (intro find_unique [of row_command_id]) (auto simp: run_stored_def)
  moreover have "uuid_parse C (row_run_id row) = Some r"
    using find_SomeD [OF row(1)] codec_reads(1) [OF codec] by simp
  ultimately show ?thesis
    using row(3) assms(4,5) by (simp add: admit_run_tx_def run_stored_def)
qed

lemma sqlite_admit_existing:
  assumes "store_ok C s" and "store_view C s r = Some tr"
    and "run_command (transcript_run tr) = c" and "run_agent (transcript_run tr) = a"
  shows "sqlite_admit_run C c a s =
    (if store_opens s (ticks s + 2) then Inr (Existing r) else Inl SqliteError, s\<lparr>ticks := ticks s + 2\<rparr>)"
  using admit_existing [of C "ledger s" r tr c a] assms
  by (cases s) (simp add: sqlite_admit_run_def run_commit_def store_ok_def store_view_Some Let_def)

lemma sqlite_load_visible:
  assumes "store_view C s r = Some tr"
  shows "sqlite_load_transcript C r s =
    (if store_opens s (ticks s + 1) then Inr tr else Inl SqliteError, s\<lparr>ticks := ticks s + 1\<rparr>)"
  using assms by (cases s) (simp add: sqlite_load_transcript_def run_commit_def store_view_Some Let_def)

end
