(* ===== verification/Run_Engine.thy ===== *)
theory Run_Engine
  imports Run_Contract
begin

section \<open>The reference engine\<close>

text \<open>
  \<open>Engine::run\<close> (\<open>src/crates/renoa-runtime\<close>): admission of a command, at most
  \<open>max_model_rounds\<close> rounds of one model stream and one batch of capability calls each, and the
  terminal state of every way out. The engine's collaborators are parameters: the store is a
  \<open>RunStore\<close>, and the model, the capability host and the cancellation token answer from a state
  \<open>'w\<close> of the surroundings. A model stream may go on for ever or never become ready, and so may
  a capability; \<open>None\<close> is a computation that never returns.
\<close>

subsection \<open>Types\<close>

datatype EngineError =
  EngineCancelled
| CommandAlreadyAdmitted Uuid
| CommandConflict Uuid
| CapabilityBatchTooLarge nat nat
| CapabilityTask utext
| EngineModel utext
| RoundLimit u32
| EngineStore StoreError

record AgentRunResult =
  result_run :: Uuid
  result_output :: utext
  model_rounds :: u32

text \<open>
  How the task spawned for one call ends, as \<open>JoinSet::join_next\<close> reports it: no task, a task
  that panicked or was aborted, or the branch of its \<open>select!\<close> that finished first; or no branch
  ever finishes.
\<close>

datatype 'j TaskResult =
  Disappeared
| JoinFailed utext
| CancelledFirst
| Executed "'j CapabilityOutcome"
| Unfinished

text \<open>
  What the \<open>select!\<close> over the token and the stream's next item comes to when the token is not
  cancelled yet: an item, the end of the stream, a cancellation that comes first, or nothing ever.
\<close>

datatype 'j StreamEvent =
  StreamItem "utext + 'j ModelEvent"
| StreamEnded
| CancelledWaiting
| NeverReady

text \<open>
  \<open>engine_model\<close> opens a stream in the surroundings and \<open>next_event\<close> polls the open one;
  \<open>error_value\<close> builds the object \<open>{"error": message}\<close>.
\<close>

record ('s, 'w, 'j) Engine =
  engine_model :: "'j ModelRequest \<Rightarrow> 'w \<Rightarrow> 'w"
  next_event :: "'w \<Rightarrow> 'j StreamEvent \<times> 'w"
  host_specs :: "'w \<Rightarrow> 'j CapabilitySpec list"
  host_execute :: "'j CapabilityRequest \<Rightarrow> 'w \<Rightarrow> 'j TaskResult \<times> 'w"
  is_cancelled :: "'w \<Rightarrow> bool \<times> 'w"
  engine_store :: "('s, 'j) RunStore"
  max_model_rounds :: u32
  max_capability_calls_per_response :: nat
  error_value :: "utext \<Rightarrow> 'j"

text \<open>\<open>try_then r f\<close> is \<open>f(r?)\<close> for a computation that has a state.\<close>

type_synonym ('e, 'a, 'x) returned = "(('e + 'a) \<times> 'x) option"

definition try_then :: "('e, 'a, 'x) returned \<Rightarrow> ('a \<Rightarrow> 'x \<Rightarrow> ('e, 'b, 'x) returned) \<Rightarrow> ('e, 'b, 'x) returned" where
  "try_then r f = (case r of None \<Rightarrow> None | Some (Inl e, x) \<Rightarrow> Some (Inl e, x) | Some (Inr a, x) \<Rightarrow> f a x)"

definition store_call ::
  "('s \<Rightarrow> (StoreError + 'a) \<times> 's) \<Rightarrow> 's \<times> 'w \<Rightarrow> (EngineError, 'a, 's \<times> 'w) returned" where
  "store_call call x = (let (r, s) = call (fst x) in Some (map_err EngineStore r, (s, snd x)))"

subsection \<open>Terminal states\<close>

definition complete_run ::
  "('s, 'w, 'j) Engine \<Rightarrow> Uuid \<Rightarrow> utext \<Rightarrow> u32 \<Rightarrow> 's \<times> 'w \<Rightarrow> (EngineError, AgentRunResult, 's \<times> 'w) returned" where
  "complete_run E r output rounds x =
     try_then (store_call (finish_run (engine_store E) r (RunCompleted output)) x) (\<lambda>_ x.
       Some (Inr \<lparr>result_run = r, result_output = output, model_rounds = rounds\<rparr>, x))"

definition cancel_run ::
  "('s, 'w, 'j) Engine \<Rightarrow> Uuid \<Rightarrow> 's \<times> 'w \<Rightarrow> (EngineError, unit, 's \<times> 'w) returned" where
  "cancel_run E r = store_call (finish_run (engine_store E) r (RunCancelled (str ''caller cancelled the run'')))"

definition fail_run ::
  "('s, 'w, 'j) Engine \<Rightarrow> Uuid \<Rightarrow> utext \<Rightarrow> 's \<times> 'w \<Rightarrow> (EngineError, unit, 's \<times> 'w) returned" where
  "fail_run E r error = store_call (finish_run (engine_store E) r (RunFailed error))"

definition terminal_error ::
  "('s, 'w, 'j) Engine \<Rightarrow> Uuid \<Rightarrow> EngineError \<Rightarrow> 's \<times> 'w \<Rightarrow> (EngineError, AgentRunResult, 's \<times> 'w) returned" where
  "terminal_error E r error x =
     try_then
       (case error of
          CommandAlreadyAdmitted _ \<Rightarrow> Some (Inr (), x)
        | CommandConflict _ \<Rightarrow> Some (Inr (), x)
        | EngineStore _ \<Rightarrow> Some (Inr (), x)
        | EngineCancelled \<Rightarrow> cancel_run E r x
        | CapabilityBatchTooLarge actual limit \<Rightarrow>
            fail_run E r (str ''model returned '' @ show_nat actual @
              str '' capability calls; the per-response limit is '' @ show_nat limit) x
        | CapabilityTask message \<Rightarrow> fail_run E r (str ''capability task failed: '' @ message) x
        | EngineModel message \<Rightarrow> fail_run E r (str ''model invocation failed: '' @ message) x
        | RoundLimit limit \<Rightarrow>
            fail_run E r (str ''the model exceeded the configured round limit of '' @ show_nat limit) x)
       (\<lambda>_ x. Some (Inl error, x))"

definition is_model_requested :: "'j RunEventKind \<Rightarrow> bool" where
  "is_model_requested k = (case k of ModelRequested _ \<Rightarrow> True | _ \<Rightarrow> False)"

definition replay_completed ::
  "('s, 'w, 'j) Engine \<Rightarrow> Uuid \<Rightarrow> 's \<times> 'w \<Rightarrow> (EngineError, AgentRunResult, 's \<times> 'w) returned" where
  "replay_completed E r x =
     try_then (store_call (load_transcript (engine_store E) r) x) (\<lambda>transcript x.
       case run_terminal (transcript_run transcript) of
         Some (RunCompleted output) \<Rightarrow>
           (let rounds = length (filter (\<lambda>e. is_model_requested (event_kind e)) (transcript_events transcript)) in
            if rounds \<le> u32_max
            then Some (Inr \<lparr>result_run = r, result_output = output, model_rounds = rounds\<rparr>, x)
            else Some (Inl (EngineStore StoredRoundCount), x))
       | _ \<Rightarrow> Some (Inl (CommandAlreadyAdmitted r), x))"

subsection \<open>One model step\<close>

definition build_request ::
  "Uuid \<Rightarrow> u32 \<Rightarrow> utext \<Rightarrow> 'j Message list \<Rightarrow> 'j CapabilitySpec list \<Rightarrow> 'j ModelRequest" where
  "build_request r round instr msgs caps =
     \<lparr>model_run = r, model_round = round, messages = SystemMessage instr # msgs, capabilities = caps\<rparr>"

partial_function (option) stream_loop ::
  "('s, 'w, 'j) Engine \<Rightarrow> Uuid \<Rightarrow> u32 \<Rightarrow> 's \<times> 'w \<Rightarrow> (EngineError, 'j ModelResponse, 's \<times> 'w) returned" where
  "stream_loop E r round x =
     (case is_cancelled E (snd x) of (stop, w) \<Rightarrow>
      if stop then Some (Inl EngineCancelled, (fst x, w)) else
      case next_event E w of (event, w) \<Rightarrow>
      case event of
        CancelledWaiting \<Rightarrow> Some (Inl EngineCancelled, (fst x, w))
      | NeverReady \<Rightarrow> None
      | StreamEnded \<Rightarrow>
          Some (Inl (EngineModel (str ''model stream ended without a completed response'')), (fst x, w))
      | StreamItem item \<Rightarrow>
          (case item of
             Inl error \<Rightarrow> Some (Inl (EngineModel error), (fst x, w))
           | Inr delta \<Rightarrow>
               (case delta of
                  TextDelta _ \<Rightarrow> stream_loop E r round (fst x, w)
                | ModelCompleted response \<Rightarrow>
                    try_then (store_call (append_events (engine_store E) r [ModelResponded round response]) (fst x, w))
                      (\<lambda>_ x. Some (Inr response, x)))))"

declare stream_loop.simps [code]

definition model_step ::
  "('s, 'w, 'j) Engine \<Rightarrow> 'j ModelRequest \<Rightarrow> 's \<times> 'w \<Rightarrow> (EngineError, 'j ModelResponse, 's \<times> 'w) returned" where
  "model_step E request x =
     try_then (store_call (append_events (engine_store E) (model_run request) [ModelRequested (model_round request)]) x)
       (\<lambda>_ (s, w). stream_loop E (model_run request) (model_round request) (s, engine_model E request w))"

subsection \<open>One batch of capability calls\<close>

definition record_capability_completion ::
  "('s, 'w, 'j) Engine \<Rightarrow> Uuid \<Rightarrow> 'j CapabilityRequest \<Rightarrow> 'j CapabilityOutcome \<Rightarrow> 's \<times> 'w \<Rightarrow>
   (EngineError, unit, 's \<times> 'w) returned" where
  "record_capability_completion E r request outcome =
     store_call (append_events (engine_store E) r
       [CapabilityCompleted (request_ordinal request) (call_id (request_call request)) outcome])"

fun refuse_truncated ::
  "('s, 'w, 'j) Engine \<Rightarrow> Uuid \<Rightarrow> 'j CapabilityRequest list \<Rightarrow> 's \<times> 'w \<Rightarrow>
   (EngineError, ('j CapabilityRequest \<times> 'j CapabilityOutcome) list, 's \<times> 'w) returned" where
  "refuse_truncated E r [] x = Some (Inr [], x)"
| "refuse_truncated E r (request # requests) x =
     (let outcome = capability_error (error_value E)
        (str ''capability call was not executed because the model response was truncated'') in
      try_then (record_capability_completion E r request outcome x) (\<lambda>_ x.
      try_then (refuse_truncated E r requests x) (\<lambda>outcomes x.
        Some (Inr ((request, outcome) # outcomes), x))))"

definition run_capability ::
  "('s, 'w, 'j) Engine \<Rightarrow> 'j CapabilitySpec list \<Rightarrow> 'j CapabilityRequest \<Rightarrow> 's \<times> 'w \<Rightarrow>
   (EngineError, 'j CapabilityOutcome, 's \<times> 'w) returned" where
  "run_capability E caps request x =
     (if \<not> list_ex (\<lambda>capability. spec_name capability = call_name (request_call request)) caps
      then Some (Inr (capability_error (error_value E)
        (str ''capability `'' @ call_name (request_call request) @ str ''` is not granted'')), x)
      else
        let (result, w) = host_execute E request (snd x); x = (fst x, w) in
        case result of
          Disappeared \<Rightarrow> Some (Inl (CapabilityTask (str ''capability task disappeared before completion'')), x)
        | JoinFailed error \<Rightarrow> Some (Inl (CapabilityTask error), x)
        | CancelledFirst \<Rightarrow>
            Some (Inr (capability_error (error_value E) (str ''capability execution was cancelled'')), x)
        | Executed outcome \<Rightarrow> Some (Inr outcome, x)
        | Unfinished \<Rightarrow> None)"

fun execute_capabilities ::
  "('s, 'w, 'j) Engine \<Rightarrow> Uuid \<Rightarrow> 'j CapabilitySpec list \<Rightarrow> 'j CapabilityRequest list \<Rightarrow> 's \<times> 'w \<Rightarrow>
   (EngineError, ('j CapabilityRequest \<times> 'j CapabilityOutcome) list, 's \<times> 'w) returned" where
  "execute_capabilities E r caps [] x = Some (Inr [], x)"
| "execute_capabilities E r caps (request # requests) x =
     try_then (run_capability E caps request x) (\<lambda>outcome x.
     try_then (record_capability_completion E r request outcome x) (\<lambda>_ x.
     try_then (execute_capabilities E r caps requests x) (\<lambda>outcomes x.
       Some (Inr ((request, outcome) # outcomes), x))))"

definition capability_requests ::
  "('s, 'w, 'j) Engine \<Rightarrow> Uuid \<Rightarrow> CommandEnvelope \<Rightarrow> 'j CapabilityCall list \<Rightarrow>
   EngineError + 'j CapabilityRequest list" where
  "capability_requests E r command calls =
     try_map (\<lambda>(ordinal, call).
       if ordinal \<le> u32_max
       then Inr \<lparr>request_run = r, request_target = envelope_target command, request_ordinal = ordinal,
         request_call = call\<rparr>
       else Inl (CapabilityBatchTooLarge (length calls) (max_capability_calls_per_response E)))
     (enumerate 0 calls)"

definition capability_batch ::
  "('s, 'w, 'j) Engine \<Rightarrow> Uuid \<Rightarrow> CommandEnvelope \<Rightarrow> 'j ModelResponse \<Rightarrow> 'j CapabilitySpec list \<Rightarrow> 's \<times> 'w \<Rightarrow>
   (EngineError, ('j CapabilityRequest \<times> 'j CapabilityOutcome) list, 's \<times> 'w) returned" where
  "capability_batch E r command response caps x =
     (if length (capability_calls response) > max_capability_calls_per_response E
      then Some (Inl (CapabilityBatchTooLarge (length (capability_calls response))
        (max_capability_calls_per_response E)), x)
      else
      try_then (Some (capability_requests E r command (capability_calls response), x)) (\<lambda>requests x.
      try_then (store_call (append_events (engine_store E) r
          (map (\<lambda>request. CapabilityRequested (request_ordinal request) (request_call request)) requests)) x)
        (\<lambda>_ x.
         if truncated response then refuse_truncated E r requests x
         else execute_capabilities E r caps requests x)))"

subsection \<open>The run\<close>

definition assistant_message :: "'j ModelResponse \<Rightarrow> 'j Message" where
  "assistant_message response = AssistantMessage (response_text response) (capability_calls response)"

definition capability_message :: "'j CapabilityRequest \<times> 'j CapabilityOutcome \<Rightarrow> 'j Message" where
  "capability_message p = CapabilityMessage (call_id (request_call (fst p))) (call_name (request_call (fst p))) (snd p)"

text \<open>The \<open>for\<close> loop over the rounds; the first argument counts those that are left.\<close>

fun round_loop ::
  "nat \<Rightarrow> ('s, 'w, 'j) Engine \<Rightarrow> Uuid \<Rightarrow> CommandEnvelope \<Rightarrow> ResolvedAgent \<Rightarrow> 'j CapabilitySpec list \<Rightarrow> u32 \<Rightarrow>
   'j Message list \<Rightarrow> 's \<times> 'w \<Rightarrow> (EngineError, AgentRunResult, 's \<times> 'w) returned" where
  "round_loop 0 E r command agent caps round msgs x =
     terminal_error E r (RoundLimit (max_model_rounds E)) x"
| "round_loop (Suc left) E r command agent caps round msgs (s, w) =
     (let (stop, w) = is_cancelled E w in
      if stop then terminal_error E r EngineCancelled (s, w) else
      case model_step E (build_request r round (instructions agent) msgs caps) (s, w) of
        None \<Rightarrow> None
      | Some (Inl error, x) \<Rightarrow> terminal_error E r error x
      | Some (Inr response, x) \<Rightarrow>
          if capability_calls response = []
          then complete_run E r (response_text response) (round + 1) x
          else
            case capability_batch E r command response caps x of
              None \<Rightarrow> None
            | Some (Inl error, x) \<Rightarrow> terminal_error E r error x
            | Some (Inr outcomes, (s, w)) \<Rightarrow>
                let (stop, w) = is_cancelled E w in
                if stop then terminal_error E r EngineCancelled (s, w)
                else round_loop left E r command agent caps (round + 1)
                  (msgs @ [assistant_message response] @ map capability_message outcomes) (s, w))"

definition engine_run ::
  "('s, 'w, 'j) Engine \<Rightarrow> CommandEnvelope \<Rightarrow> ResolvedAgent \<Rightarrow> 's \<times> 'w \<Rightarrow>
   (EngineError, AgentRunResult, 's \<times> 'w) returned" where
  "engine_run E command agent x =
     try_then (store_call (admit_run (engine_store E) command agent) x) (\<lambda>admission x.
       case admission of
         Existing r \<Rightarrow> replay_completed E r x
       | Conflict r \<Rightarrow> Some (Inl (CommandConflict r), x)
       | Admitted r \<Rightarrow>
           round_loop (max_model_rounds E) E r command agent
             (filter (\<lambda>capability. List.member (capability_grants agent) (spec_name capability))
               (host_specs E (snd x)))
             0 [UserMessage (input_text (envelope_input command))] x)"

end
