(* ===== verification/Run_Streams.thy ===== *)
theory Run_Streams
  imports Run_Engine
begin

section \<open>When a run returns\<close>

text \<open>
  The engine waits for two things it does not control: the next item of a model stream and the
  end of a capability's task. The loop over a stream is shown equal to a relation that is
  inductive in the items taken, so that it returns exactly when the stream yields something; and
  a run returns when every stream it opens does and every task it spawns ends. Nothing else in
  the engine can keep a run from returning: the rounds are bounded.
\<close>

subsection \<open>Streams\<close>

text \<open>
  What one stream comes to, as a relation on the surroundings: the error the loop ends with or
  the response the stream completes with.
\<close>

inductive stream_yields ::
  "('s, 'w, 'j) Engine \<Rightarrow> 'w \<Rightarrow> EngineError + 'j ModelResponse \<Rightarrow> 'w \<Rightarrow> bool" for E where
  already_cancelled: "is_cancelled E w = (True, w1) \<Longrightarrow> stream_yields E w (Inl EngineCancelled) w1"
| cancelled_waiting: "is_cancelled E w = (False, w1) \<Longrightarrow> next_event E w1 = (CancelledWaiting, w2) \<Longrightarrow>
    stream_yields E w (Inl EngineCancelled) w2"
| stream_ended: "is_cancelled E w = (False, w1) \<Longrightarrow> next_event E w1 = (StreamEnded, w2) \<Longrightarrow>
    stream_yields E w (Inl (EngineModel (str ''model stream ended without a completed response''))) w2"
| stream_error: "is_cancelled E w = (False, w1) \<Longrightarrow> next_event E w1 = (StreamItem (Inl error), w2) \<Longrightarrow>
    stream_yields E w (Inl (EngineModel error)) w2"
| stream_completed: "is_cancelled E w = (False, w1) \<Longrightarrow>
    next_event E w1 = (StreamItem (Inr (ModelCompleted response)), w2) \<Longrightarrow> stream_yields E w (Inr response) w2"
| stream_delta: "is_cancelled E w = (False, w1) \<Longrightarrow> next_event E w1 = (StreamItem (Inr (TextDelta delta)), w2) \<Longrightarrow>
    stream_yields E w2 out w3 \<Longrightarrow> stream_yields E w out w3"

definition stream_result ::
  "('s, 'w, 'j) Engine \<Rightarrow> Uuid \<Rightarrow> u32 \<Rightarrow> 's \<Rightarrow> EngineError + 'j ModelResponse \<Rightarrow> 'w \<Rightarrow>
   (EngineError, 'j ModelResponse, 's \<times> 'w) returned" where
  "stream_result E r round s out w = (case out of
     Inl e \<Rightarrow> Some (Inl e, (s, w))
   | Inr response \<Rightarrow> try_then (store_call (append_events (engine_store E) r [ModelResponded round response]) (s, w))
       (\<lambda>_ x. Some (Inr response, x)))"

lemma stream_loop_yields:
  assumes "stream_loop E r round x = Some y"
  shows "\<exists>out w'. stream_yields E (snd x) out w' \<and> stream_result E r round (fst x) out w' = Some y"
proof (rule stream_loop.raw_induct [where xa = "(((E, r), round), x)" and y = y and
      P = "\<lambda>E r round x y. \<exists>out w'. stream_yields E (snd x) out w' \<and> stream_result E r round (fst x) out w' = Some y",
      unfolded prod.case, OF _ assms])
  fix f E r round x y
  assume IH: "\<And>E r round x y. f E r round x = Some y \<Longrightarrow>
      \<exists>out w'. stream_yields E (snd x) out w' \<and> stream_result E r round (fst x) out w' = Some y"
    and body: "(case is_cancelled E (snd x) of (stop, w) \<Rightarrow>
      if stop then Some (Inl EngineCancelled, (fst x, w)) else
      case next_event E w of (event, w) \<Rightarrow>
      case event of
        CancelledWaiting \<Rightarrow> Some (Inl EngineCancelled, (fst x, w))
      | NeverReady \<Rightarrow> None
      | StreamEnded \<Rightarrow>
          Some (Inl (EngineModel (str ''model stream ended without a completed response'')), (fst x, w))
      | StreamItem (Inl error) \<Rightarrow> Some (Inl (EngineModel error), (fst x, w))
      | StreamItem (Inr (TextDelta _)) \<Rightarrow> f E r round (fst x, w)
      | StreamItem (Inr (ModelCompleted response)) \<Rightarrow>
          try_then (store_call (append_events (engine_store E) r [ModelResponded round response]) (fst x, w))
            (\<lambda>_ x. Some (Inr response, x))) = Some y"
  obtain stop w1 where w1: "is_cancelled E (snd x) = (stop, w1)" by force
  obtain event w2 where w2: "next_event E w1 = (event, w2)" by force
  show "\<exists>out w'. stream_yields E (snd x) out w' \<and> stream_result E r round (fst x) out w' = Some y"
  proof (cases "\<exists>delta. \<not> stop \<and> event = StreamItem (Inr (TextDelta delta))")
    case True
    then have "f E r round (fst x, w2) = Some y" using body w1 w2 by auto
    from IH [OF this] show ?thesis using True w1 w2 by (auto intro: stream_delta)
  next
    case False
    then show ?thesis
      using body w1 w2 stream_yields.intros(1-5) [of E "snd x" w1]
      by (fastforce simp: stream_result_def split: if_splits StreamEvent.splits sum.splits ModelEvent.splits)
  qed
qed

lemma stream_yields_loop:
  "stream_yields E w out w' \<Longrightarrow> stream_loop E r round (s, w) = stream_result E r round s out w'"
  by (induction rule: stream_yields.induct) (subst stream_loop.simps, simp add: stream_result_def)+

lemma stream_result_returns: "\<exists>y. stream_result E r round s out w = Some y"
  by (cases out; cases "append_events (engine_store E) r [ModelResponded round (projr out)] s";
    cases "fst (append_events (engine_store E) r [ModelResponded round (projr out)] s)")
    (auto simp: stream_result_def store_call_def try_then_def)

lemma stream_loop_iff:
  "(\<exists>y. stream_loop E r round (s, w) = Some y) \<longleftrightarrow> (\<exists>out w'. stream_yields E w out w')"
proof
  show "\<exists>out w'. stream_yields E w out w'" if "\<exists>y. stream_loop E r round (s, w) = Some y"
    using that stream_loop_yields by fastforce
  show "\<exists>y. stream_loop E r round (s, w) = Some y" if "\<exists>out w'. stream_yields E w out w'"
    using that stream_yields_loop stream_result_returns by metis
qed
subsection \<open>Runs\<close>

text \<open>The streams of this engine's model all yield something, and its host's calls all end.\<close>

definition responsive :: "('s, 'w, 'j) Engine \<Rightarrow> bool" where
  "responsive E \<longleftrightarrow>
     (\<forall>request w. \<exists>out w'. stream_yields E (engine_model E request w) out w') \<and>
     (\<forall>request w. fst (host_execute E request w) \<noteq> Unfinished)"

definition returns :: "'a option \<Rightarrow> bool" where
  "returns m \<longleftrightarrow> m \<noteq> None"

lemma returns_simps [simp]: "returns (Some y)" "\<not> returns None"
  by (simp_all add: returns_def)

lemma returnsE: "returns (m :: (('e + 'a) \<times> 'x) option) \<Longrightarrow> (\<And>res x. m = Some (res, x) \<Longrightarrow> thesis) \<Longrightarrow> thesis"
  by (cases m) auto

lemma store_call_returns: "returns (store_call call x)"
  by (simp add: store_call_def split: prod.splits)

lemma try_then_returns:
  "returns r \<Longrightarrow> (\<And>a x. returns (f a x)) \<Longrightarrow> returns (try_then r f)"
  by (erule returnsE) (simp add: try_then_def split: sum.splits)

lemma complete_run_returns: "returns (complete_run E r output n x)"
  unfolding complete_run_def by (intro try_then_returns store_call_returns) simp

lemma terminal_error_returns: "returns (terminal_error E r error x)"
  unfolding terminal_error_def cancel_run_def fail_run_def
  by (rule try_then_returns) (cases error, simp_all add: store_call_returns)

lemma replay_completed_returns_always: "returns (replay_completed E r x)"
  unfolding replay_completed_def
  by (rule try_then_returns [OF store_call_returns])
    (simp add: Let_def split: option.splits TerminalState.splits)

lemma model_step_returns:
  assumes "responsive E"
  shows "returns (model_step E request x)"
proof -
  have "returns (stream_loop E r round (s, engine_model E request w))" for r round s w
    using assms stream_loop_iff [of E r round s "engine_model E request w"]
    by (auto simp: responsive_def returns_def)
  then show ?thesis
    unfolding model_step_def by (intro try_then_returns store_call_returns) (simp split: prod.splits)
qed

lemma refuse_truncated_returns: "returns (refuse_truncated E r requests x)"
  by (induction requests arbitrary: x)
    (simp_all add: Let_def record_capability_completion_def try_then_returns store_call_returns)

lemma run_capability_returns:
  assumes "responsive E"
  shows "returns (run_capability E caps request x)"
proof -
  obtain result w where call: "host_execute E request (snd x) = (result, w)" by force
  then have "result \<noteq> Unfinished" using assms by (metis fst_conv responsive_def)
  then show ?thesis using call by (simp add: run_capability_def Let_def split: TaskResult.splits)
qed

lemma execute_capabilities_returns:
  "responsive E \<Longrightarrow> returns (execute_capabilities E r caps requests x)"
  by (induction requests arbitrary: x)
    (simp_all add: record_capability_completion_def try_then_returns store_call_returns run_capability_returns)

lemma capability_batch_returns: "responsive E \<Longrightarrow> returns (capability_batch E r command response caps x)"
  by (simp add: capability_batch_def try_then_returns store_call_returns refuse_truncated_returns
      execute_capabilities_returns)

lemma round_loop_returns:
  assumes "responsive E"
  shows "returns (round_loop left E r command agent caps round msgs x)"
proof (induction left arbitrary: round msgs x)
  case 0
  show ?case by (simp add: terminal_error_returns)
next
  case (Suc left)
  obtain s w where x: "x = (s, w)" by force
  obtain stop w1 where w1: "is_cancelled E w = (stop, w1)" by force
  obtain step x1 where step: "model_step E (build_request r round (instructions agent) msgs caps) (s, w1) = Some (step, x1)"
    by (rule returnsE [OF model_step_returns [OF assms]])
  show ?case
  proof (cases step)
    case (Inl e)
    then show ?thesis using w1 step by (simp add: x terminal_error_returns)
  next
    case (Inr response)
    obtain batch s2 w2 where "capability_batch E r command response caps x1 = Some (batch, (s2, w2))"
      by (rule returnsE [OF capability_batch_returns [OF assms]]) force
    then show ?thesis
      using w1 step Inr Suc.IH
      by (simp add: x terminal_error_returns complete_run_returns split: sum.splits prod.splits)
  qed
qed

lemma engine_run_returns:
  assumes "responsive E"
  shows "returns (engine_run E command agent x)"
  unfolding engine_run_def
proof (intro try_then_returns store_call_returns)
  show "returns (case admission of
         Existing r \<Rightarrow> replay_completed E r x
       | Conflict r \<Rightarrow> Some (Inl (CommandConflict r), x)
       | Admitted r \<Rightarrow>
           round_loop (max_model_rounds E) E r command agent
             (filter (\<lambda>capability. List.member (capability_grants agent) (spec_name capability))
               (host_specs E (snd x)))
             0 [UserMessage (input_text (envelope_input command))] x)" for admission x
    by (cases admission) (simp_all add: replay_completed_returns_always round_loop_returns [OF assms])
qed

end
