(* ===== verification/Run_Outcomes.thy ===== *)
theory Run_Outcomes
  imports Run_Streams
begin

section \<open>What a run leaves behind\<close>

text \<open>
  The engine on any store that meets the contract \<open>run_store\<close>: every way out of \<open>engine_run\<close>
  leaves the run it owns in the state its result says, with as many requested model rounds in
  its transcript as the result counts, and leaves every other run alone; and \<open>engine_run\<close> does
  return when the model streams answer and the capabilities finish. The lemmas are proved once in
  the contract and used through its interpretation on the SQLite store.
\<close>

definition requested :: "'j RunEventKind list \<Rightarrow> nat" where
  "requested ks = length (filter is_model_requested ks)"

lemma requested_simps [simp]:
  "requested [] = 0"
  "requested (ks @ ks') = requested ks + requested ks'"
  "requested (k # ks) = (if is_model_requested k then Suc (requested ks) else requested ks)"
  by (simp_all add: requested_def)

lemma requested_events:
  "length (filter (\<lambda>e. is_model_requested (event_kind e)) evs) = requested (map event_kind evs)"
  by (simp add: requested_def filter_map comp_def)

text \<open>The terminal state that records an error; admission and store errors record none.\<close>

definition error_state :: "EngineError \<Rightarrow> TerminalState option" where
  "error_state error = (case error of
     EngineCancelled \<Rightarrow> Some (RunCancelled (str ''caller cancelled the run''))
   | CapabilityBatchTooLarge actual limit \<Rightarrow> Some (RunFailed (str ''model returned '' @ show_nat actual @
       str '' capability calls; the per-response limit is '' @ show_nat limit))
   | CapabilityTask message \<Rightarrow> Some (RunFailed (str ''capability task failed: '' @ message))
   | EngineModel message \<Rightarrow> Some (RunFailed (str ''model invocation failed: '' @ message))
   | RoundLimit limit \<Rightarrow>
       Some (RunFailed (str ''the model exceeded the configured round limit of '' @ show_nat limit))
   | CommandAlreadyAdmitted _ \<Rightarrow> None
   | CommandConflict _ \<Rightarrow> None
   | EngineStore _ \<Rightarrow> None)"

text \<open>The errors a round may end with: admission errors are not among them.\<close>

definition round_error :: "EngineError \<Rightarrow> bool" where
  "round_error e = (case e of CommandAlreadyAdmitted _ \<Rightarrow> False | CommandConflict _ \<Rightarrow> False | _ \<Rightarrow> True)"

lemma round_error_state: "round_error e \<Longrightarrow> error_state e = None \<Longrightarrow> \<exists>d. e = EngineStore d"
  by (cases e) (simp_all add: round_error_def error_state_def)

text \<open>
  From the views \<open>v0\<close> only run \<open>r\<close> was touched; it is open with \<open>n\<close> requested rounds, or it
  ended with \<open>t\<close> after them.
\<close>

definition running ::
  "CommandEnvelope \<Rightarrow> ResolvedAgent \<Rightarrow> Uuid \<Rightarrow> (Uuid \<Rightarrow> 'j RunTranscript option) \<Rightarrow> nat \<Rightarrow>
   (Uuid \<Rightarrow> 'j RunTranscript option) \<Rightarrow> bool" where
  "running c a r v0 n v \<longleftrightarrow> touches v0 r v \<and> (\<exists>ks. open_run c a ks (v r) \<and> requested ks = n)"

text \<open>After a step on an open run it is still open, and the step's error is a round's.\<close>

definition kept_running ::
  "CommandEnvelope \<Rightarrow> ResolvedAgent \<Rightarrow> Uuid \<Rightarrow> (Uuid \<Rightarrow> 'j RunTranscript option) \<Rightarrow> nat \<Rightarrow>
   EngineError + 'a \<Rightarrow> (Uuid \<Rightarrow> 'j RunTranscript option) \<Rightarrow> bool" where
  "kept_running c a r v0 n res v \<longleftrightarrow> running c a r v0 n v \<and>
     (case res of Inl e \<Rightarrow> round_error e | Inr _ \<Rightarrow> True)"

definition ended ::
  "CommandEnvelope \<Rightarrow> ResolvedAgent \<Rightarrow> Uuid \<Rightarrow> (Uuid \<Rightarrow> 'j RunTranscript option) \<Rightarrow> TerminalState \<Rightarrow> nat \<Rightarrow>
   (Uuid \<Rightarrow> 'j RunTranscript option) \<Rightarrow> bool" where
  "ended c a r v0 t n v \<longleftrightarrow> touches v0 r v \<and> (\<exists>ks. closed_run c a t ks (v r) \<and> requested ks = n)"

definition settled ::
  "CommandEnvelope \<Rightarrow> ResolvedAgent \<Rightarrow> Uuid \<Rightarrow> (Uuid \<Rightarrow> 'j RunTranscript option) \<Rightarrow> nat \<Rightarrow>
   EngineError + AgentRunResult \<Rightarrow> (Uuid \<Rightarrow> 'j RunTranscript option) \<Rightarrow> bool" where
  "settled c a r v0 bound res v \<longleftrightarrow> (case res of
     Inr out \<Rightarrow> result_run out = r \<and> model_rounds out \<le> bound \<and>
       ended c a r v0 (RunCompleted (result_output out)) (model_rounds out) v
   | Inl e \<Rightarrow> (case error_state e of
       None \<Rightarrow> (\<exists>d. e = EngineStore d) \<and> (\<exists>n \<le> bound. running c a r v0 n v)
     | Some t \<Rightarrow> \<exists>n \<le> bound. ended c a r v0 t n v))"

text \<open>
  What the transcripts say of a result. A success is the completed run of this command and agent
  with that output and that many requested rounds. An error that is recorded ended a new run of
  the command with that error's state. A conflict and an admitted command that did not complete
  name the run that has the command's identity, and nothing has changed. A store error leaves
  everything as it was, or a new run of the command that is still open. No new run requests more
  rounds than the limit.
\<close>

definition run_added ::
  "('s, 'w, 'j) Engine \<Rightarrow> CommandEnvelope \<Rightarrow> ResolvedAgent \<Rightarrow> (Uuid \<Rightarrow> 'j RunTranscript option) \<Rightarrow>
   TerminalState option \<Rightarrow> (Uuid \<Rightarrow> 'j RunTranscript option) \<Rightarrow> bool" where
  "run_added E c a v end_state v' \<longleftrightarrow> (\<exists>r t. v r = None \<and> touches v r v' \<and> v' r = Some t \<and>
     run_command (transcript_run t) = c \<and> run_agent (transcript_run t) = a \<and>
     run_terminal (transcript_run t) = end_state \<and>
     requested (map event_kind (transcript_events t)) \<le> max_model_rounds E)"

definition run_recorded ::
  "('s, 'w, 'j) Engine \<Rightarrow> CommandEnvelope \<Rightarrow> ResolvedAgent \<Rightarrow> (Uuid \<Rightarrow> 'j RunTranscript option) \<Rightarrow>
   EngineError + AgentRunResult \<Rightarrow> (Uuid \<Rightarrow> 'j RunTranscript option) \<Rightarrow> bool" where
  "run_recorded E c a v res v' \<longleftrightarrow> (case res of
      Inr out \<Rightarrow> (\<exists>t. v' (result_run out) = Some t \<and> run_command (transcript_run t) = c \<and>
        run_agent (transcript_run t) = a \<and>
        run_terminal (transcript_run t) = Some (RunCompleted (result_output out)) \<and>
        requested (map event_kind (transcript_events t)) = model_rounds out \<and>
        model_rounds out \<le> (if v (result_run out) = None then max_model_rounds E else u32_max)) \<and>
        (if v (result_run out) = None then touches v (result_run out) v' else v' = v)
    | Inl (CommandConflict r) \<Rightarrow> v' = v \<and> (\<exists>t. v r = Some t \<and>
        envelope_id (run_command (transcript_run t)) = envelope_id c \<and>
        \<not> (run_command (transcript_run t) = c \<and> run_agent (transcript_run t) = a))
    | Inl (CommandAlreadyAdmitted r) \<Rightarrow> v' = v \<and> (\<exists>t. v r = Some t \<and>
        run_command (transcript_run t) = c \<and> run_agent (transcript_run t) = a \<and>
        (\<forall>output. run_terminal (transcript_run t) \<noteq> Some (RunCompleted output)))
    | Inl (EngineStore _) \<Rightarrow> v' = v \<or> run_added E c a v None v'
    | Inl e \<Rightarrow> run_added E c a v (error_state e) v')"

lemma touches_trans: "touches u r v \<Longrightarrow> touches v r w \<Longrightarrow> touches u r w"
  by (simp add: touches_def)

lemma try_then_cases:
  assumes "try_then r f = Some (res, x)"
  obtains e where "r = Some (Inl e, x)" and "res = Inl e"
  | b y where "r = Some (Inr b, y)" and "f b y = Some (res, x)"
  using assms by (auto simp: try_then_def split: option.splits prod.splits sum.splits)

lemma store_call_cases:
  assumes "store_call call (s, w) = Some (res, (s', w'))"
  obtains e where "call s = (Inl e, s')" and "res = Inl (EngineStore e)" and "w' = w"
  | b where "call s = (Inr b, s')" and "res = Inr b" and "w' = w"
  using assms by (cases "call s"; cases "fst (call s)") (auto simp: store_call_def)

lemma run_capability_store:
  "run_capability E caps request (s, w) = Some (res, (s', w')) \<Longrightarrow>
   s' = s \<and> (case res of Inl e \<Rightarrow> round_error e | Inr _ \<Rightarrow> True)"
  by (auto simp: run_capability_def Let_def round_error_def split: if_splits prod.splits TaskResult.splits)

lemma try_map_Inl: "try_map f xs = Inl e \<Longrightarrow> \<exists>x \<in> set xs. f x = Inl e"
  by (induction xs) (auto simp: and_then_def split: sum.splits)

lemma capability_requests_error: "capability_requests E r command calls = Inl e \<Longrightarrow> round_error e"
  unfolding capability_requests_def by (drule try_map_Inl) (auto simp: round_error_def split: if_splits)

lemma engine_run_eq:
  assumes "admit_run (engine_store E) c a s = (adm, s1)"
  shows "engine_run E c a (s, w) = (case adm of
      Inl e \<Rightarrow> Some (Inl (EngineStore e), (s1, w))
    | Inr (Existing r) \<Rightarrow> replay_completed E r (s1, w)
    | Inr (Conflict r) \<Rightarrow> Some (Inl (CommandConflict r), (s1, w))
    | Inr (Admitted r) \<Rightarrow> round_loop (max_model_rounds E) E r c a
        (filter (\<lambda>capability. List.member (capability_grants a) (spec_name capability)) (host_specs E w))
        0 [UserMessage (input_text (envelope_input c))] (s1, w))"
  using assms by (simp add: engine_run_def store_call_def try_then_def split: sum.splits RunAdmission.splits)

lemma stream_yields_error: "stream_yields E w out w' \<Longrightarrow> out = Inl e \<Longrightarrow> round_error e"
  by (induction rule: stream_yields.induct) (auto simp: round_error_def)

context run_store
begin

lemma append_running:
  assumes "ok s" and "running c a r v0 n (view s)" and "list_all progress ks"
    and "store_call (append_events S r ks) (s, w) = Some (res, (s', w'))"
  shows "ok s' \<and> w' = w \<and> (case res of
      Inl e \<Rightarrow> (\<exists>d. e = EngineStore d) \<and> running c a r v0 n (view s')
    | Inr _ \<Rightarrow> running c a r v0 (n + requested ks) (view s'))"
proof -
  obtain ks0 where ks0: "open_run c a ks0 (view s r)" "requested ks0 = n" and t: "touches v0 r (view s)"
    using assms(2) by (auto simp: running_def)
  from assms(4) show ?thesis
  proof (cases rule: store_call_cases)
    case (1 e)
    then show ?thesis using append_open [OF assms(1) ks0(1) assms(3) 1(1)] ks0 touches_trans [OF t]
      by (auto simp: running_def)
  next
    case (2 u)
    then show ?thesis using append_open [OF assms(1) ks0(1) assms(3) 2(1)] ks0 touches_trans [OF t]
      by (fastforce simp: running_def)
  qed
qed

lemma finish_running:
  assumes "ok s" and "running c a r v0 n (view s)"
    and "store_call (finish_run S r t) (s, w) = Some (res, (s', w'))"
  shows "ok s' \<and> w' = w \<and> (case res of
      Inl e \<Rightarrow> (\<exists>d. e = EngineStore d) \<and> running c a r v0 n (view s')
    | Inr _ \<Rightarrow> ended c a r v0 t n (view s'))"
proof -
  obtain ks0 where ks0: "open_run c a ks0 (view s r)" "requested ks0 = n" and t: "touches v0 r (view s)"
    using assms(2) by (auto simp: running_def)
  from assms(3) show ?thesis
  proof (cases rule: store_call_cases)
    case (1 e)
    then show ?thesis using finish_open [OF assms(1) ks0(1) 1(1)] ks0 touches_trans [OF t]
      by (auto simp: running_def)
  next
    case (2 u)
    then show ?thesis using finish_open [OF assms(1) ks0(1) 2(1)] ks0 touches_trans [OF t]
      by (auto simp: ended_def)
  qed
qed

lemma terminal_error_settles:
  assumes "engine_store E = S" and "ok s" and "running c a r v0 n (view s)"
    and "terminal_error E r error (s, w) = Some (res, (s', w'))" and bound: "n \<le> bound"
    and "round_error error"
  shows "ok s' \<and> settled c a r v0 bound res (view s')"
proof (cases "error_state error")
  case None
  then have "res = Inl error \<and> s' = s"
    using assms(4) by (auto simp: terminal_error_def error_state_def try_then_def split: EngineError.splits)
  then show ?thesis using assms None round_error_state [OF assms(6)] by (auto simp: settled_def)
next
  case (Some t)
  then have "try_then (store_call (finish_run S r t) (s, w)) (\<lambda>_ x. Some (Inl error, x)) = Some (res, (s', w'))"
    using assms(1,4) by (auto simp: terminal_error_def error_state_def cancel_run_def fail_run_def
        split: EngineError.splits)
  then show ?thesis
  proof (cases rule: try_then_cases)
    case (1 e)
    show ?thesis
      using finish_running [OF assms(2,3) 1(1)] 1(2) bound by (auto simp: settled_def error_state_def)
  next
    case (2 u y)
    then show ?thesis
      using finish_running [OF assms(2,3), of t w "Inr u" s' w'] Some bound by (auto simp: settled_def)
  qed
qed

lemma complete_run_settles:
  assumes "engine_store E = S" and "ok s" and "running c a r v0 n (view s)" and "n \<le> bound"
    and "complete_run E r output n (s, w) = Some (res, (s', w'))"
  shows "ok s' \<and> settled c a r v0 bound res (view s')"
proof -
  from assms(5) have "try_then (store_call (finish_run S r (RunCompleted output)) (s, w)) (\<lambda>_ x.
     Some (Inr \<lparr>result_run = r, result_output = output, model_rounds = n\<rparr>, x)) = Some (res, (s', w'))"
    using assms(1) by (simp add: complete_run_def)
  then show ?thesis
  proof (cases rule: try_then_cases)
    case (1 e)
    show ?thesis
      using finish_running [OF assms(2,3) 1(1)] 1(2) assms(4) by (auto simp: settled_def error_state_def)
  next
    case (2 u y)
    then show ?thesis
      using finish_running [OF assms(2,3), of "RunCompleted output" w "Inr u" s' w'] assms(4)
      by (auto simp: settled_def)
  qed
qed

text \<open>A step that succeeds leaves the run open with \<open>m\<close> requested rounds, one that fails leaves
  it open.\<close>

lemma stream_loop_running:
  assumes "engine_store E = S" and "ok s" and "running c a r v0 n (view s)"
    and "stream_loop E r round (s, w) = Some (res, (s', w'))"
  shows "ok s' \<and> kept_running c a r v0 n res (view s')"
proof -
  obtain out w1 where out: "stream_yields E w out w1"
    and result: "stream_result E r round s out w1 = Some (res, (s', w'))"
    using stream_loop_yields [OF assms(4)] by auto
  show ?thesis
  proof (cases out)
    case (Inl e)
    then show ?thesis using stream_yields_error [OF out] result assms by (auto simp: stream_result_def kept_running_def)
  next
    case (Inr response)
    then have "try_then (store_call (append_events S r [ModelResponded round response]) (s, w1))
        (\<lambda>_ x. Some (Inr response, x)) = Some (res, (s', w'))"
      using result assms(1) by (simp add: stream_result_def)
    moreover have "list_all progress [ModelResponded round response]" by (simp add: progress_def)
    ultimately show ?thesis
      using append_running [OF assms(2,3), of "[ModelResponded round response]" w1]
      by (cases rule: try_then_cases) (fastforce simp: is_model_requested_def round_error_def kept_running_def)+
  qed
qed

lemma model_step_running:
  assumes "engine_store E = S" and "ok s" and "running c a r v0 n (view s)"
    and "model_step E (build_request r round instr msgs caps) (s, w) = Some (res, (s', w'))"
  shows "ok s' \<and> (case res of Inl e \<Rightarrow> round_error e \<and> (\<exists>m \<le> Suc n. running c a r v0 m (view s'))
    | Inr _ \<Rightarrow> running c a r v0 (Suc n) (view s'))"
proof -
  let ?request = "build_request r round instr msgs caps"
  have kinds: "list_all progress [ModelRequested round]" by (simp add: progress_def)
  have "try_then (store_call (append_events S r [ModelRequested round]) (s, w))
     (\<lambda>_ (s, w). stream_loop E r round (s, engine_model E ?request w)) = Some (res, (s', w'))"
    using assms(1,4) by (simp add: model_step_def build_request_def)
  then show ?thesis
  proof (cases rule: try_then_cases)
    case (1 e)
    then show ?thesis
      using append_running [OF assms(2,3) kinds 1(1)] by (auto simp: round_error_def intro: le_SucI)
  next
    case (2 u y)
    obtain s1 w1 where y: "y = (s1, w1)" by force
    have "ok s1" "running c a r v0 (Suc n) (view s1)"
      using append_running [OF assms(2,3) kinds 2(1) [unfolded y]] by (simp_all add: is_model_requested_def)
    then show ?thesis
      using stream_loop_running [OF assms(1), of s1 c a r v0 "Suc n" round "engine_model E ?request w1" res s' w'] 2(2) y
      by (cases res) (auto simp: kept_running_def)
  qed
qed

lemma record_running:
  assumes "engine_store E = S" and "ok s" and "running c a r v0 n (view s)"
    and "record_capability_completion E r request outcome (s, w) = Some (res, (s', w'))"
  shows "ok s' \<and> kept_running c a r v0 n res (view s')"
proof -
  let ?ks = "[CapabilityCompleted (request_ordinal request) (call_id (request_call request)) outcome]"
  have "list_all progress ?ks" by (simp add: progress_def)
  then show ?thesis
    using append_running [OF assms(2,3), of ?ks w res s' w'] assms(1,4)
    by (cases res) (auto simp: record_capability_completion_def is_model_requested_def round_error_def kept_running_def)
qed

text \<open>What comes after a step on an open run, when both keep it open.\<close>

lemma then_running:
  assumes "try_then m f = Some (res, (s', w'))"
    and first: "\<And>r1 s1 w1. m = Some (r1, (s1, w1)) \<Longrightarrow> ok s1 \<and> kept_running c a r v0 n r1 (view s1)"
    and second: "\<And>b s1 w1 res. m = Some (Inr b, (s1, w1)) \<Longrightarrow> ok s1 \<Longrightarrow> running c a r v0 n (view s1) \<Longrightarrow>
      f b (s1, w1) = Some (res, (s', w')) \<Longrightarrow> ok s' \<and> kept_running c a r v0 n res (view s')"
  shows "ok s' \<and> kept_running c a r v0 n res (view s')"
  using assms(1)
proof (cases rule: try_then_cases)
  case (1 e)
  then show ?thesis using first [of "Inl e" s' w'] by (simp add: kept_running_def)
next
  case (2 b y)
  obtain s1 w1 where y: "y = (s1, w1)" by force
  from first [OF 2(1) [unfolded y]] second [OF 2(1) [unfolded y] _ _ 2(2) [unfolded y]] show ?thesis
    by (simp add: kept_running_def)
qed

lemma refuse_truncated_running:
  assumes "engine_store E = S" and "ok s" and "running c a r v0 n (view s)"
    and "refuse_truncated E r requests (s, w) = Some (res, (s', w'))"
  shows "ok s' \<and> kept_running c a r v0 n res (view s')"
  using assms(2-)
proof (induction requests arbitrary: s w res s' w')
  case (Cons request requests)
  show ?case
  proof (rule then_running [OF Cons.prems(3) [unfolded refuse_truncated.simps Let_def]])
    fix res1 s1 w1 res2
    assume "ok s1" "running c a r v0 n (view s1)"
      and rest: "try_then (refuse_truncated E r requests (s1, w1)) (\<lambda>outcomes x.
        Some (Inr ((request, capability_error (error_value E)
          (str ''capability call was not executed because the model response was truncated'')) # outcomes), x)) =
        Some (res2, (s', w'))"
    then show "ok s' \<and> kept_running c a r v0 n res2 (view s')"
      by (intro then_running [OF rest]) (auto simp: kept_running_def dest: Cons.IH)
  qed (rule record_running [OF assms(1) Cons.prems(1,2)])
qed (auto simp: kept_running_def)

lemma execute_capabilities_running:
  assumes "engine_store E = S" and "ok s" and "running c a r v0 n (view s)"
    and "execute_capabilities E r caps requests (s, w) = Some (res, (s', w'))"
  shows "ok s' \<and> kept_running c a r v0 n res (view s')"
  using assms(2-)
proof (induction requests arbitrary: s w res s' w')
  case (Cons request requests)
  show ?case
  proof (rule then_running [OF Cons.prems(3) [unfolded execute_capabilities.simps]])
    fix outcome s1 w1 res1
    assume now: "ok s1" "running c a r v0 n (view s1)"
      and rest: "try_then (record_capability_completion E r request outcome (s1, w1)) (\<lambda>_ x.
        try_then (execute_capabilities E r caps requests x) (\<lambda>outcomes x.
          Some (Inr ((request, outcome) # outcomes), x))) = Some (res1, (s', w'))"
    show "ok s' \<and> kept_running c a r v0 n res1 (view s')"
    proof (rule then_running [OF rest record_running [OF assms(1) now]])
      fix u s2 w2 res2
      assume "ok s2" "running c a r v0 n (view s2)"
        and rest: "try_then (execute_capabilities E r caps requests (s2, w2)) (\<lambda>outcomes x.
          Some (Inr ((request, outcome) # outcomes), x)) = Some (res2, (s', w'))"
      then show "ok s' \<and> kept_running c a r v0 n res2 (view s')"
        by (intro then_running [OF rest]) (auto simp: kept_running_def dest: Cons.IH)
    qed
  qed (use Cons.prems(1,2) in \<open>auto simp: kept_running_def dest!: run_capability_store\<close>)
qed (auto simp: kept_running_def)

lemma capability_batch_running:
  assumes "engine_store E = S" and "ok s" and "running c a r v0 n (view s)"
    and "capability_batch E r command response caps (s, w) = Some (res, (s', w'))"
  shows "ok s' \<and> kept_running c a r v0 n res (view s')"
proof (cases "length (capability_calls response) > max_capability_calls_per_response E")
  case False
  then have "try_then (Some (capability_requests E r command (capability_calls response), (s, w))) (\<lambda>requests x.
      try_then (store_call (append_events S r
          (map (\<lambda>request. CapabilityRequested (request_ordinal request) (request_call request)) requests)) x)
        (\<lambda>_ x. if truncated response then refuse_truncated E r requests x
         else execute_capabilities E r caps requests x)) = Some (res, (s', w'))"
    using assms(1,4) by (simp add: capability_batch_def)
  then show ?thesis
  proof (rule then_running)
    fix requests s1 w1 res1
    assume now: "ok s1" "running c a r v0 n (view s1)"
      and rest: "try_then (store_call (append_events S r
          (map (\<lambda>request. CapabilityRequested (request_ordinal request) (request_call request)) requests)) (s1, w1))
        (\<lambda>_ x. if truncated response then refuse_truncated E r requests x
         else execute_capabilities E r caps requests x) = Some (res1, (s', w'))"
    let ?ks = "map (\<lambda>request. CapabilityRequested (request_ordinal request) (request_call request)) requests"
    have "list_all progress ?ks" and "requested ?ks = 0"
      by (simp_all add: list_all_iff progress_def requested_def filter_empty_conv is_model_requested_def)
    then have append: "ok s2 \<and> kept_running c a r v0 n res2 (view s2)"
      if "store_call (append_events S r ?ks) (s1, w1) = Some (res2, (s2, w2))" for res2 s2 w2
      using append_running [OF now _ that] by (auto simp: kept_running_def round_error_def split: sum.splits)
    show "ok s' \<and> kept_running c a r v0 n res1 (view s')"
      by (rule then_running [OF rest append])
        (auto split: if_splits dest: refuse_truncated_running [OF assms(1)] execute_capabilities_running [OF assms(1)])
  next
    fix r1 s1 w1
    assume "Some (capability_requests E r command (capability_calls response), (s, w)) = Some (r1, (s1, w1))"
    then show "ok s1 \<and> kept_running c a r v0 n r1 (view s1)"
      using assms capability_requests_error [of E r command "capability_calls response"]
      by (auto simp: kept_running_def split: sum.splits)
  qed
qed (use assms in \<open>auto simp: capability_batch_def kept_running_def round_error_def\<close>)

lemma round_loop_settles:
  assumes "engine_store E = S" and "ok s" and "running c a r v0 round (view s)"
    and "round_loop left E r command agent caps round msgs (s, w) = Some (res, (s', w'))"
  shows "ok s' \<and> settled c a r v0 (round + left) res (view s')"
  using assms(2-)
proof (induction left arbitrary: round msgs s w)
  case 0
  show ?case
    using terminal_error_settles [OF assms(1) 0(1,2), of _ w res s' w' round] 0(3) by (simp add: round_error_def)
next
  case (Suc left)
  obtain stop w1 where w1: "is_cancelled E w = (stop, w1)" by force
  let ?request = "build_request r round (instructions agent) msgs caps"
  have cancelled: "round_error EngineCancelled" by (simp add: round_error_def)
  show ?case
  proof (cases stop)
    case True
    then show ?thesis
      using Suc.prems(3) w1 cancelled
        terminal_error_settles [OF assms(1) Suc.prems(1,2), of EngineCancelled w1 res s' w' "round + Suc left"] by simp
  next
    case False
    then obtain step s1 w2 where step: "model_step E ?request (s, w1) = Some (step, (s1, w2))"
      using Suc.prems(3) w1 by (cases "model_step E ?request (s, w1)") auto
    note run = Suc.prems(3) [unfolded round_loop.simps w1 Let_def prod.case step option.case]
    note kept = model_step_running [OF assms(1) Suc.prems(1,2) step]
    show ?thesis
    proof (cases step)
      case (Inl e)
      then obtain m where "m \<le> Suc round" "running c a r v0 m (view s1)" and "ok s1" "round_error e" using kept by auto
      then show ?thesis
        using Inl False run terminal_error_settles [OF assms(1), of s1 c a r v0 m e w2 res s' w' "round + Suc left"] by simp
    next
      case (Inr response)
      have now: "ok s1" "running c a r v0 (Suc round) (view s1)" using kept Inr by auto
      show ?thesis
      proof (cases "capability_calls response = []")
        case True
        then show ?thesis
          using run False Inr complete_run_settles [OF assms(1) now, of "round + Suc left"] by simp
      next
        case calls: False
        then obtain batch s2 w3 where batch: "capability_batch E r command response caps (s1, w2) = Some (batch, (s2, w3))"
          using run False Inr by (cases "capability_batch E r command response caps (s1, w2)") auto
        have later: "ok s2" "kept_running c a r v0 (Suc round) batch (view s2)"
          using capability_batch_running [OF assms(1) now batch] by auto
        then have still: "running c a r v0 (Suc round) (view s2)" by (simp add: kept_running_def)
        obtain stop' w4 where w4: "is_cancelled E w3 = (stop', w4)" by force
        have failed: "ok s' \<and> settled c a r v0 (round + Suc left) res (view s')"
          if "terminal_error E r error (s2, w) = Some (res, (s', w'))" "round_error error" for error w
          by (rule terminal_error_settles [OF assms(1) later(1) still that(1) _ that(2)]) simp
        show ?thesis
        proof (cases batch)
          case (Inl e)
          then show ?thesis
            using run False \<open>step = Inr response\<close> calls batch later(2) failed [of e w3] by (simp add: kept_running_def)
        next
          case (Inr outcomes)
          then show ?thesis
            using run False \<open>step = Inr response\<close> calls batch w4 cancelled failed [of EngineCancelled w4]
              Suc.IH [OF later(1) still] by (auto split: if_splits)
        qed
      qed
    qed
  qed
qed

text \<open>What replaying a run returns, from the transcript the store loads.\<close>

lemma replay_completed_returns:
  assumes "engine_store E = S" and "ok s" and "replay_completed E r (s, w) = Some (res, (s', w'))"
  shows "ok s' \<and> view s' = view s \<and> (case res of
      Inr out \<Rightarrow> result_run out = r \<and> (\<exists>t. view s r = Some t \<and>
        run_terminal (transcript_run t) = Some (RunCompleted (result_output out)) \<and>
        requested (map event_kind (transcript_events t)) = model_rounds out) \<and> model_rounds out \<le> u32_max
    | Inl e \<Rightarrow> (\<exists>d. e = EngineStore d) \<or> (e = CommandAlreadyAdmitted r \<and> (\<forall>t output. view s r = Some t \<longrightarrow>
        run_terminal (transcript_run t) \<noteq> Some (RunCompleted output))))"
proof -
  obtain load s1 where load: "load_transcript S r s = (load, s1)" by force
  show ?thesis
    using assms(1,3) load load_law [OF assms(2) load]
    by (cases load) (auto simp: replay_completed_def store_call_def try_then_def requested_events Let_def
        split: option.splits TerminalState.splits if_splits)
qed

lemma settled_outcome:
  assumes "settled c a r v (max_model_rounds E) res v'" and "v r = None"
  shows "(\<forall>r tr. v r = Some tr \<longrightarrow> v' r = Some tr) \<and> run_recorded E c a v res v'"
proof
  have touched: "touches v r v'"
    using assms(1) by (auto simp: settled_def running_def ended_def split: sum.splits option.splits)
  then show "\<forall>r tr. v r = Some tr \<longrightarrow> v' r = Some tr"
    using assms(2) by (metis option.distinct(1) touches_def)
  show "run_recorded E c a v res v'"
  proof (cases res)
    case (Inr out)
    then show ?thesis
      using assms touched
      by (auto simp: settled_def ended_def closed_run_def run_recorded_def is_model_requested_def)
  next
    case (Inl e)
    have "run_added E c a v (error_state e) v'"
      using assms touched Inl
      by (auto simp: settled_def running_def ended_def open_run_def closed_run_def run_added_def
          is_model_requested_def split: option.splits)
    moreover have "round_error e" using assms(1) Inl
      by (cases e) (auto simp: settled_def round_error_def error_state_def)
    ultimately show ?thesis using Inl
      by (cases e) (auto simp: run_recorded_def round_error_def error_state_def)
  qed
qed

lemma engine_run_outcome:
  assumes "engine_store E = S" and "ok s" and "accepts c"
    and "engine_run E c a (s, w) = Some (res, (s', w'))"
  shows "ok s' \<and> (\<forall>r tr. view s r = Some tr \<longrightarrow> view s' r = Some tr) \<and>
    run_recorded E c a (view s) res (view s')"
proof -
  obtain adm s1 where adm: "admit_run S c a s = (adm, s1)" by force
  note law = admit_law [OF assms(2,3) adm]
  note run = assms(4) [unfolded engine_run_eq [OF adm [folded assms(1)]]]
  consider r where "adm = Inr (Admitted r)" | r where "adm = Inr (Existing r)"
    | r where "adm = Inr (Conflict r)" | e where "adm = Inl e"
    by (metis RunAdmission.exhaust sum.exhaust)
  then show ?thesis
  proof cases
    case (1 r)
    then have new: "ok s1" "view s r = None" "touches (view s) r (view s1)" "open_run c a [RunStarted c a] (view s1 r)"
      using law by (auto simp: admission_allowed_def)
    then have "running c a r (view s) 0 (view s1)" by (auto simp: running_def is_model_requested_def)
    then have "ok s' \<and> settled c a r (view s) (0 + max_model_rounds E) res (view s')"
      using round_loop_settles [OF assms(1) new(1) _ run [unfolded 1 sum.case RunAdmission.case]] by blast
    then show ?thesis using settled_outcome [of c a r "view s" E res "view s'"] new(2) by simp
  next
    case (2 r)
    then have same: "view s1 = view s" "ok s1" "\<exists>t. view s r = Some t \<and>
        run_command (transcript_run t) = c \<and> run_agent (transcript_run t) = a"
      using law by (auto simp: admission_allowed_def)
    have "replay_completed E r (s1, w) = Some (res, (s', w'))" using run 2 by simp
    from replay_completed_returns [OF assms(1) same(2) this] show ?thesis
      using same by (cases res) (auto simp: run_recorded_def)
  qed (use run law in \<open>auto simp: admission_allowed_def run_recorded_def error_state_def\<close>)
qed

text \<open>
  Running a command again whose run completed: the answer is the stored result, and an error is
  one that the store's own call gave.
\<close>

lemma engine_run_replays:
  assumes "engine_store E = S" and "ok s" and "accepts c" and view: "view s r = Some t"
    and t: "run_command (transcript_run t) = c" "run_agent (transcript_run t) = a"
      "run_terminal (transcript_run t) = Some (RunCompleted output)"
    and rounds: "requested (map event_kind (transcript_events t)) = n" "n \<le> u32_max"
  shows "engine_run E c a (s, w) = Some (case admit_run S c a s of
      (Inl d, s1) \<Rightarrow> (Inl (EngineStore d), (s1, w))
    | (Inr _, s1) \<Rightarrow> (case load_transcript S r s1 of
        (Inl d, s2) \<Rightarrow> (Inl (EngineStore d), (s2, w))
      | (Inr _, s2) \<Rightarrow> (Inr \<lparr>result_run = r, result_output = output, model_rounds = n\<rparr>, (s2, w))))"
proof -
  obtain adm s1 where adm: "admit_run S c a s = (adm, s1)" by force
  note law = admit_law [OF assms(2,3) adm]
  note run = engine_run_eq [OF adm [folded assms(1)]]
  show ?thesis
  proof (cases adm)
    case (Inl e)
    then show ?thesis using run adm by simp
  next
    case (Inr answer)
    have known: "answer = Existing r"
    proof (cases answer)
      case (Admitted r')
      then show ?thesis using law Inr view t(1) by (auto simp: admission_allowed_def)
    next
      case (Existing r')
      then obtain t' where "view s r' = Some t'" "run_command (transcript_run t') = c"
        using law Inr by (auto simp: admission_allowed_def)
      then have "r' = r" using view_unique [OF assms(2) _ view, of r' t'] t(1) by simp
      then show ?thesis using Existing by simp
    next
      case (Conflict r')
      then obtain t' where t': "view s r' = Some t'" "envelope_id (run_command (transcript_run t')) = envelope_id c"
        "\<not> (run_command (transcript_run t') = c \<and> run_agent (transcript_run t') = a)"
        using law Inr by (auto simp: admission_allowed_def)
      then have "r' = r" using view_unique [OF assms(2) _ view, of r' t'] t(1) by simp
      then show ?thesis using t' view t by simp
    qed
    then have same: "view s1 = view s" "ok s1" using law Inr by (auto simp: admission_allowed_def)
    obtain load s2 where load: "load_transcript S r s1 = (load, s2)" by force
    note loaded = load_law [OF same(2) load]
    show ?thesis
      using run adm Inr known load loaded same(1) view t(3) rounds assms(1)
      by (cases load) (auto simp: replay_completed_def store_call_def try_then_def requested_events Let_def)
  qed
qed

end

end
