(* ===== verification/Run_Grants.thy ===== *)
theory Run_Grants
  imports Run_Outcomes
begin

section \<open>What a run may execute\<close>

text \<open>
  The capability host is asked only for calls the agent was granted, and never for a call of a
  truncated response: replacing the host's behaviour on every other call changes nothing of any
  run.
\<close>

definition agrees :: "('s, 'w, 'j) Engine \<Rightarrow> ('j CapabilityRequest \<Rightarrow> 'w \<Rightarrow> 'j TaskResult \<times> 'w) \<Rightarrow>
    utext set \<Rightarrow> bool" where
  "agrees E f names \<longleftrightarrow>
     (\<forall>request w. call_name (request_call request) \<in> names \<longrightarrow> f request w = host_execute E request w)"

lemma other_fields:
  "engine_model (E\<lparr>host_execute := f\<rparr>) = engine_model E"
  "next_event (E\<lparr>host_execute := f\<rparr>) = next_event E"
  "host_specs (E\<lparr>host_execute := f\<rparr>) = host_specs E"
  "is_cancelled (E\<lparr>host_execute := f\<rparr>) = is_cancelled E"
  "engine_store (E\<lparr>host_execute := f\<rparr>) = engine_store E"
  "max_model_rounds (E\<lparr>host_execute := f\<rparr>) = max_model_rounds E"
  "max_capability_calls_per_response (E\<lparr>host_execute := f\<rparr>) = max_capability_calls_per_response E"
  "error_value (E\<lparr>host_execute := f\<rparr>) = error_value E"
  by simp_all

lemma unaffected:
  "terminal_error (E\<lparr>host_execute := f\<rparr>) = terminal_error E"
  "complete_run (E\<lparr>host_execute := f\<rparr>) = complete_run E"
  "replay_completed (E\<lparr>host_execute := f\<rparr>) = replay_completed E"
  "record_capability_completion (E\<lparr>host_execute := f\<rparr>) = record_capability_completion E"
  "capability_requests (E\<lparr>host_execute := f\<rparr>) = capability_requests E"
  unfolding fun_eq_iff terminal_error_def complete_run_def replay_completed_def cancel_run_def
    fail_run_def record_capability_completion_def capability_requests_def other_fields by simp_all

lemma stream_yields_fields:
  "stream_yields E w out w' \<Longrightarrow> is_cancelled E' = is_cancelled E \<Longrightarrow> next_event E' = next_event E \<Longrightarrow>
   stream_yields E' w out w'"
  by (induction rule: stream_yields.induct) (auto intro: stream_yields.intros)

lemma stream_loop_unaffected: "stream_loop (E\<lparr>host_execute := f\<rparr>) r round x = stream_loop E r round x"
proof -
  let ?E = "E\<lparr>host_execute := f\<rparr>"
  obtain s w where x: "x = (s, w)" by force
  have result: "stream_result ?E = stream_result E" unfolding fun_eq_iff stream_result_def other_fields by simp
  show ?thesis
  proof (cases "\<exists>out w'. stream_yields E w out w'")
    case True
    then obtain out w' where "stream_yields E w out w'" by blast
    moreover from this have "stream_yields ?E w out w'" by (rule stream_yields_fields) simp_all
    ultimately show ?thesis by (simp only: x stream_yields_loop result)
  next
    case False
    then have "\<nexists>out w'. stream_yields ?E w out w'" by (metis other_fields(2,4) stream_yields_fields)
    with False show ?thesis
      unfolding x using stream_loop_iff [of E r round s w] stream_loop_iff [of ?E r round s w] by (metis option.exhaust)
  qed
qed

lemma model_step_unaffected: "model_step (E\<lparr>host_execute := f\<rparr>) request x = model_step E request x"
  unfolding model_step_def other_fields stream_loop_unaffected ..

lemma refuse_truncated_unaffected:
  "refuse_truncated (E\<lparr>host_execute := f\<rparr>) r requests x = refuse_truncated E r requests x"
proof (induction requests arbitrary: x)
  case (Cons request requests)
  show ?case unfolding refuse_truncated.simps other_fields unaffected Cons.IH ..
qed simp

lemma run_capability_agrees:
  assumes "agrees E f (spec_name ` set caps)"
  shows "run_capability (E\<lparr>host_execute := f\<rparr>) caps request x = run_capability E caps request x"
proof (cases "list_ex (\<lambda>capability. spec_name capability = call_name (request_call request)) caps")
  case True
  then have "call_name (request_call request) \<in> spec_name ` set caps"
    unfolding list_ex_iff by (metis image_eqI)
  then have "f request (snd x) = host_execute E request (snd x)"
    using assms by (simp add: agrees_def)
  then show ?thesis unfolding run_capability_def other_fields by simp
qed (simp add: run_capability_def)

lemma execute_capabilities_agrees:
  assumes "agrees E f (spec_name ` set caps)"
  shows "execute_capabilities (E\<lparr>host_execute := f\<rparr>) r caps requests x = execute_capabilities E r caps requests x"
proof (induction requests arbitrary: x)
  case (Cons request requests)
  show ?case
    unfolding execute_capabilities.simps unaffected run_capability_agrees [OF assms] Cons.IH ..
qed simp

lemma capability_batch_agrees:
  assumes "agrees E f (spec_name ` set caps)"
  shows "capability_batch (E\<lparr>host_execute := f\<rparr>) r command response caps x = capability_batch E r command response caps x"
  unfolding capability_batch_def other_fields unaffected refuse_truncated_unaffected
    execute_capabilities_agrees [OF assms] ..

lemma round_loop_agrees:
  assumes "agrees E f (spec_name ` set caps)"
  shows "round_loop left (E\<lparr>host_execute := f\<rparr>) r command agent caps round msgs x =
    round_loop left E r command agent caps round msgs x"
proof (induction left arbitrary: round msgs x)
  case (Suc left)
  obtain s w where x: "x = (s, w)" by force
  show ?case
    unfolding x round_loop.simps other_fields unaffected model_step_unaffected
      capability_batch_agrees [OF assms] Suc.IH ..
qed (simp add: unaffected)

lemma refuse_truncated_outcomes:
  "refuse_truncated E r requests x = Some (Inr outcomes, x') \<Longrightarrow>
   outcomes = map (\<lambda>request. (request, capability_error (error_value E)
     (str ''capability call was not executed because the model response was truncated''))) requests"
  by (induction requests arbitrary: x outcomes)
    (auto simp: try_then_def Let_def split: option.splits prod.splits sum.splits)

lemma capability_requests_calls:
  assumes "capability_requests E r command calls = Inr requests"
  shows "map request_call requests = calls"
proof -
  have "list_all2 (\<lambda>p request. request_call request = snd p) (enumerate 0 calls) requests"
    using assms unfolding capability_requests_def try_map_eq_Inr
    by (rule list_all2_mono) (auto split: if_splits)
  then have "map snd (enumerate 0 calls) = map request_call requests"
    by (induction rule: list_all2_induct) simp_all
  then show ?thesis by simp
qed

end
