(* ===== verification/Run_Sample.thy ===== *)
theory Run_Sample
  imports Run_Store
begin

section \<open>A concrete run ledger\<close>

text \<open>
  A codec that meets \<open>run_codec_ok\<close>, with a command, an agent and a store, at which the
  properties of the run ledger and of the engine are applied. JSON texts are terms, values are
  strings.
\<close>

datatype sample_json =
  UuidText Uuid
| CommandText CommandEnvelope
| AgentText ResolvedAgent
| TerminalText TerminalState
| KindText "utext RunEventKind"

definition sample_run_codec :: "(sample_json, utext) run_codec" where
  "sample_run_codec =
     \<lparr>uuid_text = UuidText,
      uuid_parse = (\<lambda>t. case t of UuidText u \<Rightarrow> Some u | _ \<Rightarrow> None),
      command_to_json = (\<lambda>c. Some (CommandText c)),
      command_from_json = (\<lambda>t. case t of CommandText c \<Rightarrow> if readable c then Some c else None | _ \<Rightarrow> None),
      agent_to_json = (\<lambda>a. Some (AgentText a)),
      agent_from_json = (\<lambda>t. case t of AgentText a \<Rightarrow> Some a | _ \<Rightarrow> None),
      terminal_to_json = (\<lambda>s. Some (TerminalText s)),
      terminal_from_json = (\<lambda>t. case t of TerminalText s \<Rightarrow> Some s | _ \<Rightarrow> None),
      kind_to_json = (\<lambda>k. Some (KindText k)),
      kind_from_json = (\<lambda>t. case t of KindText k \<Rightarrow> if readable_kind k then Some k else None | _ \<Rightarrow> None)\<rparr>"

lemma sample_run_codec_ok: "run_codec_ok sample_run_codec" and sample_codec_refuses: "refuses_oversized sample_run_codec"
  by (simp_all add: run_codec_ok_def refuses_oversized_def sample_run_codec_def)

definition sample_envelope :: CommandEnvelope where
  "sample_envelope =
     \<lparr>envelope_id = 7, principal_id = 1, surface = str ''cli'', envelope_target = str ''home'',
      envelope_input = from_text (str ''hello''), envelope_origin = None\<rparr>"

definition sample_agent :: ResolvedAgent where
  "sample_agent = \<lparr>instructions = str ''help'', capability_grants = [str ''clock'']\<rparr>"

lemma sample_readable: "readable sample_envelope"
  by (simp add: readable_def sample_envelope_def from_text_def)

text \<open>A command with eleven attachments.\<close>

definition sample_oversized :: CommandEnvelope where
  "sample_oversized = sample_envelope\<lparr>envelope_id := 8, envelope_input := TextInput (str ''hello'') None Principal False
     (replicate 11 \<lparr>upload_id = 1, attachment_name = str ''a.txt'', mime_type = str ''text/plain''\<rparr>)\<rparr>"

text \<open>A ledger of the time before command identities, with one run and no table of events.\<close>

definition legacy_ledger :: "sample_json Ledger" where
  "legacy_ledger =
     \<lparr>runs_table = True, events_table = False, events_index = False,
      command_id_column = False, command_id_index = False,
      runs = [\<lparr>row_run_id = UuidText 1, row_command_id = None,
        row_command_json = CommandText sample_envelope, row_agent_json = AgentText sample_agent,
        row_status = ''open'', row_terminal_json = None, row_next_sequence = 1,
        row_created_at_ms = 100, row_finished_at_ms = None\<rparr>],
      run_events = []\<rparr>"

end
