(* ===== verification/Run_Migration.thy ===== *)
theory Run_Migration
  imports Run_Ledger Run_Sample
begin

section \<open>Opening a run ledger\<close>

text \<open>
  What \<open>SqliteRunStore::open\<close> does to a ledger it finds (\<open>schema.rs\<close> of
  \<open>src/crates/renoa-store-sqlite\<close>): a current ledger is left as it is, and a ledger of the time
  before command identities gets the identity of every run or keeps its runs as they are.
\<close>

definition stored_command_id :: "('t, 'j) run_codec \<Rightarrow> 't run_row \<Rightarrow> 't" where
  "stored_command_id C row = uuid_text C (envelope_id (the (command_from_json C (row_command_json row))))"

lemma backfill_fold:
  "try_fold (backfill_command_id C) (map (\<lambda>row. (row_run_id row, row_command_json row)) xs) l =
     (if \<exists>x \<in> set xs. command_from_json C (row_command_json x) = None then Inl RunJsonError
      else Inr (l\<lparr>runs := fold (\<lambda>x. update_where (\<lambda>row. row_run_id row = row_run_id x)
        (row_command_id_update (\<lambda>_. Some (stored_command_id C x)))) xs (runs l)\<rparr>))"
proof (induction xs arbitrary: l)
  case (Cons x xs)
  then show ?case
    by (cases "command_from_json C (row_command_json x)")
      (simp_all add: backfill_command_id_def stored_command_id_def)
qed simp

lemma fold_update_keys:
  assumes "unique_on k xs" and "\<And>x r. k (f x r) = k r"
  shows "fold (\<lambda>x. update_where (\<lambda>r. k r = k x) (f x)) xs rows =
    map (\<lambda>r. case find (\<lambda>x. k x = k r) xs of None \<Rightarrow> r | Some x \<Rightarrow> f x r) rows"
  using assms(1)
proof (induction xs arbitrary: rows)
  case (Cons x xs)
  have "find (\<lambda>y. k y = k x) xs = None"
    unfolding find_None_iff_ball using Cons.prems by (metis (mono_tags) distinct.simps(2) image_eqI list.set_map list.simps(9) unique_on_def)
  then show ?case
    using Cons assms(2) by (auto simp: update_where_def unique_on_def eq_commute [of "k x"] intro!: map_cong)
qed simp

lemma backfilled_runs:
  assumes "unique_on row_run_id xs"
  shows "fold (\<lambda>x. update_where (\<lambda>row. row_run_id row = row_run_id x)
      (row_command_id_update (\<lambda>_. Some (stored_command_id C x)))) xs
      (map (row_command_id_update (\<lambda>_. None)) xs) =
    map (\<lambda>row. row\<lparr>row_command_id := Some (stored_command_id C row)\<rparr>) xs"
proof -
  have "find (\<lambda>x. row_run_id x = row_run_id row) xs = Some row" if "row \<in> set xs" for row
    using assms that by (intro find_unique [of row_run_id]) auto
  then show ?thesis
    by (subst fold_update_keys [OF assms]) (auto intro: map_cong)
qed

text \<open>
  C34 (functional): opening a ledger made before runs had a command identity gives every run the
  identity of its stored command and makes the unique index on it. When a stored command cannot
  be read, or two runs have the same command, opening fails and the runs are exactly as they
  were; a missing table of events or a missing index on it has been made all the same. A ledger
  that is already current is opened unchanged.
\<close>

theorem initialize_migrates:
  assumes "runs_table l" and "unique_on row_run_id (runs l)"
    and "command_id_index l \<longrightarrow> command_id_column l"
    and "l0 = l\<lparr>events_table := True, events_index := True,
      run_events := if events_table l then run_events l else []\<rparr>"
  shows "initialize_ledger C l =
    (if command_id_column l then
       (if command_id_index l then (Inr (), l0)
        else if distinct (filter (\<lambda>c. c \<noteq> None) (map row_command_id (runs l)))
        then (Inr (), l0\<lparr>command_id_index := True\<rparr>) else (Inl SqliteError, l0))
     else if \<exists>row \<in> set (runs l). command_from_json C (row_command_json row) = None
     then (Inl RunJsonError, l0)
     else if \<not> unique_on (stored_command_id C) (runs l) then (Inl SqliteError, l0)
     else (Inr (), l0\<lparr>command_id_column := True, command_id_index := True,
       runs := map (\<lambda>row. row\<lparr>row_command_id := Some (stored_command_id C row)\<rparr>) (runs l)\<rparr>))"
proof -
  have l0: "create_run_tables l = l0"
    using assms(1) by (cases l) (simp add: create_run_tables_def assms(4) Let_def)
  have ids: "map row_command_id (map (\<lambda>row. row\<lparr>row_command_id := Some (stored_command_id C row)\<rparr>) (runs l)) =
    map Some (map (stored_command_id C) (runs l))" by simp
  have unique: "distinct (map Some (map (stored_command_id C) (runs l))) \<longleftrightarrow>
    unique_on (stored_command_id C) (runs l)" unfolding unique_on_def by (subst distinct_map) simp
  show ?thesis
    using assms(3) unfolding initialize_ledger_def l0 migrate_command_identity_def Let_def
    by (cases "command_id_column l")
      (simp_all add: assms(4) backfill_fold backfilled_runs [OF assms(2)] ids unique del: map_map)
qed

theorem initialize_migrates_witness:
  "initialize_ledger sample_run_codec legacy_ledger =
    (Inr (), legacy_ledger\<lparr>events_table := True, events_index := True, run_events := [],
       command_id_column := True, command_id_index := True,
       runs := map (\<lambda>row. row\<lparr>row_command_id := Some (UuidText 7)\<rparr>) (runs legacy_ledger)\<rparr>)"
proof -
  have command: "command_from_json sample_run_codec (CommandText sample_envelope) = Some sample_envelope"
    using sample_readable by (simp add: sample_run_codec_def)
  have "stored_command_id sample_run_codec row = UuidText 7" if "row \<in> set (runs legacy_ledger)" for row
    using that command by (simp add: stored_command_id_def legacy_ledger_def)
      (simp add: sample_run_codec_def sample_envelope_def)
  then show ?thesis
    by (subst initialize_migrates [OF _ _ _ refl]) (simp_all add: legacy_ledger_def unique_on_def command)
qed

end
