(* ===== verification/Run_Properties.thy ===== *)
theory Run_Properties
  imports Run_Grants Run_Migration
begin

section \<open>Properties of the run ledger and the engine\<close>

text \<open>
  The properties of the earlier runtime that span its parts, each applied at the concrete ledger
  or engine below: what any sequence of transactions keeps of the ledger, and what a run of the
  engine on the SQLite store leaves in it.
\<close>

subsection \<open>A concrete history\<close>

definition sample_ledger_1 :: "sample_json Ledger" where
  "sample_ledger_1 = snd (projr (admit_run_tx sample_run_codec sample_envelope sample_agent 100 1 11
     (new_ledger sample_run_codec)))"

definition sample_ledger_2 :: "sample_json Ledger" where
  "sample_ledger_2 = snd (projr (append_events_tx sample_run_codec 1 [ModelRequested 0] 101 (\<lambda>_. 12) sample_ledger_1))"

definition sample_ledger_3 :: "sample_json Ledger" where
  "sample_ledger_3 = snd (projr (finish_run_tx sample_run_codec 1 (RunCompleted (str ''done'')) 102 13 sample_ledger_2))"

lemma sample_ledger_runs:
  "admit_run_tx sample_run_codec sample_envelope sample_agent 100 1 11 (new_ledger sample_run_codec) =
     Inr (Admitted 1, sample_ledger_1)"
  "append_events_tx sample_run_codec 1 [ModelRequested 0] 101 (\<lambda>_. 12) sample_ledger_1 = Inr ((), sample_ledger_2)"
  "finish_run_tx sample_run_codec 1 (RunCompleted (str ''done'')) 102 13 sample_ledger_2 = Inr ((), sample_ledger_3)"
  by code_simp+

lemma sample_history:
  "run_steps sample_run_codec (new_ledger sample_run_codec) sample_ledger_2"
  "run_step sample_run_codec sample_ledger_2 sample_ledger_3"
proof -
  have "run_step sample_run_codec (new_ledger sample_run_codec) sample_ledger_1"
    by (rule step_admit [OF sample_readable sample_ledger_runs(1)])
  moreover have "run_step sample_run_codec sample_ledger_1 sample_ledger_2"
    by (rule step_append [OF _ sample_ledger_runs(2)]) (simp add: progress_def)
  ultimately show "run_steps sample_run_codec (new_ledger sample_run_codec) sample_ledger_2" by simp
  show "run_step sample_run_codec sample_ledger_2 sample_ledger_3"
    by (rule step_finish [OF sample_ledger_runs(3)])
qed

lemma sample_run_reached: "run_steps sample_run_codec (new_ledger sample_run_codec) sample_ledger_3"
  using sample_history by (rule rtranclp.rtrancl_into_rtrancl)

subsection \<open>The ledger\<close>




text \<open>
  C28 (safety): the ledger is append-only, as long as the admitted commands have at most ten
  attachments and only a run's progress is appended, as the engine does. A run once readable stays readable with the same
  command, agent and start, its events are only extended, and after its terminal state was
  written its transcript never changes again: only one terminal writer wins.
\<close>

theorem run_history_append_only:
  assumes "run_codec_ok C" and "run_steps C (new_ledger C) l" and "run_steps C l l'"
    and "load_transcript_tx C r l = Inr tr"
  shows "\<exists>tr'. load_transcript_tx C r l' = Inr tr' \<and>
    run_command (transcript_run tr') = run_command (transcript_run tr) \<and>
    run_agent (transcript_run tr') = run_agent (transcript_run tr) \<and>
    run_created_at_ms (transcript_run tr') = run_created_at_ms (transcript_run tr) \<and>
    (\<exists>evs. transcript_events tr' = transcript_events tr @ evs) \<and>
    (run_terminal (transcript_run tr) \<noteq> None \<longrightarrow> tr' = tr)"
  using run_ledger.reachable_hist(2) [OF assms(2,3)] assms(1,4)
  by (simp add: ledger_later_def extends_def)

theorem run_history_append_only_witness:
  "\<exists>tr tr'. load_transcript_tx sample_run_codec 1 sample_ledger_2 = Inr tr \<and>
     load_transcript_tx sample_run_codec 1 sample_ledger_3 = Inr tr' \<and>
     (\<exists>evs. transcript_events tr' = transcript_events tr @ evs)"
proof -
  have "\<not> isl (load_transcript_tx sample_run_codec 1 sample_ledger_2)" by code_simp
  then obtain tr where "load_transcript_tx sample_run_codec 1 sample_ledger_2 = Inr tr"
    by (cases "load_transcript_tx sample_run_codec 1 sample_ledger_2") auto
  then show ?thesis
    using run_history_append_only [OF sample_run_codec_ok sample_history(1) r_into_rtranclp [of "run_step sample_run_codec",
        OF sample_history(2)]] by blast
qed

text \<open>
  C30 (functional): a command identity is admitted once. A command is admitted only when no run
  has its identity, and then its run starts with it; otherwise the ledger is unchanged and the
  answer is the stored run, as existing exactly when the command and the agent are the same and
  as a conflict exactly when one of them differs.
\<close>

theorem admission_decided:
  assumes "run_codec_ok C" and "run_steps C (new_ledger C) l" and "readable c"
    and "admit_run_tx C c a clock new_run e l = Inr (adm, l')"
  shows "(case adm of
      Admitted r \<Rightarrow> (\<exists>created. load_transcript_tx C r l' = Inr (started_transcript r c a created e)) \<and>
        (\<forall>r' tr. load_transcript_tx C r' l = Inr tr \<longrightarrow> envelope_id (run_command (transcript_run tr)) \<noteq> envelope_id c)
    | Existing r \<Rightarrow> l' = l \<and> (\<exists>tr. load_transcript_tx C r l = Inr tr \<and>
        run_command (transcript_run tr) = c \<and> run_agent (transcript_run tr) = a)
    | Conflict r \<Rightarrow> l' = l \<and> (\<exists>tr. load_transcript_tx C r l = Inr tr \<and>
        envelope_id (run_command (transcript_run tr)) = envelope_id c \<and>
        (run_command (transcript_run tr) \<noteq> c \<or> run_agent (transcript_run tr) \<noteq> a)))"
proof -
  have inv: "ledger_inv C l" using run_ledger.reachable_inv [OF assms(2)] assms(1) by simp
  show ?thesis
  proof (cases "\<exists>r. adm = Admitted r")
    case True
    then obtain r where r: "adm = Admitted r" by blast
    obtain created where new: "\<And>row. row \<in> set (runs l) \<Longrightarrow> row_command_id row \<noteq> Some (uuid_text C (envelope_id c))"
      "replaces C r (started_transcript r c a created e) l l'"
      using admit_run_admitted [OF assms(1) inv assms(3,4) [unfolded r]] by metis
    have "envelope_id (run_command (transcript_run tr)) \<noteq> envelope_id c"
      if tr: "load_transcript_tx C r' l = Inr tr" for r' tr
    proof -
      obtain row where "row \<in> set (runs l)" "run_stored C row (transcript_run tr)"
        using loaded_row [OF assms(1) inv tr] by metis
      then show ?thesis using new(1) by (auto simp: run_stored_def)
    qed
    then show ?thesis using new(2) r by (auto simp: replaces_def)
  next
    case False
    then obtain r tr where "l' = l" "load_transcript_tx C r l = Inr tr"
      "envelope_id (run_command (transcript_run tr)) = envelope_id c"
      "adm = (if run_command (transcript_run tr) = c \<and> run_agent (transcript_run tr) = a
        then Existing r else Conflict r)"
      using admit_run_known [OF assms(1) inv assms(3,4)] by metis
    then show ?thesis by auto
  qed
qed

theorem admission_decided_witness:
  "admit_run_tx sample_run_codec sample_envelope sample_agent 103 2 14 sample_ledger_3 =
     Inr (Existing 1, sample_ledger_3) \<and>
   (\<exists>tr. load_transcript_tx sample_run_codec 1 sample_ledger_3 = Inr tr \<and>
      run_command (transcript_run tr) = sample_envelope \<and> run_agent (transcript_run tr) = sample_agent)"
proof -
  have run: "admit_run_tx sample_run_codec sample_envelope sample_agent 103 2 14 sample_ledger_3 =
     Inr (Existing 1, sample_ledger_3)" by code_simp
  from admission_decided [OF sample_run_codec_ok sample_run_reached sample_readable run] run
  show ?thesis by simp
qed

text \<open>
  C32 (error): a run that reached a terminal state takes no further event and no other terminal
  state: both calls fail with their own error, whatever they carry. Only an empty batch, which
  appends nothing to any run, is answered without an error.
\<close>

theorem terminal_run_refuses:
  assumes "run_codec_ok C" and "run_steps C (new_ledger C) l" and "load_transcript_tx C r l = Inr tr"
    and "run_terminal (transcript_run tr) \<noteq> None"
  shows "finish_run_tx C r t clock e l = Inl (AlreadyTerminal r) \<and>
    append_events_tx C r ks clock ids l = (if ks = [] then Inr ((), l) else Inl (AppendToTerminal r))"
proof -
  have "ledger_inv C l" using run_ledger.reachable_inv [OF assms(2)] assms(1) by simp
  from terminal_refused [OF assms(1) this assms(3,4)] show ?thesis
    by (auto simp: finish_run_tx_def append_events_tx_def)
qed

theorem terminal_run_refuses_witness:
  "finish_run_tx sample_run_codec 1 (RunFailed (str ''late'')) 103 14 sample_ledger_3 = Inl (AlreadyTerminal 1)"
proof -
  have "\<not> isl (load_transcript_tx sample_run_codec 1 sample_ledger_3)" by code_simp
  then obtain tr where tr: "load_transcript_tx sample_run_codec 1 sample_ledger_3 = Inr tr"
    by (cases "load_transcript_tx sample_run_codec 1 sample_ledger_3") auto
  have "run_terminal (transcript_run (projr (load_transcript_tx sample_run_codec 1 sample_ledger_3))) \<noteq> None"
    by code_simp
  then show ?thesis
    using terminal_run_refuses [OF sample_run_codec_ok sample_run_reached tr] tr by simp
qed

lemma filter_after_cursor:
  assumes "map event_sequence evs = map int [0..<length evs]" and "0 \<le> n"
  shows "filter (\<lambda>ev. event_sequence ev > n) evs = drop (nat (n + 1)) evs"
proof -
  have seq: "event_sequence (evs ! i) = int i" if "i < length evs" for i
    using that assms(1) by (metis length_map map_nth nth_map nth_upt add_0 diff_zero length_upt)
  let ?k = "nat (n + 1)"
  have "filter (\<lambda>ev. event_sequence ev > n) (take ?k evs) = []"
    by (intro filter_False) (auto simp: in_set_conv_nth seq)
  moreover have "filter (\<lambda>ev. event_sequence ev > n) (drop ?k evs) = drop ?k evs"
    using assms(2) by (intro filter_True) (auto simp: in_set_conv_nth seq nat_add_distrib)
  ultimately show ?thesis by (metis append_Nil append_take_drop_id filter_append)
qed

lemma read_filtered:
  "list_all2 (\<lambda>row ev. read_run_event C r row = Inr ev) rows evs \<Longrightarrow>
   try_map (read_run_event C r) (filter (\<lambda>e. row_sequence e > n) rows) =
     Inr (filter (\<lambda>ev. event_sequence ev > n) evs)"
  by (induction rows evs rule: list_all2_induct) (auto dest: read_event_fields)

text \<open>
  C33 (equivalence): reading a run's events after an acknowledged cursor gives exactly the rest of
  its transcript: everything when there is no cursor, what follows event \<open>n\<close> for a cursor \<open>n\<close>, and
  nothing past the end. A cursor that SQLite cannot hold is refused.
\<close>

theorem events_after_cursor:
  assumes "run_codec_ok C" and "run_steps C (new_ledger C) l" and "load_transcript_tx C r l = Inr tr"
    and "\<And>n. cursor = Some n \<Longrightarrow> in_u64 n"
  shows "load_events_after_tx C r cursor l = (case cursor of
      None \<Rightarrow> Inr (transcript_events tr)
    | Some n \<Rightarrow> if in_i64 n then Inr (drop (nat (n + 1)) (transcript_events tr)) else Inl IntegerRange)"
proof -
  have inv: "ledger_inv C l" using run_ledger.reachable_inv [OF assms(2)] assms(1) by simp
  obtain row where row: "run_row_of C r l = Some row"
    and rows: "list_all2 (\<lambda>row ev. read_run_event C r row = Inr ev)
      (order_by row_sequence (run_events_of C r l)) (transcript_events tr)"
    using assms(3) by (auto simp: load_transcript_iff)
  have ok: "transcript_in_order tr" by (rule cleanD [OF loaded_run(2) [OF assms(1) inv assms(3)]])
  have found: "exists_row (\<lambda>row. row_run_id row = uuid_text C r) (runs l)"
    using find_SomeD [OF row] by auto
  show ?thesis
  proof (cases cursor)
    case None
    have "try_map (read_run_event C r) (order_by row_sequence (run_events_of C r l)) = Inr (transcript_events tr)"
      using rows by (simp add: try_map_eq_Inr)
    then show ?thesis
      using None found by (simp add: load_events_after_tx_def run_events_of_def del: exists_row_iff)
  next
    case (Some n)
    then have "0 \<le> n" using assms(4) by (simp add: in_u64_def)
    have "order_by row_sequence (filter (\<lambda>e. row_event_run e = uuid_text C r \<and> row_sequence e > n) (run_events l)) =
      filter (\<lambda>e. row_sequence e > n) (order_by row_sequence (run_events_of C r l))"
      by (simp add: order_by_def run_events_of_def filter_sort)
    then show ?thesis
      using Some found read_filtered [OF rows, of n] filter_after_cursor [OF in_order_sequences [OF ok] \<open>0 \<le> n\<close>]
      by (simp add: load_events_after_tx_def run_sql_integer_def del: exists_row_iff)
  qed
qed

theorem events_after_cursor_witness:
  "\<exists>tr. load_transcript_tx sample_run_codec 1 sample_ledger_3 = Inr tr \<and>
     load_events_after_tx sample_run_codec 1 (Some 0) sample_ledger_3 = Inr (drop 1 (transcript_events tr))"
proof -
  have "\<not> isl (load_transcript_tx sample_run_codec 1 sample_ledger_3)" by code_simp
  then obtain tr where tr: "load_transcript_tx sample_run_codec 1 sample_ledger_3 = Inr tr"
    by (cases "load_transcript_tx sample_run_codec 1 sample_ledger_3") auto
  have "load_events_after_tx sample_run_codec 1 (Some 0) sample_ledger_3 = Inr (drop 1 (transcript_events tr))"
    using events_after_cursor [OF sample_run_codec_ok sample_run_reached tr, of "Some 0"]
    by (simp add: in_u64_def in_i64_def)
  then show ?thesis using tr by blast
qed

subsection \<open>The engine on the SQLite store\<close>

text \<open>
  An engine whose model opened at state 0 asks for a call the agent was not granted and otherwise
  answers; the state counts streams and, within a stream, the items still to come.
\<close>

definition sample_next :: "nat \<times> nat \<Rightarrow> utext StreamEvent \<times> (nat \<times> nat)" where
  "sample_next w = (case w of
     (n, 0) \<Rightarrow> (StreamItem (Inr (ModelCompleted (if n = 1
        then \<lparr>response_text = [], capability_calls = [\<lparr>call_id = str ''1'', call_name = str ''shell'',
          call_arguments = []\<rparr>], truncated = False\<rparr>
        else \<lparr>response_text = str ''done'', capability_calls = [], truncated = False\<rparr>))), (n, 0))
   | (n, Suc k) \<Rightarrow> (StreamItem (Inr (TextDelta (str ''do''))), (n, k)))"

definition sample_engine :: "(sample_json SqliteRunStore, nat \<times> nat, utext) Engine" where
  "sample_engine =
     \<lparr>engine_model = (\<lambda>request w. (Suc (fst w), 1)), next_event = sample_next,
      host_specs = (\<lambda>_. [\<lparr>spec_name = str ''clock'', spec_description = [], input_schema = []\<rparr>,
        \<lparr>spec_name = str ''shell'', spec_description = [], input_schema = []\<rparr>]),
      host_execute = (\<lambda>request w. (Executed \<lparr>model_view = [], outcome_is_error = False\<rparr>, w)),
      is_cancelled = (\<lambda>w. (False, w)), engine_store = sqlite_store sample_run_codec,
      max_model_rounds = 32, max_capability_calls_per_response = 64, error_value = (\<lambda>message. message)\<rparr>"

definition sample_run_store :: "sample_json SqliteRunStore" where
  "sample_run_store = \<lparr>ledger = new_ledger sample_run_codec, store_clock = (\<lambda>n. 100 + int n),
     store_uuids = of_nat, store_opens = (\<lambda>_. True), ticks = 0\<rparr>"

definition sample_result :: AgentRunResult where
  "sample_result = \<lparr>result_run = 0, result_output = str ''done'', model_rounds = 1\<rparr>"

definition sample_store_after :: "sample_json SqliteRunStore" where
  "sample_store_after = fst (snd (the (engine_run sample_engine sample_envelope sample_agent (sample_run_store, (1, 0)))))"

lemma sample_engine_result:
  "\<exists>w. engine_run sample_engine sample_envelope sample_agent (sample_run_store, (1, 0)) =
    Some (Inr sample_result, (sample_store_after, w))"
proof -
  have "map_option fst (engine_run sample_engine sample_envelope sample_agent (sample_run_store, (1, 0))) =
    Some (Inr sample_result)" by code_simp
  then show ?thesis by (auto simp: sample_store_after_def)
qed

lemma sample_engine_fields:
  "engine_store sample_engine = sqlite_store sample_run_codec"
  "max_model_rounds sample_engine \<le> u32_max"
  by (simp_all add: sample_engine_def u32_max_def)

lemma sample_responsive: "responsive sample_engine"
proof -
  have "\<exists>out w'. stream_yields sample_engine (n, k) out w'" for n k
  proof (induction k)
    case 0
    obtain response where "sample_next (n, 0) = (StreamItem (Inr (ModelCompleted response)), (n, 0))"
      by (simp add: sample_next_def)
    then have "stream_yields sample_engine (n, 0) (Inr response) (n, 0)"
      by (intro stream_completed [where ?w1.0 = "(n, 0)"]) (simp_all add: sample_engine_def)
    then show ?case by blast
  next
    case (Suc k)
    then obtain out w' where "stream_yields sample_engine (n, k) out w'" by blast
    then have "stream_yields sample_engine (n, Suc k) out w'"
      by (rule stream_delta [where delta = "str ''do''" and ?w1.0 = "(n, Suc k)", rotated 2]) (simp_all add: sample_engine_def sample_next_def)
    then show ?case by blast
  qed
  then show ?thesis unfolding responsive_def by (simp add: sample_engine_def)
qed

lemma sample_store_reached: "run_steps sample_run_codec (new_ledger sample_run_codec) (ledger sample_run_store)"
  by (simp add: sample_run_store_def)

text \<open>
  C25 (termination): a run returns whenever every model stream it opens comes to something (a
  response, an error, its end or a cancellation, after any number of text deltas) and every
  capability call it spawns ends, whatever the store and the cancellation token do. What it
  returns is what the ledger holds. A success is a completed run of this command and agent with
  that output and that many requested rounds; cancellation, a failed model or capability, too
  large a batch and the round limit each leave a new run of the command terminal with the state
  and the message of that error; a store error leaves at most a new run that is still open; a
  conflict and a command already admitted change nothing. No new run requests more than
  \<open>max_model_rounds\<close> rounds, and no run that was in the ledger before is touched.
\<close>

theorem engine_run_recorded:
  assumes "run_codec_ok C" and "run_steps C (new_ledger C) (ledger s)" and "readable c"
    and "engine_store E = sqlite_store C"
  shows "(responsive E \<longrightarrow> (\<exists>res x'. engine_run E c a (s, w) = Some (res, x'))) \<and>
    (\<forall>res s' w'. engine_run E c a (s, w) = Some (res, (s', w')) \<longrightarrow>
      (\<forall>r tr. store_view C s r = Some tr \<longrightarrow> store_view C s' r = Some tr) \<and>
      run_recorded E c a (store_view C s) res (store_view C s'))"
proof (intro conjI allI impI)
  have ok: "store_ok C s" using run_ledger.reachable_inv [OF assms(2)] assms(1) by (simp add: store_ok_def)
  show "\<exists>res x'. engine_run E c a (s, w) = Some (res, x')" if "responsive E"
    by (rule returnsE [OF engine_run_returns [OF that]]) blast
  fix res s' w' assume run: "engine_run E c a (s, w) = Some (res, (s', w'))"
  from sqlite_runs.engine_run_outcome [OF assms(4) ok assms(3) run]
  show "store_view C s r = Some tr \<Longrightarrow> store_view C s' r = Some tr"
    and "run_recorded E c a (store_view C s) res (store_view C s')" for r tr by simp_all
qed

theorem engine_run_recorded_witness:
  "responsive sample_engine \<and>
   (\<exists>res s' w' t. engine_run sample_engine sample_envelope sample_agent (sample_run_store, (1, 0)) = Some (res, (s', w')) \<and>
     store_view sample_run_codec s' 0 = Some t \<and>
     run_terminal (transcript_run t) = Some (RunCompleted (str ''done'')))"
proof -
  note recorded = engine_run_recorded [OF sample_run_codec_ok sample_store_reached sample_readable sample_engine_fields(1)]
  obtain res s' w' where run: "engine_run sample_engine sample_envelope sample_agent (sample_run_store, (1, 0)) =
      Some (res, (s', w'))"
    using recorded [THEN conjunct1] sample_responsive by (metis prod.exhaust)
  then have "res = Inr sample_result" using sample_engine_result by auto
  then have "\<exists>t. store_view sample_run_codec s' 0 = Some t \<and>
     run_terminal (transcript_run t) = Some (RunCompleted (str ''done''))"
    using recorded [THEN conjunct2, rule_format, OF run] by (auto simp: run_recorded_def sample_result_def)
  then show ?thesis using sample_responsive run by blast
qed



text \<open>
  C29 (safety): a run never asks the capability host for a call the agent was not granted. Two
  hosts that offer the same capabilities and agree on the granted names give the same run, in
  its result, its transcripts and everything else it does, whatever the model asks for.
\<close>

theorem ungranted_never_executed:
  assumes "\<And>request w. call_name (request_call request) \<in> set (capability_grants agent) \<Longrightarrow>
    f request w = host_execute E request w"
  shows "engine_run (E\<lparr>host_execute := f\<rparr>) command agent x = engine_run E command agent x"
proof -
  let ?caps = "\<lambda>w. filter (\<lambda>capability. List.member (capability_grants agent) (spec_name capability)) (host_specs E w)"
  have "agrees E f (spec_name ` set (?caps w))" for w
    using assms by (auto simp: agrees_def)
  note same = round_loop_agrees [OF this]
  show ?thesis unfolding engine_run_def other_fields unaffected same ..
qed

theorem ungranted_never_executed_witness:
  "engine_run (sample_engine\<lparr>host_execute := (\<lambda>request w. if call_name (request_call request) = str ''clock''
       then host_execute sample_engine request w else (Disappeared, w))\<rparr>) sample_envelope sample_agent (sample_run_store, (0, 0)) =
   engine_run sample_engine sample_envelope sample_agent (sample_run_store, (0, 0))"
  by (rule ungranted_never_executed) (simp add: sample_agent_def)

text \<open>
  C31 (safety): the calls of a truncated response are never executed. The batch is the same for
  every capability host, and when it succeeds each call, in the order of the response, has the
  error outcome that says why it was not run.
\<close>

theorem truncated_never_executed:
  assumes "truncated response"
  shows "capability_batch (E\<lparr>host_execute := f\<rparr>) r command response caps x =
      capability_batch E r command response caps x \<and>
    (\<forall>outcomes x'. capability_batch E r command response caps x = Some (Inr outcomes, x') \<longrightarrow>
      map (\<lambda>(request, outcome). (request_call request, outcome)) outcomes =
      map (\<lambda>call. (call, capability_error (error_value E)
        (str ''capability call was not executed because the model response was truncated'')))
        (capability_calls response))"
proof (intro conjI allI impI)
  show "capability_batch (E\<lparr>host_execute := f\<rparr>) r command response caps x =
      capability_batch E r command response caps x"
    unfolding capability_batch_def other_fields unaffected refuse_truncated_unaffected using assms by simp
  fix outcomes x' assume "capability_batch E r command response caps x = Some (Inr outcomes, x')"
  then obtain requests y where requests: "capability_requests E r command (capability_calls response) = Inr requests"
    and "refuse_truncated E r requests y = Some (Inr outcomes, x')"
    using assms by (auto simp: capability_batch_def try_then_def split: if_splits option.splits prod.splits sum.splits)
  then have "outcomes = map (\<lambda>request. (request, capability_error (error_value E)
     (str ''capability call was not executed because the model response was truncated''))) requests"
    by (intro refuse_truncated_outcomes)
  then show "map (\<lambda>(request, outcome). (request_call request, outcome)) outcomes =
      map (\<lambda>call. (call, capability_error (error_value E)
        (str ''capability call was not executed because the model response was truncated'')))
        (capability_calls response)"
    by (simp flip: capability_requests_calls [OF requests])
qed

theorem truncated_never_executed_witness:
  "capability_batch (sample_engine\<lparr>host_execute := \<lambda>_ w. (Disappeared, w)\<rparr>) 0 sample_envelope
     \<lparr>response_text = [], capability_calls = [\<lparr>call_id = str ''1'', call_name = str ''clock'', call_arguments = []\<rparr>],
      truncated = True\<rparr> [\<lparr>spec_name = str ''clock'', spec_description = [], input_schema = []\<rparr>]
     (sample_run_store, (0, 0)) =
   capability_batch sample_engine 0 sample_envelope
     \<lparr>response_text = [], capability_calls = [\<lparr>call_id = str ''1'', call_name = str ''clock'', call_arguments = []\<rparr>],
      truncated = True\<rparr> [\<lparr>spec_name = str ''clock'', spec_description = [], input_schema = []\<rparr>]
     (sample_run_store, (0, 0))"
  by (rule truncated_never_executed [THEN conjunct1]) simp

end
