(* ===== verification/Kernel_Types.thy ===== *)
theory Kernel_Types
  imports Renoa_Prelude Renoa_Systems
begin

section \<open>The kernel's vocabulary\<close>

text \<open>
  The types of the crate \<open>renoa-kernel\<close>: its identities (\<open>ids.rs\<close>), its error type
  (\<open>lib.rs\<close>), the lifecycle of operations and effects (\<open>operation_phase.rs\<close>,
  \<open>state.rs\<close>), and the runtime boundary (\<open>runtime.rs\<close>): checkpoints, effect requests and
  facts, loop decisions, the frozen manifest and \<open>Runtime::new\<close>. JSON values
  (\<open>serde_json::Value\<close>) are the type parameter \<open>'v\<close>, since the kernel never looks inside
  one. Messages of errors keep their fixed text and leave out interpolated values.
\<close>

subsection \<open>Identities and errors\<close>

text \<open>Every kernel identity is a newtype of a 128-bit UUID.\<close>

type_synonym uuid = "128 word"
type_synonym AgentId = uuid
type_synonym SessionId = uuid
type_synonym CommandId = uuid
type_synonym OperationId = uuid
type_synonym CancellationId = uuid
type_synonym EffectBatchId = uuid
type_synonym EffectId = uuid
type_synonym EventId = uuid

datatype StoreErrorKind = Io | Sqlite | Ownership | Identity | UnsupportedPlatform

datatype KernelError =
    AlreadyRunning
  | UnsupportedDatabaseAlias
  | AgentNotFound AgentId
  | SessionNotFound SessionId
  | SessionConflict SessionId AgentId
  | CommandConflict CommandId OperationId
  | UnfinishedOperation OperationId CommandId
  | NoUnknownEffect OperationId
  | CancellationConflict CancellationId OperationId
  | OperationNotCancellable OperationId
  | CancellationPending OperationId
  | Busy SessionId
  | RuntimeUnavailable
  | EffectTask
  | RuntimeMismatch
  | CheckpointSchemaMismatch u32 u32
  | InvalidDecision string
  | Loop string
  | EffectBindingUnavailable string
  | CursorAhead u64 u64
  | UnsupportedSchema u32 u32
  | UnsupportedStateVersion u32 u32
  | Corrupt string
  | Store StoreErrorKind

type_synonym 'a kernel_result = "KernelError + 'a"

subsection \<open>Lifecycles\<close>

datatype OperationPhase =
    Queued | NeedDecision | EffectIntent | EffectDispatched | OutcomeUnknown
  | Waiting | Completed | Failed | Cancelled

datatype OperationStatus =
    StatusQueued | StatusRunning | StatusOutcomeUnknown | StatusWaiting
  | StatusCompleted | StatusFailed | StatusCancelled

datatype OperationOutcome =
    WaitingForInput | OutcomeCompleted | OutcomeFailed string | OutcomeCancelled

datatype EffectStatus =
    IntentCommitted | DispatchStarted | Settled | EffectOutcomeUnknown

datatype EffectRecovery = SafeToReplay | NeverReplay

fun phase_as_str :: "OperationPhase \<Rightarrow> string" where
  "phase_as_str Queued = ''queued''"
| "phase_as_str NeedDecision = ''need_decision''"
| "phase_as_str EffectIntent = ''effect_intent''"
| "phase_as_str EffectDispatched = ''effect_dispatched''"
| "phase_as_str OutcomeUnknown = ''outcome_unknown''"
| "phase_as_str Waiting = ''waiting''"
| "phase_as_str Completed = ''completed''"
| "phase_as_str Failed = ''failed''"
| "phase_as_str Cancelled = ''cancelled''"

definition phase_from_database :: "string \<Rightarrow> OperationPhase kernel_result" where
  "phase_from_database value =
     (if value = ''queued'' then Inr Queued
      else if value = ''need_decision'' then Inr NeedDecision
      else if value = ''effect_intent'' then Inr EffectIntent
      else if value = ''effect_dispatched'' then Inr EffectDispatched
      else if value = ''outcome_unknown'' then Inr OutcomeUnknown
      else if value = ''waiting'' then Inr Waiting
      else if value = ''completed'' then Inr Completed
      else if value = ''failed'' then Inr Failed
      else if value = ''cancelled'' then Inr Cancelled
      else Inl (Corrupt ''unknown operation phase''))"

fun phase_status :: "OperationPhase \<Rightarrow> OperationStatus" where
  "phase_status Queued = StatusQueued"
| "phase_status NeedDecision = StatusRunning"
| "phase_status EffectIntent = StatusRunning"
| "phase_status EffectDispatched = StatusRunning"
| "phase_status OutcomeUnknown = StatusOutcomeUnknown"
| "phase_status Waiting = StatusWaiting"
| "phase_status Completed = StatusCompleted"
| "phase_status Failed = StatusFailed"
| "phase_status Cancelled = StatusCancelled"

fun is_cancellable :: "OperationPhase \<Rightarrow> bool" where
  "is_cancellable NeedDecision = True"
| "is_cancellable EffectIntent = True"
| "is_cancellable EffectDispatched = True"
| "is_cancellable OutcomeUnknown = True"
| "is_cancellable _ = False"

fun status_name :: "EffectStatus \<Rightarrow> string" where
  "status_name IntentCommitted = ''intent_committed''"
| "status_name DispatchStarted = ''dispatch_started''"
| "status_name Settled = ''settled''"
| "status_name EffectOutcomeUnknown = ''outcome_unknown''"

definition parse_status :: "string \<Rightarrow> EffectStatus kernel_result" where
  "parse_status value =
     (if value = ''intent_committed'' then Inr IntentCommitted
      else if value = ''dispatch_started'' then Inr DispatchStarted
      else if value = ''settled'' then Inr Settled
      else if value = ''outcome_unknown'' then Inr EffectOutcomeUnknown
      else Inl (Corrupt ''unknown effect status''))"

fun recovery_as_str :: "EffectRecovery \<Rightarrow> string" where
  "recovery_as_str SafeToReplay = ''safe_to_replay''"
| "recovery_as_str NeverReplay = ''never_replay''"

definition parse_recovery :: "string \<Rightarrow> EffectRecovery kernel_result" where
  "parse_recovery value =
     (if value = ''safe_to_replay'' then Inr SafeToReplay
      else if value = ''never_replay'' then Inr NeverReplay
      else Inl (Corrupt ''unknown effect recovery''))"

subsection \<open>Commands, checkpoints, events, effects\<close>

record 'v Command =
  command_id :: CommandId
  content :: 'v

record Admission =
  adm_operation_id :: OperationId
  adm_position :: u64

record 'v Checkpoint =
  schema_version :: u32
  cp_state :: 'v

record 'v NewEvent =
  ne_kind :: string
  ne_payload :: 'v

record 'v SemanticEvent =
  ev_event_id :: EventId
  ev_operation_id :: OperationId
  ev_command_id :: CommandId
  ev_sequence :: u64
  ev_kind :: string
  ev_payload :: 'v

record 'v EventPage =
  page_events :: "'v SemanticEvent list"
  next_cursor :: u64

datatype 'v EffectOutcome = Success 'v | Failure string

datatype 'v EffectCompletion = CompletionSettled "'v EffectOutcome" | CompletionUnknown

record 'v EffectRequest =
  er_binding :: string
  er_request :: 'v
  er_recovery :: EffectRecovery

record 'v SettledEffect =
  se_effect_id :: EffectId
  se_binding :: string
  se_binding_revision :: string
  se_request :: 'v
  se_outcome :: "'v EffectOutcome"

record 'v UnsettledEffect =
  ue_effect_id :: EffectId
  ue_binding :: string
  ue_binding_revision :: string
  ue_request :: 'v

datatype 'v EffectFact =
    NotDispatched "'v UnsettledEffect"
  | FactSettled "'v SettledEffect"
  | FactOutcomeUnknown "'v UnsettledEffect"

record 'v SettledEffectBatch =
  sb_batch_id :: EffectBatchId
  sb_effects :: "'v SettledEffect list"

record 'v EffectBatchFacts =
  bf_batch_id :: EffectBatchId
  bf_effects :: "'v EffectFact list"

subsection \<open>The runtime boundary\<close>

record RuntimeManifest =
  loop_binding :: string
  loop_revision :: string
  checkpoint_schema_version :: u32
  effect_bindings :: "(string \<times> string) list"
  config_digest :: string

definition require_compatible_checkpoint ::
    "RuntimeManifest \<Rightarrow> 'v Checkpoint option \<Rightarrow> unit kernel_result" where
  "require_compatible_checkpoint manifest checkpoint =
     (case checkpoint of
        None \<Rightarrow> Inr ()
      | Some cp \<Rightarrow>
          let expected = checkpoint_schema_version manifest; found = schema_version cp in
          if found = expected then Inr ()
          else Inl (CheckpointSchemaMismatch expected found))"

record 'v LoopInput =
  li_agent_id :: AgentId
  li_session_id :: SessionId
  li_operation_id :: OperationId
  li_runtime_manifest :: RuntimeManifest
  li_command :: "'v Command"
  li_events :: "'v SemanticEvent list"
  li_checkpoint :: "'v Checkpoint option"
  li_effect_batch :: "'v SettledEffectBatch option"

record 'v UnknownEffectInput =
  ui_agent_id :: AgentId
  ui_session_id :: SessionId
  ui_operation_id :: OperationId
  ui_command :: "'v Command"
  ui_events :: "'v SemanticEvent list"
  ui_checkpoint :: "'v Checkpoint"
  ui_effect_batch :: "'v EffectBatchFacts"

record 'v UnknownEffectAbandonment =
  ab_checkpoint :: "'v Checkpoint"
  ab_events :: "'v NewEvent list"

record 'v CancellationInput =
  ci_agent_id :: AgentId
  ci_session_id :: SessionId
  ci_operation_id :: OperationId
  ci_command :: "'v Command"
  ci_events :: "'v SemanticEvent list"
  ci_checkpoint :: "'v Checkpoint option"
  ci_effect_batch :: "'v EffectBatchFacts option"

record 'v CancellationTransition =
  ct_checkpoint :: "'v Checkpoint"
  ct_events :: "'v NewEvent list"

datatype 'v LoopDecision =
    InvokeEffects "'v Checkpoint" "'v EffectRequest list"
  | AppendEventsAndContinue "'v Checkpoint" "'v NewEvent list"
  | WaitForInput "'v Checkpoint" "'v NewEvent list"
  | Complete "'v Checkpoint" "'v NewEvent list"
  | Fail "'v Checkpoint" "'v NewEvent list" string

fun decision_checkpoint :: "'v LoopDecision \<Rightarrow> 'v Checkpoint" where
  "decision_checkpoint (InvokeEffects checkpoint _) = checkpoint"
| "decision_checkpoint (AppendEventsAndContinue checkpoint _) = checkpoint"
| "decision_checkpoint (WaitForInput checkpoint _) = checkpoint"
| "decision_checkpoint (Complete checkpoint _) = checkpoint"
| "decision_checkpoint (Fail checkpoint _ _) = checkpoint"

text \<open>
  \<open>LoopPlugin\<close> is a trait of pure decision producers: a value of it is its three methods. Its
  \<open>LoopError\<close> is its message.
\<close>

type_synonym LoopError = string

record 'v LoopPlugin =
  decide :: "'v LoopInput \<Rightarrow> LoopError + 'v LoopDecision"
  plugin_abandon_unknown_effect ::
    "'v UnknownEffectInput \<Rightarrow> LoopError + 'v UnknownEffectAbandonment"
  cancel_operation :: "'v CancellationInput \<Rightarrow> LoopError + 'v CancellationTransition"

text \<open>The trait's default methods, for a loop that supports neither closure.\<close>

definition default_abandon_unknown_effect ::
    "'v UnknownEffectInput \<Rightarrow> LoopError + 'v UnknownEffectAbandonment" where
  "default_abandon_unknown_effect _ =
     Inl ''loop plugin does not support unknown-effect abandonment''"

definition default_cancel_operation ::
    "'v CancellationInput \<Rightarrow> LoopError + 'v CancellationTransition" where
  "default_cancel_operation _ = Inl ''loop plugin does not support operation cancellation''"

text \<open>
  An \<open>EffectAdapter\<close> is code outside the kernel; \<open>'a\<close> is its type. A \<open>LoopBinding\<close> and an
  \<open>EffectBinding\<close> give the implementation its name and revision.
\<close>

record 'v LoopBinding =
  lb_name :: string
  lb_revision :: string
  lb_plugin :: "'v LoopPlugin"

record 'a EffectBinding =
  eb_name :: string
  eb_revision :: string
  eb_adapter :: 'a

record ('v, 'a) Runtime =
  rt_manifest :: RuntimeManifest
  rt_plugin :: "'v LoopPlugin"
  rt_effects :: "(string \<times> 'a EffectBinding) list"

datatype RuntimeError =
    EmptyIdentity string
  | ZeroCheckpointSchema
  | DuplicateEffectBinding string

definition require_text :: "string \<Rightarrow> string \<Rightarrow> RuntimeError + unit" where
  "require_text value field = (if value = [] then Inl (EmptyIdentity field) else Inr ())"

text \<open>One round of the loop in \<open>Runtime::new\<close> over the effect bindings.\<close>

definition add_effect_binding ::
    "'a EffectBinding \<Rightarrow> (string \<times> string) list \<times> (string \<times> 'a EffectBinding) list \<Rightarrow>
     RuntimeError + ((string \<times> string) list \<times> (string \<times> 'a EffectBinding) list)" where
  "add_effect_binding effect maps =
     (case maps of (bindings, resolved) \<Rightarrow>
       and_then (require_text (eb_name effect) ''effect binding'') (\<lambda>_.
       and_then (require_text (eb_revision effect) ''effect revision'') (\<lambda>_.
       if btree_get bindings (eb_name effect) \<noteq> None
       then Inl (DuplicateEffectBinding (eb_name effect))
       else Inr (btree_insert (eb_name effect) (eb_revision effect) bindings,
                 btree_insert (eb_name effect) effect resolved))))"

definition Runtime_new ::
    "'v LoopBinding \<Rightarrow> u32 \<Rightarrow> string \<Rightarrow> 'a EffectBinding list \<Rightarrow>
     RuntimeError + ('v, 'a) Runtime" where
  "Runtime_new loop checkpoint_schema digest effects =
     and_then (require_text (lb_name loop) ''loop binding'') (\<lambda>_.
     and_then (require_text (lb_revision loop) ''loop revision'') (\<lambda>_.
     if checkpoint_schema = 0 then Inl ZeroCheckpointSchema
     else
     and_then (require_text digest ''configuration digest'') (\<lambda>_.
     and_then (try_fold add_effect_binding effects ([], [])) (\<lambda>maps.
     Inr \<lparr> rt_manifest = \<lparr> loop_binding = lb_name loop, loop_revision = lb_revision loop,
                            checkpoint_schema_version = checkpoint_schema,
                            effect_bindings = fst maps, config_digest = digest \<rparr>,
           rt_plugin = lb_plugin loop, rt_effects = snd maps \<rparr>))))"

definition resolve_effect :: "('v, 'a) Runtime \<Rightarrow> string \<Rightarrow> string \<Rightarrow> 'a option" where
  "resolve_effect runtime name revision =
     (case btree_get (rt_effects runtime) name of
        None \<Rightarrow> None
      | Some binding \<Rightarrow>
          if eb_revision binding = revision then Some (eb_adapter binding) else None)"

text \<open>
  The invocation an adapter receives. Its cancellation token is the driver's signal and is
  left out: an adapter's answer is whatever the environment says it is.
\<close>

record 'v EffectInvocation =
  inv_batch_id :: EffectBatchId
  inv_effect_id :: EffectId
  inv_binding :: string
  inv_binding_revision :: string
  inv_runtime_manifest :: RuntimeManifest
  inv_request :: 'v

subsection \<open>Enumerations stored as text\<close>

text \<open>
  Phases, effect statuses and recovery classes are stored as text and read back. The contract
  of such a column: what is written is read back unchanged, and nothing else is read as a value.
\<close>

interpretation phase_text: text_enum phase_as_str phase_from_database
proof
  show "phase_from_database (phase_as_str p) = Inr p" for p
    by (cases p) (simp_all add: phase_from_database_def)
  show "phase_from_database t = Inr p \<Longrightarrow> t = phase_as_str p" for t p
    by (auto simp: phase_from_database_def split: if_splits)
qed

interpretation status_text: text_enum status_name parse_status
proof
  show "parse_status (status_name s) = Inr s" for s
    by (cases s) (simp_all add: parse_status_def)
  show "parse_status t = Inr s \<Longrightarrow> t = status_name s" for t s
    by (auto simp: parse_status_def split: if_splits)
qed

interpretation recovery_text: text_enum recovery_as_str parse_recovery
proof
  show "parse_recovery (recovery_as_str r) = Inr r" for r
    by (cases r) (simp_all add: parse_recovery_def)
  show "parse_recovery t = Inr r \<Longrightarrow> t = recovery_as_str r" for t r
    by (auto simp: parse_recovery_def split: if_splits)
qed

lemmas column_text =
  phase_text.parse_show status_text.parse_show recovery_text.parse_show

end
