(* ===== verification/Kernel_Schema.thy ===== *)
theory Kernel_Schema
  imports Kernel_Types
begin

section \<open>The kernel database\<close>

text \<open>
  The SQLite database of \<open>schema.rs\<close>: one record per table row, the database as a record of
  tables, and the constraints of the \<open>SCHEMA\<close> script as an executable predicate that every
  write statement checks. The trigger of \<open>request_release.rs\<close> runs inside every update of an
  operation's phase.

  Text that the \<open>uuid\<close> and \<open>serde_json\<close> crates produce has the abstract type \<open>'t\<close>; the two
  crates are the parameter \<open>codec\<close>, and \<open>codec_ok\<close> states what is documented of them: what
  they print, they read back. The JSON values \<open>'v\<close> are those of which this is true: \<open>serde_json\<close>
  refuses nesting beyond its recursion limit, and without its feature \<open>float_roundtrip\<close> it may
  read a printed float back as its neighbour. Text the kernel writes itself (phases, statuses, kinds, bindings)
  is a \<open>string\<close>. A failed statement is \<open>Store Sqlite\<close>; it, and every other early return,
  drops the open transaction and so leaves the database as it was.
\<close>

subsection \<open>Encoding of identities and JSON\<close>

record ('t, 'v) codec =
  to_string :: "uuid \<Rightarrow> 't"
  parse_str :: "'t \<Rightarrow> uuid option"
  command_to_json :: "'v Command \<Rightarrow> 't option"
  command_from_json :: "'t \<Rightarrow> 'v Command option"
  manifest_to_json :: "RuntimeManifest \<Rightarrow> 't option"
  manifest_from_json :: "'t \<Rightarrow> RuntimeManifest option"
  checkpoint_to_json :: "'v Checkpoint \<Rightarrow> 't option"
  checkpoint_from_json :: "'t \<Rightarrow> 'v Checkpoint option"
  outcome_to_json :: "OperationOutcome \<Rightarrow> 't option"
  outcome_from_json :: "'t \<Rightarrow> OperationOutcome option"
  effect_outcome_to_json :: "'v EffectOutcome \<Rightarrow> 't option"
  effect_outcome_from_json :: "'t \<Rightarrow> 'v EffectOutcome option"
  value_to_json :: "'v \<Rightarrow> 't option"
  value_from_json :: "'t \<Rightarrow> 'v option"

definition json_error :: KernelError where
  "json_error = Corrupt ''invalid JSON''"

definition sqlite_error :: KernelError where
  "sqlite_error = Store Sqlite"

abbreviation encode :: "('a \<Rightarrow> 't option) \<Rightarrow> 'a \<Rightarrow> 't kernel_result" where
  "encode f a \<equiv> ok_or (f a) json_error"

abbreviation decode :: "('t \<Rightarrow> 'a option) \<Rightarrow> 't \<Rightarrow> 'a kernel_result" where
  "decode f t \<equiv> ok_or (f t) json_error"

text \<open>The documented behaviour of \<open>uuid\<close> and \<open>serde_json\<close>: printing then parsing is the identity
  (on the values \<open>'v\<close> described above).\<close>

definition round_trip :: "('a \<Rightarrow> 't option) \<Rightarrow> ('t \<Rightarrow> 'a option) \<Rightarrow> bool" where
  "round_trip enc dec \<longleftrightarrow> (\<forall>a. \<exists>t. enc a = Some t \<and> dec t = Some a)"

definition codec_ok :: "('t, 'v) codec \<Rightarrow> bool" where
  "codec_ok C \<longleftrightarrow>
     (\<forall>u. parse_str C (to_string C u) = Some u) \<and>
     round_trip (command_to_json C) (command_from_json C) \<and>
     round_trip (manifest_to_json C) (manifest_from_json C) \<and>
     round_trip (checkpoint_to_json C) (checkpoint_from_json C) \<and>
     round_trip (outcome_to_json C) (outcome_from_json C) \<and>
     round_trip (effect_outcome_to_json C) (effect_outcome_from_json C) \<and>
     round_trip (value_to_json C) (value_from_json C)"

definition parse_agent_id :: "('t, 'v) codec \<Rightarrow> 't \<Rightarrow> AgentId kernel_result" where
  "parse_agent_id C value = ok_or (parse_str C value) (Corrupt ''invalid agent id'')"

definition parse_command_id :: "('t, 'v) codec \<Rightarrow> 't \<Rightarrow> CommandId kernel_result" where
  "parse_command_id C value = ok_or (parse_str C value) (Corrupt ''invalid command id'')"

definition parse_operation_id :: "('t, 'v) codec \<Rightarrow> 't \<Rightarrow> OperationId kernel_result" where
  "parse_operation_id C value = ok_or (parse_str C value) (Corrupt ''invalid operation id'')"

definition parse_event_id :: "('t, 'v) codec \<Rightarrow> 't \<Rightarrow> EventId kernel_result" where
  "parse_event_id C value = ok_or (parse_str C value) (Corrupt ''invalid event id'')"

definition parse_effect_batch_id :: "('t, 'v) codec \<Rightarrow> 't \<Rightarrow> EffectBatchId kernel_result" where
  "parse_effect_batch_id C value =
     ok_or (parse_str C value) (Corrupt ''invalid effect batch id'')"

definition parse_effect_id :: "('t, 'v) codec \<Rightarrow> 't \<Rightarrow> EffectId kernel_result" where
  "parse_effect_id C value = ok_or (parse_str C value) (Corrupt ''invalid effect id'')"

definition from_sql_integer :: "i64 \<Rightarrow> string \<Rightarrow> u64 kernel_result" where
  "from_sql_integer value description =
     (if 0 \<le> value then Inr value else Inl (Corrupt (''invalid '' @ description)))"

subsection \<open>Rows and tables\<close>

record 't agent_row =
  a_agent_id :: 't

record 't session_row =
  s_session_id :: 't
  s_agent_id :: 't
  s_next_command_position :: i64
  s_active_operation_id :: "'t option"
  s_next_event_sequence :: i64

record 't command_row =
  c_command_id :: 't
  c_session_id :: 't
  c_content_json :: 't

record 't operation_row =
  o_operation_id :: 't
  o_session_id :: 't
  o_command_id :: 't
  o_position :: i64
  o_phase :: string
  o_state_version :: i64
  o_transition_version :: i64
  o_manifest_json :: "'t option"
  o_checkpoint_json :: "'t option"
  o_current_effect_batch_id :: "'t option"
  o_input_effect_batch_id :: "'t option"
  o_outcome_json :: "'t option"
  o_next_effect_batch_position :: i64

record 't event_row =
  v_event_id :: 't
  v_session_id :: 't
  v_operation_id :: 't
  v_sequence :: i64
  v_kind :: string
  v_payload_json :: 't

record 't batch_row =
  b_batch_id :: 't
  b_operation_id :: 't
  b_position :: i64

record 't effect_row =
  e_effect_id :: 't
  e_batch_id :: 't
  e_position :: i64
  e_binding :: string
  e_binding_revision :: string
  e_recovery :: string
  e_request_json :: "'t option"
  e_status :: string
  e_dispatch_count :: i64
  e_outcome_json :: "'t option"

record 't cancellation_row =
  x_cancellation_id :: 't
  x_session_id :: 't
  x_operation_id :: 't

record 't db =
  agents :: "'t agent_row list"
  sessions :: "'t session_row list"
  commands :: "'t command_row list"
  operations :: "'t operation_row list"
  semantic_events :: "'t event_row list"
  effect_batches :: "'t batch_row list"
  effects :: "'t effect_row list"
  cancellation_requests :: "'t cancellation_row list"

definition SCHEMA_VERSION :: u32 where
  "SCHEMA_VERSION = 4"

definition OPERATION_STATE_VERSION :: u32 where
  "OPERATION_STATE_VERSION = 1"

definition empty_db :: "'t db" where
  "empty_db = \<lparr> agents = [], sessions = [], commands = [], operations = [],
     semantic_events = [], effect_batches = [], effects = [], cancellation_requests = [] \<rparr>"

subsection \<open>The constraints of the schema\<close>

text \<open>
  Column checks per table. A \<open>STRICT\<close> integer column holds a 64-bit value, so an SQL addition
  that leaves the range fails like a violated check.
\<close>

definition session_checks :: "'t session_row \<Rightarrow> bool" where
  "session_checks s \<longleftrightarrow>
     in_i64 (s_next_command_position s) \<and> 0 \<le> s_next_command_position s \<and>
     in_i64 (s_next_event_sequence s) \<and> 0 \<le> s_next_event_sequence s"

definition operation_checks :: "'t operation_row \<Rightarrow> bool" where
  "operation_checks r \<longleftrightarrow>
     in_i64 (o_position r) \<and> 0 \<le> o_position r \<and>
     o_phase r \<in> set [''queued'', ''need_decision'', ''effect_intent'', ''effect_dispatched'',
       ''outcome_unknown'', ''waiting'', ''completed'', ''failed'', ''cancelled''] \<and>
     in_i64 (o_state_version r) \<and> 0 < o_state_version r \<and>
     in_i64 (o_transition_version r) \<and> 0 \<le> o_transition_version r \<and>
     in_i64 (o_next_effect_batch_position r) \<and> 0 \<le> o_next_effect_batch_position r"

text \<open>SQLite's \<open>length\<close> of a text counts its characters up to the first NUL.\<close>

definition sql_length :: "string \<Rightarrow> nat" where
  "sql_length s = length (takeWhile (\<lambda>c. c \<noteq> CHR 0x00) s)"

definition event_checks :: "'t event_row \<Rightarrow> bool" where
  "event_checks v \<longleftrightarrow> in_i64 (v_sequence v) \<and> 0 \<le> v_sequence v \<and> 0 < sql_length (v_kind v)"

definition batch_checks :: "'t batch_row \<Rightarrow> bool" where
  "batch_checks b \<longleftrightarrow> in_i64 (b_position b) \<and> 0 \<le> b_position b"

definition effect_checks :: "'t effect_row \<Rightarrow> bool" where
  "effect_checks e \<longleftrightarrow>
     in_i64 (e_position e) \<and> 0 \<le> e_position e \<and>
     0 < sql_length (e_binding e) \<and> 0 < sql_length (e_binding_revision e) \<and>
     e_recovery e \<in> set [''safe_to_replay'', ''never_replay''] \<and>
     (e_request_json e \<noteq> None \<or> e_status e = ''settled'') \<and>
     e_status e \<in> set [''intent_committed'', ''dispatch_started'', ''settled'', ''outcome_unknown''] \<and>
     in_i64 (e_dispatch_count e) \<and> 0 \<le> e_dispatch_count e \<and>
     (e_status e = ''settled'') = (e_outcome_json e \<noteq> None)"

text \<open>Primary keys and \<open>UNIQUE\<close> constraints.\<close>

definition keys_ok :: "'t db \<Rightarrow> bool" where
  "keys_ok db \<longleftrightarrow>
     unique_on a_agent_id (agents db) \<and>
     unique_on s_session_id (sessions db) \<and>
     unique_on c_command_id (commands db) \<and>
     unique_on o_operation_id (operations db) \<and>
     unique_on o_command_id (operations db) \<and>
     unique_on (\<lambda>r. (o_session_id r, o_position r)) (operations db) \<and>
     unique_on v_event_id (semantic_events db) \<and>
     unique_on (\<lambda>v. (v_session_id v, v_sequence v)) (semantic_events db) \<and>
     unique_on b_batch_id (effect_batches db) \<and>
     unique_on (\<lambda>b. (b_operation_id b, b_position b)) (effect_batches db) \<and>
     unique_on e_effect_id (effects db) \<and>
     unique_on (\<lambda>e. (e_batch_id e, e_position e)) (effects db) \<and>
     unique_on x_cancellation_id (cancellation_requests db)"

text \<open>Foreign keys checked by each statement.\<close>

definition references_ok :: "'t db \<Rightarrow> bool" where
  "references_ok db \<longleftrightarrow>
     list_all (\<lambda>s. exists_row (\<lambda>a. a_agent_id a = s_agent_id s) (agents db)) (sessions db) \<and>
     list_all (\<lambda>c. exists_row (\<lambda>s. s_session_id s = c_session_id c) (sessions db)) (commands db) \<and>
     list_all (\<lambda>r. exists_row (\<lambda>s. s_session_id s = o_session_id r) (sessions db)) (operations db) \<and>
     list_all (\<lambda>r. exists_row (\<lambda>c. c_session_id c = o_session_id r \<and>
       c_command_id c = o_command_id r) (commands db)) (operations db) \<and>
     list_all (\<lambda>v. exists_row (\<lambda>s. s_session_id s = v_session_id v) (sessions db))
       (semantic_events db) \<and>
     list_all (\<lambda>v. exists_row (\<lambda>r. o_session_id r = v_session_id v \<and>
       o_operation_id r = v_operation_id v) (operations db)) (semantic_events db) \<and>
     list_all (\<lambda>b. exists_row (\<lambda>r. o_operation_id r = b_operation_id b) (operations db))
       (effect_batches db) \<and>
     list_all (\<lambda>e. exists_row (\<lambda>b. b_batch_id b = e_batch_id e) (effect_batches db))
       (effects db) \<and>
     list_all (\<lambda>x. exists_row (\<lambda>r. o_session_id r = x_session_id x \<and>
       o_operation_id r = x_operation_id x) (operations db)) (cancellation_requests db)"

text \<open>
  The foreign keys declared \<open>DEFERRABLE INITIALLY DEFERRED\<close>, checked when a transaction
  commits: the active pointer of a session and the batch pointers of an operation.
\<close>

definition pointers_ok :: "'t db \<Rightarrow> bool" where
  "pointers_ok db \<longleftrightarrow>
     list_all (\<lambda>s. case s_active_operation_id s of None \<Rightarrow> True | Some active \<Rightarrow>
       exists_row (\<lambda>r. o_session_id r = s_session_id s \<and> o_operation_id r = active)
         (operations db)) (sessions db) \<and>
     list_all (\<lambda>r. case o_current_effect_batch_id r of None \<Rightarrow> True | Some current \<Rightarrow>
       exists_row (\<lambda>b. b_operation_id b = o_operation_id r \<and> b_batch_id b = current)
         (effect_batches db)) (operations db) \<and>
     list_all (\<lambda>r. case o_input_effect_batch_id r of None \<Rightarrow> True | Some input \<Rightarrow>
       exists_row (\<lambda>b. b_operation_id b = o_operation_id r \<and> b_batch_id b = input)
         (effect_batches db)) (operations db)"

definition constraints_ok :: "'t db \<Rightarrow> bool" where
  "constraints_ok db \<longleftrightarrow>
     list_all session_checks (sessions db) \<and>
     list_all operation_checks (operations db) \<and>
     list_all event_checks (semantic_events db) \<and>
     list_all batch_checks (effect_batches db) \<and>
     list_all effect_checks (effects db) \<and>
     keys_ok db \<and> references_ok db"

definition schema_ok :: "'t db \<Rightarrow> bool" where
  "schema_ok db \<longleftrightarrow> constraints_ok db \<and> pointers_ok db"

text \<open>
  A write statement with its new contents, and the commit of a transaction that wrote. SQLite
  checks the rows a statement touches; on a database that satisfies the constraints, which is
  what opening it establishes and every write keeps, that is the check of the whole database.
\<close>

definition execute :: "'t db \<Rightarrow> 't db kernel_result" where
  "execute db = (if constraints_ok db then Inr db else Inl sqlite_error)"

definition commit :: "'t db \<Rightarrow> 't db kernel_result" where
  "commit db = (if pointers_ok db then Inr db else Inl sqlite_error)"

subsection \<open>The release of finished requests\<close>

text \<open>
  The view \<open>finished_effect_requests\<close>: the settled effects that still hold their request,
  of an operation with an outcome, in a batch with no unsettled child.
\<close>

definition finished_effect_requests :: "'t db \<Rightarrow> ('t effect_row \<times> 't) list" where
  "finished_effect_requests db =
     [(e, o_operation_id r). e \<leftarrow> effects db, b \<leftarrow> effect_batches db, r \<leftarrow> operations db,
        b_batch_id b = e_batch_id e, o_operation_id r = b_operation_id b,
        o_outcome_json r \<noteq> None, e_status e = ''settled'', e_request_json e \<noteq> None,
        \<not> exists_row (\<lambda>sibling. e_batch_id sibling = e_batch_id e \<and>
            e_status sibling \<noteq> ''settled'') (effects db)]"

text \<open>The trigger \<open>release_finished_effect_requests\<close>, for one updated operation.\<close>

definition release_finished_effect_requests :: "'t \<Rightarrow> 't db \<Rightarrow> 't db" where
  "release_finished_effect_requests operation db =
     db\<lparr>effects := update_where
        (\<lambda>e. (e_effect_id e, operation) \<in>
           set (map (\<lambda>(f, oid). (e_effect_id f, oid)) (finished_effect_requests db)))
        (\<lambda>e. e\<lparr>e_request_json := None\<rparr>) (effects db)\<rparr>"

text \<open>
  \<open>UPDATE operations SET phase = ... WHERE P\<close>: every such update in the kernel names the
  phase, so the trigger runs once for each updated row.
\<close>

definition update_operations ::
    "('t operation_row \<Rightarrow> bool) \<Rightarrow> ('t operation_row \<Rightarrow> 't operation_row) \<Rightarrow> 't db \<Rightarrow>
     't db kernel_result" where
  "update_operations P f db =
     execute (fold release_finished_effect_requests
       (map o_operation_id (filter P (operations db)))
       (db\<lparr>operations := update_where P f (operations db)\<rparr>))"

definition update_sessions ::
    "('t session_row \<Rightarrow> bool) \<Rightarrow> ('t session_row \<Rightarrow> 't session_row) \<Rightarrow> 't db \<Rightarrow>
     't db kernel_result" where
  "update_sessions P f db = execute (db\<lparr>sessions := update_where P f (sessions db)\<rparr>)"

definition update_effects ::
    "('t effect_row \<Rightarrow> bool) \<Rightarrow> ('t effect_row \<Rightarrow> 't effect_row) \<Rightarrow> 't db \<Rightarrow>
     't db kernel_result" where
  "update_effects P f db = execute (db\<lparr>effects := update_where P f (effects db)\<rparr>)"

subsection \<open>Facts about the codec\<close>

lemma round_tripD: "round_trip enc dec \<Longrightarrow> \<exists>t. enc a = Some t \<and> dec t = Some a"
  by (simp add: round_trip_def)

lemma round_trip_dec: "round_trip enc dec \<Longrightarrow> enc a = Some t \<Longrightarrow> dec t = Some a"
  by (metis round_tripD option.inject)

lemma round_trip_inj: "round_trip enc dec \<Longrightarrow> enc a = Some t \<Longrightarrow> enc b = Some t \<Longrightarrow> a = b"
  by (metis round_trip_dec option.inject)

lemma codec_okD:
  assumes "codec_ok C"
  shows "parse_str C (to_string C u) = Some u"
    and "round_trip (command_to_json C) (command_from_json C)"
    and "round_trip (manifest_to_json C) (manifest_from_json C)"
    and "round_trip (checkpoint_to_json C) (checkpoint_from_json C)"
    and "round_trip (outcome_to_json C) (outcome_from_json C)"
    and "round_trip (effect_outcome_to_json C) (effect_outcome_from_json C)"
    and "round_trip (value_to_json C) (value_from_json C)"
  using assms by (simp_all add: codec_ok_def)

lemma to_string_inject:
  assumes "codec_ok C"
  shows "to_string C u = to_string C w \<longleftrightarrow> u = w"
  by (metis codec_okD(1) [OF assms] option.inject)

lemmas parse_id_defs =
  parse_agent_id_def parse_command_id_def parse_operation_id_def parse_event_id_def
  parse_effect_batch_id_def parse_effect_id_def

lemma parse_to_string:
  assumes "codec_ok C"
  shows "parse_agent_id C (to_string C u) = Inr u"
    and "parse_command_id C (to_string C u) = Inr u"
    and "parse_operation_id C (to_string C u) = Inr u"
    and "parse_event_id C (to_string C u) = Inr u"
    and "parse_effect_batch_id C (to_string C u) = Inr u"
    and "parse_effect_id C (to_string C u) = Inr u"
  by (simp_all add: parse_id_defs codec_okD(1) [OF assms])

lemma from_sql_integer_eq_Inr [result_eq]:
  "from_sql_integer n d = Inr m \<longleftrightarrow> 0 \<le> n \<and> m = n"
  by (auto simp: from_sql_integer_def)

subsection \<open>Facts about writes\<close>

lemma execute_eq_Inr [result_eq]: "execute db = Inr db' \<longleftrightarrow> constraints_ok db \<and> db' = db"
  by (auto simp: execute_def)

lemma commit_eq_Inr [result_eq]: "commit db = Inr db' \<longleftrightarrow> pointers_ok db \<and> db' = db"
  by (auto simp: commit_def)

lemma pointers_ok_iff:
  "pointers_ok db \<longleftrightarrow>
     (\<forall>s \<in> set (sessions db). \<forall>a. s_active_operation_id s = Some a \<longrightarrow>
        (\<exists>r \<in> set (operations db). o_session_id r = s_session_id s \<and> o_operation_id r = a)) \<and>
     (\<forall>r \<in> set (operations db). \<forall>b. o_current_effect_batch_id r = Some b \<longrightarrow>
        (\<exists>x \<in> set (effect_batches db). b_operation_id x = o_operation_id r \<and> b_batch_id x = b)) \<and>
     (\<forall>r \<in> set (operations db). \<forall>b. o_input_effect_batch_id r = Some b \<longrightarrow>
        (\<exists>x \<in> set (effect_batches db). b_operation_id x = o_operation_id r \<and> b_batch_id x = b))"
  by (simp add: pointers_ok_def list_all_iff option.case_eq_if) force

lemma referenced:
  assumes "references_ok db"
  shows "\<And>r. r \<in> set (operations db) \<Longrightarrow> \<exists>s \<in> set (sessions db). s_session_id s = o_session_id r"
    and "\<And>v. v \<in> set (semantic_events db) \<Longrightarrow> \<exists>s \<in> set (sessions db). s_session_id s = v_session_id v"
    and "\<And>b. b \<in> set (effect_batches db) \<Longrightarrow> \<exists>r \<in> set (operations db). o_operation_id r = b_operation_id b"
    and "\<And>e. e \<in> set (effects db) \<Longrightarrow> \<exists>b \<in> set (effect_batches db). b_batch_id b = e_batch_id e"
    and "\<And>r. r \<in> set (operations db) \<Longrightarrow> \<exists>c \<in> set (commands db).
      c_session_id c = o_session_id r \<and> c_command_id c = o_command_id r"
    and "\<And>v. v \<in> set (semantic_events db) \<Longrightarrow> \<exists>r \<in> set (operations db).
      o_session_id r = v_session_id v \<and> o_operation_id r = v_operation_id v"
    and "\<And>s. s \<in> set (sessions db) \<Longrightarrow> \<exists>a \<in> set (agents db). a_agent_id a = s_agent_id s"
  using assms unfolding references_ok_def list_all_iff exists_row_iff by blast+

lemma constraints_keys: "constraints_ok db \<Longrightarrow> keys_ok db"
  by (simp add: constraints_ok_def)

lemma keys_okD:
  assumes "keys_ok db"
  shows "unique_on a_agent_id (agents db)"
    and "unique_on s_session_id (sessions db)"
    and "unique_on c_command_id (commands db)"
    and "unique_on o_operation_id (operations db)"
    and "unique_on o_command_id (operations db)"
    and "unique_on (\<lambda>r. (o_session_id r, o_position r)) (operations db)"
    and "unique_on v_event_id (semantic_events db)"
    and "unique_on (\<lambda>v. (v_session_id v, v_sequence v)) (semantic_events db)"
    and "unique_on b_batch_id (effect_batches db)"
    and "unique_on (\<lambda>b. (b_operation_id b, b_position b)) (effect_batches db)"
    and "unique_on e_effect_id (effects db)"
    and "unique_on (\<lambda>e. (e_batch_id e, e_position e)) (effects db)"
    and "unique_on x_cancellation_id (cancellation_requests db)"
  using assms unfolding keys_ok_def by blast+

lemmas schema_keys = keys_okD [OF constraints_keys]

text \<open>Whether the trigger releases the request of an effect when an operation is updated.\<close>

definition releasable :: "'t db \<Rightarrow> 't \<Rightarrow> 't effect_row \<Rightarrow> bool" where
  "releasable db oid e \<longleftrightarrow>
     e_status e = ''settled'' \<and>
     (\<exists>b \<in> set (effect_batches db). b_batch_id b = e_batch_id e \<and> b_operation_id b = oid) \<and>
     (\<exists>r \<in> set (operations db). o_operation_id r = oid \<and> o_outcome_json r \<noteq> None) \<and>
     (\<forall>f \<in> set (effects db). e_batch_id f = e_batch_id e \<longrightarrow> e_status f = ''settled'')"

definition released :: "'t db \<Rightarrow> 't \<Rightarrow> 't effect_row \<Rightarrow> 't effect_row" where
  "released db oid e = (if releasable db oid e then e\<lparr>e_request_json := None\<rparr> else e)"

lemma finished_effect_requests_mem:
  "(e, oid) \<in> set (finished_effect_requests db) \<longleftrightarrow>
   e \<in> set (effects db) \<and> releasable db oid e \<and> e_request_json e \<noteq> None"
  unfolding finished_effect_requests_def releasable_def exists_row_iff
  by (simp add: image_iff) blast

lemma release_effects:
  assumes "unique_on e_effect_id (effects db)"
  shows "effects (release_finished_effect_requests oid db) = map (released db oid) (effects db)"
proof -
  have "(if (e_effect_id e, oid) \<in> set (map (\<lambda>(f, oid). (e_effect_id f, oid))
             (finished_effect_requests db))
         then e\<lparr>e_request_json := None\<rparr> else e) = released db oid e"
    if e: "e \<in> set (effects db)" for e
  proof -
    have "(e_effect_id e, oid) \<in> set (map (\<lambda>(f, oid). (e_effect_id f, oid))
            (finished_effect_requests db)) \<longleftrightarrow> releasable db oid e \<and> e_request_json e \<noteq> None"
    proof
      assume "(e_effect_id e, oid) \<in> set (map (\<lambda>(f, oid). (e_effect_id f, oid))
            (finished_effect_requests db))"
      then obtain f where f: "(f, oid) \<in> set (finished_effect_requests db)"
        and id: "e_effect_id f = e_effect_id e" by auto
      then have "f = e" using e unique_onD [OF assms] by (simp add: finished_effect_requests_mem)
      then show "releasable db oid e \<and> e_request_json e \<noteq> None"
        using f by (simp add: finished_effect_requests_mem)
    next
      assume "releasable db oid e \<and> e_request_json e \<noteq> None"
      then have "(e, oid) \<in> set (finished_effect_requests db)"
        using e by (simp add: finished_effect_requests_mem)
      then show "(e_effect_id e, oid) \<in> set (map (\<lambda>(f, oid). (e_effect_id f, oid))
            (finished_effect_requests db))" by force
    qed
    then show ?thesis by (auto simp: released_def)
  qed
  then show ?thesis
    by (simp add: release_finished_effect_requests_def update_where_def)
qed

lemma released_simps [simp]:
  "e_effect_id (released db oid e) = e_effect_id e"
  "e_batch_id (released db oid e) = e_batch_id e"
  "e_position (released db oid e) = e_position e"
  "e_binding (released db oid e) = e_binding e"
  "e_binding_revision (released db oid e) = e_binding_revision e"
  "e_recovery (released db oid e) = e_recovery e"
  "e_status (released db oid e) = e_status e"
  "e_dispatch_count (released db oid e) = e_dispatch_count e"
  "e_outcome_json (released db oid e) = e_outcome_json e"
  by (simp_all add: released_def)

lemma release_tables [simp]:
  "agents (release_finished_effect_requests oid db) = agents db"
  "sessions (release_finished_effect_requests oid db) = sessions db"
  "commands (release_finished_effect_requests oid db) = commands db"
  "operations (release_finished_effect_requests oid db) = operations db"
  "semantic_events (release_finished_effect_requests oid db) = semantic_events db"
  "effect_batches (release_finished_effect_requests oid db) = effect_batches db"
  "cancellation_requests (release_finished_effect_requests oid db) = cancellation_requests db"
  by (simp_all add: release_finished_effect_requests_def)

text \<open>
  The effect of an update of one operation: the row changes, its finished requests are
  released, and nothing else is touched.
\<close>

definition set_operation ::
    "'t \<Rightarrow> ('t operation_row \<Rightarrow> 't operation_row) \<Rightarrow> 't db \<Rightarrow> 't db" where
  "set_operation oid f db =
     (let db1 = db\<lparr>operations := update_where (\<lambda>r. o_operation_id r = oid) f (operations db)\<rparr>
      in db1\<lparr>effects := map (released db1 oid) (effects db)\<rparr>)"

lemma set_operation_tables [simp]:
  "agents (set_operation oid f db) = agents db"
  "sessions (set_operation oid f db) = sessions db"
  "commands (set_operation oid f db) = commands db"
  "operations (set_operation oid f db) =
     update_where (\<lambda>r. o_operation_id r = oid) f (operations db)"
  "semantic_events (set_operation oid f db) = semantic_events db"
  "effect_batches (set_operation oid f db) = effect_batches db"
  "cancellation_requests (set_operation oid f db) = cancellation_requests db"
  by (simp_all add: set_operation_def Let_def)

lemma update_operations_one:
  assumes ok: "constraints_ok db"
    and upd: "update_operations P f db = Inr db'"
    and one: "changed P (operations db) = 1"
    and key: "\<And>r. P r \<Longrightarrow> o_operation_id r = oid"
  shows "db' = set_operation oid f db" and "constraints_ok db'"
    and "\<exists>r \<in> set (operations db). P r"
proof -
  obtain r where r: "r \<in> set (operations db)" "P r"
    and only: "\<And>r'. r' \<in> set (operations db) \<Longrightarrow> P r' \<Longrightarrow> r' = r"
    using changed_oneD [OF one] by metis
  have eqP: "P r' \<longleftrightarrow> o_operation_id r' = oid" if "r' \<in> set (operations db)" for r'
    using that r only key schema_keys(4) [OF ok] by (metis unique_onD)
  have rows: "update_where P f (operations db) =
      update_where (\<lambda>r. o_operation_id r = oid) f (operations db)"
    using eqP by (simp add: update_where_def)
  obtain r1 where r1: "filter P (operations db) = [r1]"
    using one by (auto simp: changed_def length_Suc_conv)
  then have "r1 \<in> set (filter P (operations db))" by simp
  then have "r1 = r" using only by simp
  then have ids: "map o_operation_id (filter P (operations db)) = [oid]"
    using r1 r(2) key by simp
  let ?db1 = "db\<lparr>operations := update_where P f (operations db)\<rparr>"
  have keys: "unique_on e_effect_id (effects ?db1)" using schema_keys(11) [OF ok] by simp
  have "release_finished_effect_requests oid ?db1 = ?db1\<lparr>effects := map (released ?db1 oid) (effects db)\<rparr>"
    using release_effects [OF keys, of oid] release_tables [of oid ?db1]
    by (simp add: db.equality)
  then have "release_finished_effect_requests oid ?db1 = set_operation oid f db"
    using rows by (simp add: set_operation_def Let_def)
  then show "db' = set_operation oid f db" and "constraints_ok db'"
    using upd by (simp_all add: update_operations_def ids execute_eq_Inr)
  show "\<exists>r \<in> set (operations db). P r" using r by blast
qed

text \<open>An operation that has no outcome after the update keeps every request.\<close>

lemma set_operation_no_release:
  assumes "\<And>r. r \<in> set (operations db) \<Longrightarrow> o_operation_id r = oid \<Longrightarrow>
      o_operation_id (f r) = oid \<and> o_outcome_json (f r) = None"
  shows "set_operation oid f db =
     db\<lparr>operations := update_where (\<lambda>r. o_operation_id r = oid) f (operations db)\<rparr>"
proof -
  let ?db1 = "db\<lparr>operations := update_where (\<lambda>r. o_operation_id r = oid) f (operations db)\<rparr>"
  have none: "o_outcome_json r = None" if "r \<in> set (operations ?db1)" and "o_operation_id r = oid" for r
  proof -
    have "r \<in> set (update_where (\<lambda>r. o_operation_id r = oid) f (operations db))"
      using that(1) by simp
    then obtain r0 where r0: "r0 \<in> set (operations db)"
      and "(o_operation_id r0 = oid \<and> r = f r0) \<or> (o_operation_id r0 \<noteq> oid \<and> r = r0)"
      unfolding update_where_mem by blast
    with that(2) assms [OF r0] show ?thesis by blast
  qed
  have "\<not> releasable ?db1 oid e" for e
  proof
    assume "releasable ?db1 oid e"
    then have "\<exists>r \<in> set (operations ?db1). o_operation_id r = oid \<and> o_outcome_json r \<noteq> None"
      by (simp only: releasable_def)
    then show False using none by metis
  qed
  then have "map (released ?db1 oid) (effects db) = effects db"
    by (simp add: released_def map_idI)
  then show ?thesis by (simp add: set_operation_def Let_def)
qed

lemma constraints_okD:
  assumes "constraints_ok db"
  shows "list_all session_checks (sessions db)" and "list_all operation_checks (operations db)"
    and "list_all event_checks (semantic_events db)" and "list_all batch_checks (effect_batches db)"
    and "list_all effect_checks (effects db)" and "keys_ok db" and "references_ok db"
  using assms by (simp_all add: constraints_ok_def)

text \<open>A session update that keeps keys and checks keeps the constraints; one that also keeps the
  active pointer keeps the deferred ones.\<close>

lemma update_sessions_constraints:
  assumes con: "constraints_ok db"
    and keys: "\<And>s. P s \<Longrightarrow> s_session_id (f s) = s_session_id s" "\<And>s. P s \<Longrightarrow> s_agent_id (f s) = s_agent_id s"
    and checks: "\<And>s. s \<in> set (sessions db) \<Longrightarrow> P s \<Longrightarrow> session_checks (f s)"
  shows "constraints_ok (db\<lparr>sessions := update_where P f (sessions db)\<rparr>)"
proof -
  let ?up = "update_where P f (sessions db)"
  note c = constraints_okD [OF con]
  have ids: "map s_session_id ?up = map s_session_id (sessions db)"
    "map s_agent_id ?up = map s_agent_id (sessions db)"
    using keys by (auto intro!: map_update_where)
  have img: "s_session_id ` set ?up = s_session_id ` set (sessions db)"
      "s_agent_id ` set ?up = s_agent_id ` set (sessions db)"
    using arg_cong [OF ids(1), of set] arg_cong [OF ids(2), of set] by simp_all
  have sid: "(\<exists>x \<in> set ?up. s_session_id x = k) \<longleftrightarrow> (\<exists>x \<in> set (sessions db). s_session_id x = k)" for k
    using arg_cong [OF img(1), of "\<lambda>S. k \<in> S"] by (simp only: image_iff eq_commute)
  have aid: "(\<forall>x \<in> set ?up. Q (s_agent_id x)) \<longleftrightarrow> (\<forall>x \<in> set (sessions db). Q (s_agent_id x))" for Q
    using arg_cong [OF img(2), of "\<lambda>S. \<forall>k \<in> S. Q k"] by simp
  have "list_all session_checks ?up"
    using c(1) checks by (auto simp: list_all_iff update_where_mem)
  moreover have "keys_ok (db\<lparr>sessions := ?up\<rparr>)" using c(6) ids by (simp add: keys_ok_def unique_on_def)
  moreover have "references_ok (db\<lparr>sessions := ?up\<rparr>)"
    using c(7) aid [of "\<lambda>k. \<exists>a \<in> set (agents db). a_agent_id a = k"]
    unfolding references_ok_def list_all_iff exists_row_iff by (simp add: sid)
  ultimately show ?thesis using con by (simp add: constraints_ok_def)
qed

lemma update_sessions_pointers:
  assumes ptr: "pointers_ok db"
    and keys: "\<And>s. P s \<Longrightarrow> s_session_id (f s) = s_session_id s"
      "\<And>s. P s \<Longrightarrow> s_active_operation_id (f s) = s_active_operation_id s"
  shows "pointers_ok (db\<lparr>sessions := update_where P f (sessions db)\<rparr>)"
proof -
  have "\<exists>x0 \<in> set (sessions db). s_session_id x0 = s_session_id x \<and>
      s_active_operation_id x0 = s_active_operation_id x" if "x \<in> set (update_where P f (sessions db))" for x
    using that keys unfolding update_where_mem by metis
  then have "\<exists>r \<in> set (operations db). o_session_id r = s_session_id x \<and> o_operation_id r = a"
    if "x \<in> set (update_where P f (sessions db))" "s_active_operation_id x = Some a" for x a
    using ptr that unfolding pointers_ok_iff by metis
  then show ?thesis using ptr unfolding pointers_ok_iff by simp
qed

end
