(* ===== verification/Kernel_Invariant.thy ===== *)
theory Kernel_Invariant
  imports Kernel_Schema
begin

section \<open>The invariant of the kernel database\<close>

text \<open>
  What every transaction of the kernel keeps true, beyond the constraints SQLite checks: identities
  and JSON columns are readable, positions and sequences are gapless, the active pointer of a
  session is its one operation in an active phase, and an operation's phase, manifest, checkpoint,
  outcome, batches and effects agree with each other. The frame lemmas say what a transaction that
  touches one operation of one session has to show.
\<close>

subsection \<open>Views\<close>

definition ops_of :: "'t db \<Rightarrow> 't \<Rightarrow> 't operation_row list" where
  "ops_of db sid = filter (\<lambda>r. o_session_id r = sid) (operations db)"

definition events_of :: "'t db \<Rightarrow> 't \<Rightarrow> 't event_row list" where
  "events_of db sid = filter (\<lambda>v. v_session_id v = sid) (semantic_events db)"

definition batches_of :: "'t db \<Rightarrow> 't \<Rightarrow> 't batch_row list" where
  "batches_of db oid = filter (\<lambda>b. b_operation_id b = oid) (effect_batches db)"

definition children_of :: "'t db \<Rightarrow> 't \<Rightarrow> 't effect_row list" where
  "children_of db bid = filter (\<lambda>e. e_batch_id e = bid) (effects db)"

definition all_settled :: "'t effect_row list \<Rightarrow> bool" where
  "all_settled es \<longleftrightarrow> (\<forall>e \<in> set es. e_status e = ''settled'')"

definition row_manifest :: "('t, 'v) codec \<Rightarrow> 't operation_row \<Rightarrow> RuntimeManifest option" where
  "row_manifest C r = Option.bind (o_manifest_json r) (manifest_from_json C)"

definition canonical :: "('t, 'v) codec \<Rightarrow> 't \<Rightarrow> bool" where
  "canonical C t \<longleftrightarrow> (\<exists>u. t = to_string C u)"

lemma view_eqs:
  "operations db' = operations db \<Longrightarrow> ops_of db' = ops_of db"
  "semantic_events db' = semantic_events db \<Longrightarrow> events_of db' = events_of db"
  "effect_batches db' = effect_batches db \<Longrightarrow> batches_of db' = batches_of db"
  "effects db' = effects db \<Longrightarrow> children_of db' = children_of db"
  by (simp_all add: ops_of_def events_of_def batches_of_def children_of_def fun_eq_iff)

subsection \<open>Effects and batches\<close>

text \<open>
  An effect is bound by the frozen manifest; it was dispatched exactly when it is no longer a bare
  intent, and an effect that must not be replayed was dispatched at most once.
\<close>

definition dispatch_ok :: "'t effect_row \<Rightarrow> bool" where
  "dispatch_ok e \<longleftrightarrow>
     (e_status e = ''intent_committed'') = (e_dispatch_count e = 0) \<and>
     (e_recovery e = ''never_replay'' \<longrightarrow> e_dispatch_count e \<le> 1)"

definition effect_ok :: "('t, 'v) codec \<Rightarrow> RuntimeManifest \<Rightarrow> 't effect_row \<Rightarrow> bool" where
  "effect_ok C M e \<longleftrightarrow>
     canonical C (e_effect_id e) \<and>
     btree_get (effect_bindings M) (e_binding e) = Some (e_binding_revision e) \<and>
     (\<forall>t. e_request_json e = Some t \<longrightarrow> value_from_json C t \<noteq> None) \<and>
     (\<forall>t. e_outcome_json e = Some t \<longrightarrow> effect_outcome_from_json C t \<noteq> None) \<and>
     dispatch_ok e"

definition batch_ok :: "('t, 'v) codec \<Rightarrow> RuntimeManifest \<Rightarrow> 't effect_row list \<Rightarrow> bool" where
  "batch_ok C M es \<longleftrightarrow>
     es \<noteq> [] \<and> gapless (int (length es)) (map e_position es) \<and> (\<forall>e \<in> set es. effect_ok C M e)"

subsection \<open>Operations\<close>

fun outcome_phase :: "OperationOutcome \<Rightarrow> OperationPhase" where
  "outcome_phase WaitingForInput = Waiting"
| "outcome_phase OutcomeCompleted = Completed"
| "outcome_phase (OutcomeFailed _) = Failed"
| "outcome_phase OutcomeCancelled = Cancelled"

definition active_phase :: "string \<Rightarrow> bool" where
  "active_phase p \<longleftrightarrow>
     p \<in> {''need_decision'', ''effect_intent'', ''effect_dispatched'', ''outcome_unknown''}"

definition terminal_phase :: "string \<Rightarrow> bool" where
  "terminal_phase p \<longleftrightarrow> p \<in> {''waiting'', ''completed'', ''failed'', ''cancelled''}"

definition outcome_ok :: "('t, 'v) codec \<Rightarrow> 't operation_row \<Rightarrow> bool" where
  "outcome_ok C r \<longleftrightarrow>
     (case o_outcome_json r of
        None \<Rightarrow> \<not> terminal_phase (o_phase r)
      | Some t \<Rightarrow> (\<exists>oc. outcome_from_json C t = Some oc \<and> o_phase r = phase_as_str (outcome_phase oc)))"

definition checkpoint_ok :: "('t, 'v) codec \<Rightarrow> 't operation_row \<Rightarrow> bool" where
  "checkpoint_ok C r \<longleftrightarrow>
     (o_phase r = ''queued'' \<longrightarrow> o_manifest_json r = None \<and> o_checkpoint_json r = None) \<and>
     (o_phase r \<noteq> ''queued'' \<longrightarrow> row_manifest C r \<noteq> None) \<and>
     (o_phase r \<notin> {''queued'', ''need_decision''} \<longrightarrow> o_checkpoint_json r \<noteq> None) \<and>
     (\<forall>t. o_checkpoint_json r = Some t \<longrightarrow>
        (\<exists>M cp. row_manifest C r = Some M \<and> checkpoint_from_json C t = Some cp \<and>
          schema_version cp = checkpoint_schema_version M))"

text \<open>The batch pointers of an operation and the statuses of the children they name, by phase.\<close>

definition pointers_match :: "'t operation_row \<Rightarrow> ('t \<Rightarrow> 't effect_row list) \<Rightarrow> bool" where
  "pointers_match r ch \<longleftrightarrow>
     (o_input_effect_batch_id r \<noteq> None \<longrightarrow> o_phase r = ''need_decision'') \<and>
     (\<forall>b. o_input_effect_batch_id r = Some b \<longrightarrow> all_settled (ch b)) \<and>
     (o_current_effect_batch_id r \<noteq> None) =
       (o_phase r \<in> {''effect_intent'', ''effect_dispatched'', ''outcome_unknown''}) \<and>
     (\<forall>b. o_current_effect_batch_id r = Some b \<longrightarrow>
        (o_phase r = ''effect_intent'' \<longrightarrow> (\<forall>e \<in> set (ch b). e_status e = ''intent_committed'')) \<and>
        (o_phase r = ''effect_dispatched'' \<longrightarrow> (\<forall>e \<in> set (ch b). e_status e \<noteq> ''intent_committed'')) \<and>
        (o_phase r = ''outcome_unknown'' \<longrightarrow>
           (\<forall>e \<in> set (ch b). e_status e \<in> {''settled'', ''outcome_unknown''}) \<and>
           (\<exists>e \<in> set (ch b). e_status e = ''outcome_unknown'')))"

text \<open>
  The batches of an operation: numbered without a gap, all but the current one settled while the
  operation runs, at most one left unsettled when it ends, and a request is gone exactly when the
  operation has an outcome and its whole batch settled.
\<close>

definition batches_ok ::
    "('t, 'v) codec \<Rightarrow> 't operation_row \<Rightarrow> 't batch_row list \<Rightarrow> ('t \<Rightarrow> 't effect_row list) \<Rightarrow> bool" where
  "batches_ok C r bs ch \<longleftrightarrow>
     gapless (o_next_effect_batch_position r) (map b_position bs) \<and>
     (\<forall>b \<in> set bs. canonical C (b_batch_id b)) \<and>
     (\<forall>b \<in> set bs. \<exists>M. row_manifest C r = Some M \<and> batch_ok C M (ch (b_batch_id b))) \<and>
     (\<forall>b \<in> set bs. o_outcome_json r = None \<longrightarrow> Some (b_batch_id b) \<noteq> o_current_effect_batch_id r \<longrightarrow>
        all_settled (ch (b_batch_id b))) \<and>
     (\<forall>b \<in> set bs. \<forall>b' \<in> set bs. o_outcome_json r \<noteq> None \<longrightarrow> \<not> all_settled (ch (b_batch_id b)) \<longrightarrow>
        \<not> all_settled (ch (b_batch_id b')) \<longrightarrow> b = b') \<and>
     (\<forall>b \<in> set bs. o_outcome_json r \<noteq> None \<longrightarrow>
        (\<forall>e \<in> set (ch (b_batch_id b)). e_status e \<noteq> ''dispatch_started'')) \<and>
     (\<forall>b \<in> set bs. \<forall>e \<in> set (ch (b_batch_id b)).
        (e_request_json e = None) = (o_outcome_json r \<noteq> None \<and> all_settled (ch (b_batch_id b))))"

definition op_ok ::
    "('t, 'v) codec \<Rightarrow> 't operation_row \<Rightarrow> 't batch_row list \<Rightarrow> ('t \<Rightarrow> 't effect_row list) \<Rightarrow> bool" where
  "op_ok C r bs ch \<longleftrightarrow>
     canonical C (o_operation_id r) \<and> o_state_version r = int OPERATION_STATE_VERSION \<and>
     outcome_ok C r \<and> checkpoint_ok C r \<and> pointers_match r ch \<and> batches_ok C r bs ch"

subsection \<open>Sessions, commands, events\<close>

text \<open>\<open>active\<close> selects the operation of the session that is in an active phase, if any.\<close>

definition session_ok ::
    "('t, 'v) codec \<Rightarrow> 't operation_row list \<Rightarrow> 't event_row list \<Rightarrow> 't session_row \<Rightarrow> bool" where
  "session_ok C ops evs s \<longleftrightarrow>
     canonical C (s_session_id s) \<and> canonical C (s_agent_id s) \<and>
     gapless (s_next_command_position s) (map o_position ops) \<and>
     gapless (s_next_event_sequence s) (map v_sequence evs) \<and>
     (\<forall>r \<in> set ops. active_phase (o_phase r) = (s_active_operation_id s = Some (o_operation_id r)))"

definition command_ok :: "('t, 'v) codec \<Rightarrow> 't command_row \<Rightarrow> bool" where
  "command_ok C c \<longleftrightarrow>
     (\<exists>cmd. command_from_json C (c_content_json c) = Some cmd \<and>
        c_command_id c = to_string C (command_id cmd))"

definition event_ok :: "('t, 'v) codec \<Rightarrow> 't event_row \<Rightarrow> bool" where
  "event_ok C v \<longleftrightarrow> canonical C (v_event_id v) \<and> value_from_json C (v_payload_json v) \<noteq> None"

definition kernel_inv :: "('t, 'v) codec \<Rightarrow> 't db \<Rightarrow> bool" where
  "kernel_inv C db \<longleftrightarrow>
     schema_ok db \<and>
     (\<forall>a \<in> set (agents db). canonical C (a_agent_id a)) \<and>
     (\<forall>c \<in> set (commands db). command_ok C c) \<and>
     (\<forall>v \<in> set (semantic_events db). event_ok C v) \<and>
     (\<forall>s \<in> set (sessions db).
        session_ok C (ops_of db (s_session_id s)) (events_of db (s_session_id s)) s) \<and>
     (\<forall>r \<in> set (operations db).
        op_ok C r (batches_of db (o_operation_id r)) (children_of db))"

lemma kernel_inv_empty: "kernel_inv C empty_db"
  by (simp add: kernel_inv_def empty_db_def schema_ok_def constraints_ok_def keys_ok_def
      references_ok_def pointers_ok_def unique_on_def)

subsection \<open>Consequences\<close>

lemma kernel_invD:
  assumes "kernel_inv C db"
  shows "schema_ok db" and "constraints_ok db" and "pointers_ok db" and "references_ok db"
    and "keys_ok db"
    and "\<And>a. a \<in> set (agents db) \<Longrightarrow> canonical C (a_agent_id a)"
    and "\<And>c. c \<in> set (commands db) \<Longrightarrow> command_ok C c"
    and "\<And>v. v \<in> set (semantic_events db) \<Longrightarrow> event_ok C v"
    and "\<And>s. s \<in> set (sessions db) \<Longrightarrow>
      session_ok C (ops_of db (s_session_id s)) (events_of db (s_session_id s)) s"
    and "\<And>r. r \<in> set (operations db) \<Longrightarrow>
      op_ok C r (batches_of db (o_operation_id r)) (children_of db)"
  using assms by (auto simp: kernel_inv_def schema_ok_def constraints_ok_def)

lemma kernel_inv_keys:
  assumes "kernel_inv C db"
  shows "unique_on a_agent_id (agents db)"
    and "unique_on s_session_id (sessions db)"
    and "unique_on c_command_id (commands db)"
    and "unique_on o_operation_id (operations db)"
    and "unique_on o_command_id (operations db)"
    and "unique_on v_event_id (semantic_events db)"
    and "unique_on b_batch_id (effect_batches db)"
    and "unique_on e_effect_id (effects db)"
    and "unique_on x_cancellation_id (cancellation_requests db)"
  using keys_okD [OF kernel_invD(5) [OF assms]] by blast+

text \<open>The invariant of one operation only looks at the children of its own batches and pointers.\<close>

lemma op_ok_cong:
  assumes "\<And>b. b \<in> set bs \<Longrightarrow> ch' (b_batch_id b) = ch (b_batch_id b)"
    and "\<And>b. o_current_effect_batch_id r = Some b \<Longrightarrow> b \<in> b_batch_id ` set bs"
    and "\<And>b. o_input_effect_batch_id r = Some b \<Longrightarrow> b \<in> b_batch_id ` set bs"
  shows "op_ok C r bs ch' = op_ok C r bs ch"
proof -
  have cur: "ch' b = ch b" if "o_current_effect_batch_id r = Some b" for b
    using assms(1,2) that by blast
  have inp: "ch' b = ch b" if "o_input_effect_batch_id r = Some b" for b
    using assms(1,3) that by blast
  have "pointers_match r ch' = pointers_match r ch"
    unfolding pointers_match_def using cur inp by (auto simp: all_settled_def)
  moreover have "batches_ok C r bs ch' = batches_ok C r bs ch"
    unfolding batches_ok_def using assms(1) by (simp cong: ball_cong)
  ultimately show ?thesis by (simp only: op_ok_def)
qed

lemma batch_pointers_owned:
  assumes "pointers_ok db" and "r \<in> set (operations db)"
  shows "o_current_effect_batch_id r = Some b \<Longrightarrow> b \<in> b_batch_id ` set (batches_of db (o_operation_id r))"
    and "o_input_effect_batch_id r = Some b \<Longrightarrow> b \<in> b_batch_id ` set (batches_of db (o_operation_id r))"
  using assms by (force simp: pointers_ok_iff batches_of_def)+

lemma batch_owner_unique:
  assumes "kernel_inv C db" and "b \<in> set (batches_of db o1)" and "b' \<in> set (batches_of db o2)"
    and "b_batch_id b = b_batch_id b'"
  shows "o1 = o2"
proof -
  have "b = b'"
    using unique_onD [OF kernel_inv_keys(7) [OF assms(1)]] assms(2-4) by (simp add: batches_of_def)
  then show ?thesis using assms(2,3) by (simp add: batches_of_def)
qed

lemma command_key_canonical:
  assumes "kernel_inv C db" and "r \<in> set (operations db)"
  shows "canonical C (o_command_id r)" and "canonical C (o_operation_id r)"
    and "canonical C (o_session_id r)"
proof -
  obtain c where c: "c \<in> set (commands db)" "c_command_id c = o_command_id r"
    using referenced(5) [OF kernel_invD(4) [OF assms(1)] assms(2)] by blast
  show "canonical C (o_command_id r)"
    using kernel_invD(7) [OF assms(1) c(1)] c(2) by (auto simp: command_ok_def canonical_def)
  show "canonical C (o_operation_id r)"
    using kernel_invD(10) [OF assms] by (simp add: op_ok_def)
  show "canonical C (o_session_id r)"
    using referenced(1) [OF kernel_invD(4) [OF assms(1)] assms(2)] kernel_invD(9) [OF assms(1)]
    by (force simp: session_ok_def)
qed

text \<open>The operation a session is running is the one its pointer names.\<close>

lemma active_session:
  assumes inv: "kernel_inv C db" and r: "r \<in> set (operations db)" "active_phase (o_phase r)"
    and s: "s \<in> set (sessions db)" "s_session_id s = o_session_id r"
  shows "s_active_operation_id s = Some (o_operation_id r)"
proof -
  have "r \<in> set (ops_of db (s_session_id s))" using r(1) s(2) by (simp add: ops_of_def)
  then show ?thesis using kernel_invD(9) [OF inv s(1)] r(2) by (simp add: session_ok_def)
qed

lemma pointed_operation:
  assumes inv: "kernel_inv C db" and s: "s \<in> set (sessions db)" "s_active_operation_id s = Some a"
    and r: "r \<in> set (operations db)" "o_operation_id r = a"
  shows "o_session_id r = s_session_id s" and "active_phase (o_phase r)"
proof -
  obtain r' where r': "r' \<in> set (operations db)" "o_session_id r' = s_session_id s" "o_operation_id r' = a"
    using kernel_invD(3) [OF inv] s by (auto simp: pointers_ok_iff)
  then have "r' = r" using unique_onD [OF kernel_inv_keys(4) [OF inv]] r by metis
  then show sess: "o_session_id r = s_session_id s" using r' by simp
  have "r \<in> set (ops_of db (s_session_id s))" using r(1) sess by (simp add: ops_of_def)
  then show "active_phase (o_phase r)"
    using kernel_invD(9) [OF inv s(1)] s(2) r(2) by (simp add: session_ok_def)
qed

subsection \<open>The frame of a change to one operation\<close>

lemma ops_of_update:
  assumes "\<And>r. r \<in> set (operations db) \<Longrightarrow> o_operation_id r = oid \<Longrightarrow> o_session_id (f r) = o_session_id r"
    and "operations db' = update_where (\<lambda>r. o_operation_id r = oid) f (operations db)"
  shows "ops_of db' sid = update_where (\<lambda>r. o_operation_id r = oid) f (ops_of db sid)"
  unfolding ops_of_def assms(2) by (rule filter_update_where) (simp add: assms(1))

lemma events_of_append:
  assumes "semantic_events db' = semantic_events db @ new"
    and "\<And>v. v \<in> set new \<Longrightarrow> v_session_id v = sid"
  shows "events_of db' sid' = (if sid' = sid then events_of db sid @ new else events_of db sid')"
proof -
  have "filter (\<lambda>v. v_session_id v = sid') new = (if sid' = sid then new else [])"
    using assms(2) by (auto simp: filter_empty_conv)
  then show ?thesis by (simp add: events_of_def assms(1))
qed

lemma batches_of_append:
  assumes "effect_batches db' = effect_batches db @ new"
    and "\<And>b. b \<in> set new \<Longrightarrow> b_operation_id b = oid"
  shows "batches_of db' oid' = (if oid' = oid then batches_of db oid @ new else batches_of db oid')"
proof -
  have "filter (\<lambda>b. b_operation_id b = oid') new = (if oid' = oid then new else [])"
    using assms(2) by (auto simp: filter_empty_conv)
  then show ?thesis by (simp add: batches_of_def assms(1))
qed

text \<open>The session of the changed operation keeps its numbering and its one active operation.\<close>

lemma session_ok_change:
  assumes s: "session_ok C ops evs s"
    and keys: "s_session_id (g s) = s_session_id s" "s_agent_id (g s) = s_agent_id s"
      "s_next_command_position (g s) = s_next_command_position s"
      "s_next_event_sequence (g s) = s_next_event_sequence s + int (length new)"
    and pos: "map o_position ops' = map o_position ops"
    and seqs: "map v_sequence new = map (\<lambda>i. s_next_event_sequence s + int i) [0..<length new]"
    and act: "\<And>r. r \<in> set ops' \<Longrightarrow>
      active_phase (o_phase r) = (s_active_operation_id (g s) = Some (o_operation_id r))"
  shows "session_ok C ops' (evs @ new) (g s)"
proof -
  have "gapless (s_next_event_sequence s + int (length new)) (map v_sequence (evs @ new))"
    using s gapless_append_run [of "s_next_event_sequence s" "map v_sequence evs" "length new"]
    by (simp add: session_ok_def seqs)
  then show ?thesis
    using s act by (simp add: session_ok_def keys pos)
qed

text \<open>
  What a transaction that changes operation \<open>oid\<close> of session \<open>sid\<close> does to the tables: the row
  by \<open>f\<close>, the session by \<open>g\<close>, new events and batches at the end, and effects of that operation
  only.
\<close>

definition changes ::
    "'t \<Rightarrow> 't \<Rightarrow> ('t operation_row \<Rightarrow> 't operation_row) \<Rightarrow> ('t session_row \<Rightarrow> 't session_row) \<Rightarrow>
     't event_row list \<Rightarrow> 't batch_row list \<Rightarrow> 't db \<Rightarrow> 't db \<Rightarrow> bool" where
  "changes sid oid f g evs bs db db' \<longleftrightarrow>
     agents db' = agents db \<and> commands db' = commands db \<and>
     cancellation_requests db' = cancellation_requests db \<and>
     sessions db' = update_where (\<lambda>s. s_session_id s = sid) g (sessions db) \<and>
     operations db' = update_where (\<lambda>r. o_operation_id r = oid) f (operations db) \<and>
     semantic_events db' = semantic_events db @ evs \<and>
     effect_batches db' = effect_batches db @ bs \<and>
     (\<forall>v \<in> set evs. v_session_id v = sid \<and> v_operation_id v = oid) \<and>
     (\<forall>b \<in> set bs. b_operation_id b = oid) \<and>
     (\<forall>b \<in> set (effect_batches db). b_operation_id b \<noteq> oid \<longrightarrow>
        children_of db' (b_batch_id b) = children_of db (b_batch_id b))"

lemma changesD:
  assumes "changes sid oid f g evs bs db db'"
  shows "agents db' = agents db" and "commands db' = commands db"
    and "cancellation_requests db' = cancellation_requests db"
    and "sessions db' = update_where (\<lambda>s. s_session_id s = sid) g (sessions db)"
    and "operations db' = update_where (\<lambda>r. o_operation_id r = oid) f (operations db)"
    and "semantic_events db' = semantic_events db @ evs"
    and "effect_batches db' = effect_batches db @ bs"
    and "\<And>v. v \<in> set evs \<Longrightarrow> v_session_id v = sid"
    and "\<And>b. b \<in> set bs \<Longrightarrow> b_operation_id b = oid"
    and "\<And>b. b \<in> set (effect_batches db) \<Longrightarrow> b_operation_id b \<noteq> oid \<Longrightarrow>
      children_of db' (b_batch_id b) = children_of db (b_batch_id b)"
  using assms unfolding changes_def by blast+

lemma kernel_inv_change:
  assumes inv: "kernel_inv C db" and schema: "schema_ok db'"
    and ch: "changes sid oid f g evs bs db db'"
    and r0: "r0 \<in> set (operations db)" "o_operation_id r0 = oid" "o_session_id r0 = sid"
    and f: "o_operation_id (f r0) = oid" "o_session_id (f r0) = sid" "o_position (f r0) = o_position r0"
    and g: "\<And>s. s \<in> set (sessions db) \<Longrightarrow> s_session_id s = sid \<Longrightarrow>
      s_session_id (g s) = sid \<and> s_agent_id (g s) = s_agent_id s \<and>
      s_next_command_position (g s) = s_next_command_position s \<and>
      s_next_event_sequence (g s) = s_next_event_sequence s + int (length evs) \<and>
      map v_sequence evs = map (\<lambda>i. s_next_event_sequence s + int i) [0..<length evs] \<and>
      s_active_operation_id s \<in> {None, Some oid} \<and>
      s_active_operation_id (g s) = (if active_phase (o_phase (f r0)) then Some oid else None)"
    and evs: "\<And>v. v \<in> set evs \<Longrightarrow> event_ok C v"
    and op: "op_ok C (f r0) (batches_of db' oid) (children_of db')"
  shows "kernel_inv C db'"
proof -
  note c = changesD [OF ch]
  have only: "r = r0" if "r \<in> set (operations db)" "o_operation_id r = oid" for r
    using unique_onD [OF kernel_inv_keys(4) [OF inv]] that r0 by metis
  have f': "o_session_id (f r) = o_session_id r" if "r \<in> set (operations db)" "o_operation_id r = oid" for r
    using only [OF that] f(2) r0(3) by simp
  have mem: "r \<in> set (operations db') \<longleftrightarrow> r = f r0 \<or> (r \<in> set (operations db) \<and> o_operation_id r \<noteq> oid)" for r
    unfolding c(5) by (rule update_where_one, rule r0(1), rule r0(2), erule (1) only)
  have evs_of: "events_of db' sid' = (if sid' = sid then events_of db sid @ evs else events_of db sid')" for sid'
    by (rule events_of_append [OF c(6,8)])
  have bs_of: "batches_of db' oid' = (if oid' = oid then batches_of db oid @ bs else batches_of db oid')" for oid'
    by (rule batches_of_append [OF c(7,9)])
  have ops': "ops_of db' sid' = update_where (\<lambda>r. o_operation_id r = oid) f (ops_of db sid')" for sid'
    by (rule ops_of_update [OF f' c(5)])
  have pos: "map o_position (ops_of db' sid') = map o_position (ops_of db sid')" for sid'
    unfolding ops' using only f(3) by (auto simp: update_where_def ops_of_def)
  have op': "op_ok C r (batches_of db' (o_operation_id r)) (children_of db')"
    if "r \<in> set (operations db')" for r
  proof (cases "r = f r0")
    case True
    then show ?thesis using op f(1) by simp
  next
    case False
    then have r: "r \<in> set (operations db)" "o_operation_id r \<noteq> oid" using that mem by auto
    have bs: "batches_of db' (o_operation_id r) = batches_of db (o_operation_id r)"
      using bs_of r(2) by simp
    have "op_ok C r (batches_of db (o_operation_id r)) (children_of db') =
        op_ok C r (batches_of db (o_operation_id r)) (children_of db)"
    proof (rule op_ok_cong)
      show "children_of db' (b_batch_id b) = children_of db (b_batch_id b)"
        if "b \<in> set (batches_of db (o_operation_id r))" for b
        using that r(2) c(10) by (simp add: batches_of_def)
    qed (use batch_pointers_owned [OF kernel_invD(3) [OF inv] r(1)] in blast)+
    then show ?thesis using kernel_invD(10) [OF inv r(1)] bs by simp
  qed
  have sess: "session_ok C (ops_of db' (s_session_id s)) (events_of db' (s_session_id s)) s"
    if "s \<in> set (sessions db')" for s
  proof -
    from that obtain s0 where s0: "s0 \<in> set (sessions db)"
      "(s_session_id s0 = sid \<and> s = g s0) \<or> (s_session_id s0 \<noteq> sid \<and> s = s0)"
      unfolding c(4) update_where_mem by blast
    note ok = kernel_invD(9) [OF inv s0(1)]
    from s0(2) show ?thesis
    proof
      assume s: "s_session_id s0 = sid \<and> s = g s0"
      have gs: "s_session_id s0 = sid" "s = g s0" using s by auto
      note g0 = g [OF s0(1) gs(1)]
      have "session_ok C (ops_of db' sid) (events_of db sid @ evs) (g s0)"
      proof (rule session_ok_change [where g = g and s = s0 and ops = "ops_of db sid"])
        show "session_ok C (ops_of db sid) (events_of db sid) s0" using ok s by simp
        fix r assume "r \<in> set (ops_of db' sid)"
        then have r: "r = f r0 \<or> (r \<in> set (ops_of db sid) \<and> o_operation_id r \<noteq> oid)"
          using mem by (auto simp: ops_of_def)
        have act: "active_phase (o_phase r) = (s_active_operation_id s0 = Some (o_operation_id r))"
          if "r \<in> set (ops_of db sid)"
          using ok that gs(1) by (simp add: session_ok_def)
        from r show "active_phase (o_phase r) = (s_active_operation_id (g s0) = Some (o_operation_id r))"
          using act g0 f(1) by auto
      qed (use g0 gs pos in simp_all)
      then show ?thesis using gs g0 evs_of by simp
    next
      assume s: "s_session_id s0 \<noteq> sid \<and> s = s0"
      have "ops_of db' (s_session_id s0) = ops_of db (s_session_id s0)"
        unfolding ops' using only r0(3) s by (intro update_where_id) (auto simp: ops_of_def)
      then show ?thesis using ok s evs_of by simp
    qed
  qed
  show ?thesis
    unfolding kernel_inv_def
    unfolding c(1,2,6) using schema evs op' sess kernel_invD(6,7,8) [OF inv] by auto
qed

subsection \<open>The end of an operation\<close>

text \<open>What the trigger leaves of the children of a batch when their operation gets an outcome.\<close>

definition release_children :: "'t effect_row list \<Rightarrow> 't effect_row list" where
  "release_children es =
     (if all_settled es then map (\<lambda>e. e\<lparr>e_request_json := None\<rparr>) es else es)"

lemma release_children_facts:
  shows "all_settled (release_children es) = all_settled es"
    and "map e_position (release_children es) = map e_position es"
    and "map e_status (release_children es) = map e_status es"
    and "length (release_children es) = length es"
    and "release_children es = [] \<longleftrightarrow> es = []"
  by (auto simp: release_children_def all_settled_def o_def)

lemma release_children_mem:
  assumes "e \<in> set (release_children es)"
  obtains e0 where "e0 \<in> set es"
    and "e = (if all_settled es then e0\<lparr>e_request_json := None\<rparr> else e0)"
  using assms by (auto simp: release_children_def split: if_splits)

lemma children_set_operation:
  "children_of (set_operation oid f db) bid =
   map (released (db\<lparr>operations := update_where (\<lambda>r. o_operation_id r = oid) f (operations db)\<rparr>) oid)
     (children_of db bid)"
  by (simp add: children_of_def set_operation_def Let_def filter_map o_def)

lemma children_set_operation_other:
  assumes "unique_on b_batch_id (effect_batches db)"
    and "b \<in> set (effect_batches db)" and "b_operation_id b \<noteq> oid"
  shows "children_of (set_operation oid f db) (b_batch_id b) = children_of db (b_batch_id b)"
proof -
  have "\<not> releasable (db\<lparr>operations := rs\<rparr>) oid e" if "e \<in> set (children_of db (b_batch_id b))" for e rs
  proof
    assume "releasable (db\<lparr>operations := rs\<rparr>) oid e"
    then obtain b' where b': "b' \<in> set (effect_batches db)" "b_batch_id b' = e_batch_id e"
        "b_operation_id b' = oid"
      by (auto simp: releasable_def)
    then have "b' = b" using unique_onD [OF assms(1) b'(1) assms(2)] that by (simp add: children_of_def)
    then show False using b'(3) assms(3) by simp
  qed
  then show ?thesis unfolding children_set_operation by (intro map_idI) (simp add: released_def)
qed

lemma children_set_operation_own:
  assumes b: "b \<in> set (batches_of db oid)"
    and r: "r \<in> set (operations db)" "o_operation_id r = oid"
    and f: "o_operation_id (f r) = oid" "o_outcome_json (f r) \<noteq> None"
  shows "children_of (set_operation oid f db) (b_batch_id b) =
    release_children (children_of db (b_batch_id b))"
proof -
  let ?db1 = "db\<lparr>operations := update_where (\<lambda>r. o_operation_id r = oid) f (operations db)\<rparr>"
  let ?es = "children_of db (b_batch_id b)"
  have "f r \<in> set (operations ?db1)" using r by (auto simp: update_where_mem)
  then have own: "\<exists>r \<in> set (operations ?db1). o_operation_id r = oid \<and> o_outcome_json r \<noteq> None"
    using f by blast
  have bat: "\<exists>x \<in> set (effect_batches ?db1). b_batch_id x = b_batch_id b \<and> b_operation_id x = oid"
    using b by (auto simp: batches_of_def)
  have "releasable ?db1 oid e \<longleftrightarrow> all_settled ?es" if "e \<in> set ?es" for e
  proof -
    have bid: "e_batch_id e = b_batch_id b" using that by (simp add: children_of_def)
    have "(\<forall>f \<in> set (effects ?db1). e_batch_id f = e_batch_id e \<longrightarrow> e_status f = ''settled'') \<longleftrightarrow> all_settled ?es"
      by (auto simp: all_settled_def children_of_def bid)
    moreover have "all_settled ?es \<Longrightarrow> e_status e = ''settled''" using that by (simp add: all_settled_def)
    ultimately show ?thesis unfolding releasable_def bid using own bat by blast
  qed
  then have "map (released ?db1 oid) ?es = release_children ?es"
    by (auto simp: released_def release_children_def intro: map_idI)
  then show ?thesis by (simp only: children_set_operation)
qed

lemma update_operation_children:
  assumes "\<And>r. r \<in> set (operations db) \<Longrightarrow> o_operation_id r = oid \<Longrightarrow>
      o_operation_id (f r) = oid \<and> o_outcome_json (f r) = None"
  shows "children_of (set_operation oid f db) = children_of db"
proof (rule view_eqs)
  show "effects (set_operation oid f db) = effects db"
    using set_operation_no_release [of db oid f] assms by simp
qed


lemma row_manifest_eq: "o_manifest_json r' = o_manifest_json r \<Longrightarrow> row_manifest C r' = row_manifest C r"
  by (simp add: row_manifest_def)

lemma effect_ok_released: "effect_ok C M e \<Longrightarrow> effect_ok C M (e\<lparr>e_request_json := None\<rparr>)"
  by (simp add: effect_ok_def dispatch_ok_def)

lemma batch_ok_release: "batch_ok C M es \<Longrightarrow> batch_ok C M (release_children es)"
  unfolding batch_ok_def release_children_facts
  by (auto elim!: release_children_mem simp: effect_ok_released)

lemma outcome_phase_terminal: "terminal_phase (phase_as_str (outcome_phase oc))"
  by (cases oc) (simp_all add: terminal_phase_def)

lemma terminal_not_active: "terminal_phase p \<Longrightarrow> \<not> active_phase p \<and> p \<noteq> ''queued''"
  by (auto simp: terminal_phase_def active_phase_def)

lemma outcome_iff_terminal: "outcome_ok C r \<Longrightarrow> o_outcome_json r \<noteq> None \<longleftrightarrow> terminal_phase (o_phase r)"
  by (auto simp: outcome_ok_def outcome_phase_terminal split: option.splits)

lemma active_no_outcome: "op_ok C r bs ch \<Longrightarrow> active_phase (o_phase r) \<Longrightarrow> o_outcome_json r = None"
  using outcome_iff_terminal terminal_not_active by (metis op_ok_def)

lemma batches_ok_finish:
  assumes ok: "op_ok C r bs ch" and act: "active_phase (o_phase r)" "o_phase r \<noteq> ''effect_dispatched''"
    and key: "row_manifest C r' = row_manifest C r"
      "o_next_effect_batch_position r' = o_next_effect_batch_position r" "o_outcome_json r' \<noteq> None"
    and ch': "\<And>b. b \<in> set bs \<Longrightarrow> ch' (b_batch_id b) = release_children (ch (b_batch_id b))"
    and uniq: "\<And>b b'. b \<in> set bs \<Longrightarrow> b' \<in> set bs \<Longrightarrow> b_batch_id b = b_batch_id b' \<Longrightarrow> b = b'"
  shows "batches_ok C r' bs ch'"
proof -
  note none = active_no_outcome [OF ok act(1)]
  note bo = ok [unfolded op_ok_def batches_ok_def]
  have settled: "all_settled (ch (b_batch_id b))"
    if "b \<in> set bs" "Some (b_batch_id b) \<noteq> o_current_effect_batch_id r" for b
    using bo that none by blast
  have nostart: "e_status e \<noteq> ''dispatch_started''" if b: "b \<in> set bs" and e: "e \<in> set (ch (b_batch_id b))" for b e
  proof (cases "Some (b_batch_id b) = o_current_effect_batch_id r")
    case True
    then show ?thesis
      using ok act e by (fastforce simp: op_ok_def pointers_match_def active_phase_def)
  next
    case False
    then show ?thesis using settled b e by (simp add: all_settled_def)
  qed
  have one: "b = b'" if "b \<in> set bs" "b' \<in> set bs" "\<not> all_settled (ch (b_batch_id b))"
      "\<not> all_settled (ch (b_batch_id b'))" for b b'
    using settled that uniq by (metis option.inject)
  have req: "e_request_json e \<noteq> None" if "b \<in> set bs" "e \<in> set (ch (b_batch_id b))" for b e
    using bo that none by blast
  show ?thesis
    unfolding batches_ok_def
  proof (intro conjI ballI impI)
    show "gapless (o_next_effect_batch_position r') (map b_position bs)" using bo key(2) by simp
    fix b assume b: "b \<in> set bs"
    show "canonical C (b_batch_id b)" using bo b by blast
    show "\<exists>M. row_manifest C r' = Some M \<and> batch_ok C M (ch' (b_batch_id b))"
      using bo b batch_ok_release unfolding key(1) ch' [OF b] by blast
    show "all_settled (ch' (b_batch_id b))" if "o_outcome_json r' = None" using that key(3) by simp
    show "b = b'" if "b' \<in> set bs" "\<not> all_settled (ch' (b_batch_id b))" "\<not> all_settled (ch' (b_batch_id b'))" for b'
      using that one b by (simp add: ch' release_children_facts)
    fix e assume e: "e \<in> set (ch' (b_batch_id b))"
    from e [unfolded ch' [OF b]] obtain e0 where e0: "e0 \<in> set (ch (b_batch_id b))"
      "e = (if all_settled (ch (b_batch_id b)) then e0\<lparr>e_request_json := None\<rparr> else e0)"
      by (rule release_children_mem)
    show "e_status e \<noteq> ''dispatch_started''" using nostart [OF b e0(1)] e0(2) by simp
    show "(e_request_json e = None) = (o_outcome_json r' \<noteq> None \<and> all_settled (ch' (b_batch_id b)))"
      using req [OF b e0(1)] e0(2) key(3) by (simp add: ch' [OF b] release_children_facts)
  qed
qed

text \<open>
  An operation in an active phase other than a dispatched batch that gets a terminal phase, its
  outcome and a checkpoint, and loses its batch pointers, is well formed again.
\<close>

lemma op_ok_finish:
  assumes ok: "op_ok C r bs ch" and act: "active_phase (o_phase r)" "o_phase r \<noteq> ''effect_dispatched''"
    and key: "o_operation_id r' = o_operation_id r" "o_state_version r' = o_state_version r"
      "o_manifest_json r' = o_manifest_json r"
      "o_next_effect_batch_position r' = o_next_effect_batch_position r"
    and out: "o_outcome_json r' = Some ocj" "outcome_from_json C ocj = Some oc"
      "o_phase r' = phase_as_str (outcome_phase oc)"
    and cp: "o_checkpoint_json r' = Some cpj" "checkpoint_from_json C cpj = Some cp"
      "row_manifest C r = Some M" "schema_version cp = checkpoint_schema_version M"
    and ptr: "o_current_effect_batch_id r' = None" "o_input_effect_batch_id r' = None"
    and ch': "\<And>b. b \<in> set bs \<Longrightarrow> ch' (b_batch_id b) = release_children (ch (b_batch_id b))"
    and uniq: "\<And>b b'. b \<in> set bs \<Longrightarrow> b' \<in> set bs \<Longrightarrow> b_batch_id b = b_batch_id b' \<Longrightarrow> b = b'"
  shows "op_ok C r' bs ch'"
proof -
  have man: "row_manifest C r' = row_manifest C r" by (rule row_manifest_eq) (rule key(3))
  have ph: "o_phase r' \<noteq> ''queued''" "\<not> active_phase (o_phase r')"
    using terminal_not_active [OF outcome_phase_terminal] out(3) by auto
  have "batches_ok C r' bs ch'"
    by (rule batches_ok_finish [OF ok act man key(4) _ ch' uniq]) (simp_all add: out(1))
  moreover have "checkpoint_ok C r'"
    using cp ph by (auto simp: checkpoint_ok_def man)
  moreover have "pointers_match r' ch'"
    using ptr ph by (auto simp: pointers_match_def active_phase_def)
  moreover have "outcome_ok C r'" using out by (auto simp: outcome_ok_def)
  ultimately show ?thesis using ok key by (simp add: op_ok_def)
qed

end
