(* ===== verification/Kernel_Operations.thy ===== *)
theory Kernel_Operations
  imports Kernel_Invariant
begin

section \<open>Stored operations\<close>

text \<open>
  \<open>operation_store.rs\<close>: the decoding of an operation row, with every check that fails closed on
  a version, identity, manifest or checkpoint the kernel cannot trust.
\<close>

record 'v StoredOperation =
  so_command :: "'v Command"
  so_phase :: OperationPhase
  so_transition_version :: i64
  so_manifest :: "RuntimeManifest option"
  so_checkpoint :: "'v Checkpoint option"
  so_current_effect_batch_id :: "EffectBatchId option"
  so_input_effect_batch_id :: "EffectBatchId option"
  so_outcome :: "OperationOutcome option"

definition require_state_version :: "i64 \<Rightarrow> unit kernel_result" where
  "require_state_version version =
     (let supported = OPERATION_STATE_VERSION in
      if version = int supported then Inr ()
      else if version > int supported
      then Inl (UnsupportedStateVersion
        (if version < 2 ^ 32 then nat version else u32_max) supported)
      else Inl (Corrupt ''invalid operation state version''))"

text \<open>The row of the operation joined with its command, decoded column by column.\<close>

definition decode_operation ::
    "('t, 'v) codec \<Rightarrow> 't operation_row \<times> 't command_row \<Rightarrow> 'v StoredOperation kernel_result" where
  "decode_operation C row =
     (case row of (r, c) \<Rightarrow>
       and_then (require_state_version (o_state_version r)) (\<lambda>_.
       and_then (decode (command_from_json C) (c_content_json c)) (\<lambda>command.
       and_then (parse_command_id C (o_command_id r)) (\<lambda>cid.
       if command_id command \<noteq> cid
       then Inl (Corrupt ''operation command identity differs from stored content'')
       else
       and_then (transpose_map (decode (manifest_from_json C)) (o_manifest_json r)) (\<lambda>manifest.
       and_then (transpose_map (decode (checkpoint_from_json C)) (o_checkpoint_json r)) (\<lambda>checkpoint.
       and_then (case manifest of
           Some m \<Rightarrow> require_compatible_checkpoint m checkpoint
         | None \<Rightarrow> if checkpoint \<noteq> None
             then Inl (Corrupt ''operation checkpoint has no runtime manifest'') else Inr ()) (\<lambda>_.
       and_then (phase_from_database (o_phase r)) (\<lambda>phase.
       and_then (transpose_map (parse_effect_batch_id C) (o_current_effect_batch_id r)) (\<lambda>current.
       and_then (transpose_map (parse_effect_batch_id C) (o_input_effect_batch_id r)) (\<lambda>input.
       and_then (transpose_map (decode (outcome_from_json C)) (o_outcome_json r)) (\<lambda>outcome.
       Inr \<lparr>so_command = command, so_phase = phase,
            so_transition_version = o_transition_version r, so_manifest = manifest,
            so_checkpoint = checkpoint, so_current_effect_batch_id = current,
            so_input_effect_batch_id = input, so_outcome = outcome\<rparr>)))))))))))"

text \<open>The join of \<open>operations\<close> with \<open>commands\<close> that the loads share.\<close>

definition operation_rows :: "'t db \<Rightarrow> ('t operation_row \<times> 't command_row) list" where
  "operation_rows db =
     [(r, c). r \<leftarrow> operations db, c \<leftarrow> commands db,
              c_session_id c = o_session_id r, c_command_id c = o_command_id r]"

definition load_operation ::
    "('t, 'v) codec \<Rightarrow> SessionId \<Rightarrow> OperationId \<Rightarrow> 't db \<Rightarrow>
     'v StoredOperation option kernel_result" where
  "load_operation C session_id operation_id db =
     transpose_map (decode_operation C)
       (find (\<lambda>(r, c). o_session_id r = to_string C session_id \<and>
                       o_operation_id r = to_string C operation_id) (operation_rows db))"

subsection \<open>Every stored operation can be read\<close>

text \<open>What a decoded operation says of its row.\<close>

definition stored_shows :: "('t, 'v) codec \<Rightarrow> 't operation_row \<Rightarrow> 'v StoredOperation \<Rightarrow> bool" where
  "stored_shows C r stored \<longleftrightarrow>
     phase_as_str (so_phase stored) = o_phase r \<and>
     to_string C (command_id (so_command stored)) = o_command_id r \<and>
     so_transition_version stored = o_transition_version r \<and>
     so_manifest stored = row_manifest C r \<and>
     so_checkpoint stored = Option.bind (o_checkpoint_json r) (checkpoint_from_json C) \<and>
     map_option (to_string C) (so_current_effect_batch_id stored) = o_current_effect_batch_id r \<and>
     map_option (to_string C) (so_input_effect_batch_id stored) = o_input_effect_batch_id r \<and>
     so_outcome stored = Option.bind (o_outcome_json r) (outcome_from_json C)"

definition command_of :: "'t db \<Rightarrow> 't operation_row \<Rightarrow> 't command_row" where
  "command_of db r = hd (filter (\<lambda>c. c_session_id c = o_session_id r \<and>
     c_command_id c = o_command_id r) (commands db))"

lemma operation_command:
  assumes "kernel_inv C db" and "r \<in> set (operations db)"
  shows "filter (\<lambda>c. c_session_id c = o_session_id r \<and> c_command_id c = o_command_id r)
      (commands db) = [command_of db r]"
proof -
  obtain c where c: "c \<in> set (commands db)"
      "c_session_id c = o_session_id r \<and> c_command_id c = o_command_id r"
    using referenced(5) [OF kernel_invD(4) [OF assms(1)] assms(2)] by blast
  have "filter (\<lambda>c. c_session_id c = o_session_id r \<and> c_command_id c = o_command_id r)
      (commands db) = [c]"
    by (rule filter_unique [where k = c_command_id]) (use c kernel_inv_keys(3) [OF assms(1)] in auto)
  then show ?thesis by (simp add: command_of_def)
qed

lemma command_of_row:
  assumes "kernel_inv C db" and "r \<in> set (operations db)"
  shows "command_of db r \<in> set (commands db)" and "c_command_id (command_of db r) = o_command_id r"
    and "c_session_id (command_of db r) = o_session_id r"
proof -
  have "command_of db r \<in> set (filter (\<lambda>c. c_session_id c = o_session_id r \<and>
      c_command_id c = o_command_id r) (commands db))"
    using operation_command [OF assms] by simp
  then show "command_of db r \<in> set (commands db)" "c_command_id (command_of db r) = o_command_id r"
    "c_session_id (command_of db r) = o_session_id r" by simp_all
qed

lemma operation_rows_eq:
  assumes "kernel_inv C db"
  shows "operation_rows db = map (\<lambda>r. (r, command_of db r)) (operations db)"
proof -
  have "operation_rows db = concat (map (\<lambda>r. [(r, command_of db r)]) (operations db))"
    unfolding operation_rows_def
  proof (intro arg_cong [where f = concat] map_cong refl)
    fix r assume r: "r \<in> set (operations db)"
    show "concat (map (\<lambda>c. if c_session_id c = o_session_id r then
        if c_command_id c = o_command_id r then [(r, c)] else [] else []) (commands db)) =
      [(r, command_of db r)]"
      by (simp only: if_conj comprehension_filter operation_command [OF assms r] list.map)
  qed
  then show ?thesis by simp
qed

lemma phase_decodes:
  assumes "constraints_ok db" and "r \<in> set (operations db)"
  shows "\<exists>p. phase_from_database (o_phase r) = Inr p \<and> phase_as_str p = o_phase r"
  using assms
  by (auto simp: constraints_ok_def list_all_iff operation_checks_def phase_from_database_def)

lemma pointer_canonical:
  assumes "kernel_inv C db" and "r \<in> set (operations db)"
    and "o_current_effect_batch_id r = Some b \<or> o_input_effect_batch_id r = Some b"
  shows "canonical C b"
proof -
  have "b \<in> b_batch_id ` set (batches_of db (o_operation_id r))"
    using batch_pointers_owned [OF kernel_invD(3) [OF assms(1)] assms(2)] assms(3) by blast
  then show ?thesis
    using kernel_invD(10) [OF assms(1,2)] by (auto simp: op_ok_def batches_ok_def)
qed

lemma parse_pointer:
  assumes "codec_ok C" and "\<And>b. p = Some b \<Longrightarrow> canonical C b"
  shows "\<exists>u. transpose_map (parse_effect_batch_id C) p = Inr u \<and> map_option (to_string C) u = p"
proof (cases p)
  case (Some b)
  then obtain u where "b = to_string C u" using assms(2) by (auto simp: canonical_def)
  then show ?thesis using Some parse_to_string(5) [OF assms(1)] by (auto intro: exI [of _ "Some u"])
qed simp

lemma decode_operation_shows:
  assumes C: "codec_ok C" and inv: "kernel_inv C db" and r: "r \<in> set (operations db)"
  shows "\<exists>stored. decode_operation C (r, command_of db r) = Inr stored \<and> stored_shows C r stored"
proof -
  have op: "o_state_version r = int OPERATION_STATE_VERSION" "outcome_ok C r" "checkpoint_ok C r"
    using kernel_invD(10) [OF inv r] by (simp_all add: op_ok_def)
  obtain cmd where cmd: "command_from_json C (c_content_json (command_of db r)) = Some cmd"
      "o_command_id r = to_string C (command_id cmd)"
    using kernel_invD(7) [OF inv command_of_row(1) [OF inv r]] command_of_row(2) [OF inv r]
    by (auto simp: command_ok_def)
  obtain p where p: "phase_from_database (o_phase r) = Inr p" "phase_as_str p = o_phase r"
    using phase_decodes [OF kernel_invD(2) [OF inv] r] by blast
  obtain cur inp where ptr:
      "transpose_map (parse_effect_batch_id C) (o_current_effect_batch_id r) = Inr cur"
      "map_option (to_string C) cur = o_current_effect_batch_id r"
      "transpose_map (parse_effect_batch_id C) (o_input_effect_batch_id r) = Inr inp"
      "map_option (to_string C) inp = o_input_effect_batch_id r"
    using parse_pointer [OF C pointer_canonical [OF inv r]] by metis
  have man: "transpose_map (decode (manifest_from_json C)) (o_manifest_json r) = Inr (row_manifest C r)"
    using op(3) by (cases "o_manifest_json r") (auto simp: checkpoint_ok_def row_manifest_def)
  have cp: "transpose_map (decode (checkpoint_from_json C)) (o_checkpoint_json r) =
        Inr (Option.bind (o_checkpoint_json r) (checkpoint_from_json C))"
      "(case row_manifest C r of
           Some m \<Rightarrow> require_compatible_checkpoint m (Option.bind (o_checkpoint_json r) (checkpoint_from_json C))
         | None \<Rightarrow> if Option.bind (o_checkpoint_json r) (checkpoint_from_json C) \<noteq> None
             then Inl (Corrupt ''operation checkpoint has no runtime manifest'') else Inr ()) = Inr ()"
    using op(3) by (cases "o_checkpoint_json r";
        force simp: checkpoint_ok_def require_compatible_checkpoint_def split: option.splits)+
  have oc: "transpose_map (decode (outcome_from_json C)) (o_outcome_json r) =
      Inr (Option.bind (o_outcome_json r) (outcome_from_json C))"
    using op(2) by (cases "o_outcome_json r") (auto simp: outcome_ok_def)
  show ?thesis
    by (simp add: decode_operation_def require_state_version_def op(1) cmd man cp oc ptr p
        parse_to_string [OF C] stored_shows_def)
qed

lemma load_operation_shows:
  assumes C: "codec_ok C" and inv: "kernel_inv C db" and r: "r \<in> set (operations db)"
    and key: "o_session_id r = to_string C session_id" "o_operation_id r = to_string C operation_id"
  shows "\<exists>stored. load_operation C session_id operation_id db = Inr (Some stored) \<and> stored_shows C r stored"
proof -
  have "find (\<lambda>(r, c). o_session_id r = to_string C session_id \<and> o_operation_id r = to_string C operation_id)
      (operation_rows db) = Some (r, command_of db r)"
    unfolding operation_rows_eq [OF inv]
    by (rule find_unique [where k = "\<lambda>(r, c). o_operation_id r"])
      (use r key kernel_inv_keys(4) [OF inv] in \<open>auto simp: unique_on_def o_def\<close>)
  then show ?thesis
    using decode_operation_shows [OF C inv r] by (auto simp: load_operation_def)
qed

lemma load_operation_missing:
  assumes inv: "kernel_inv C db"
    and no: "\<And>r. r \<in> set (operations db) \<Longrightarrow> o_session_id r = to_string C session_id \<Longrightarrow>
      o_operation_id r \<noteq> to_string C operation_id"
  shows "load_operation C session_id operation_id db = Inr None"
proof -
  have "find (\<lambda>(r, c). o_session_id r = to_string C session_id \<and> o_operation_id r = to_string C operation_id)
      (operation_rows db) = None"
    unfolding operation_rows_eq [OF inv] using no by (auto simp: find_None_iff)
  then show ?thesis by (simp add: load_operation_def)
qed

end
