(* ===== verification/Kernel_Sample.thy ===== *)
theory Kernel_Sample
  imports Kernel_Schema
begin

section \<open>A concrete codec\<close>

text \<open>
  An instance of the \<open>uuid\<close> and \<open>serde_json\<close> parameter: text that carries the value it was
  printed from. It satisfies \<open>codec_ok\<close>, so every theorem with that hypothesis applies to it, and
  the examples of the development are evaluated with it. JSON values are integers here.
\<close>

datatype sample_text =
    UuidText uuid
  | CommandText "int Command"
  | ManifestText RuntimeManifest
  | CheckpointText "int Checkpoint"
  | OutcomeText OperationOutcome
  | EffectOutcomeText "int EffectOutcome"
  | ValueText int

definition sample_codec :: "(sample_text, int) codec" where
  "sample_codec =
     \<lparr>to_string = UuidText,
      parse_str = (\<lambda>t. case t of UuidText u \<Rightarrow> Some u | _ \<Rightarrow> None),
      command_to_json = (\<lambda>c. Some (CommandText c)),
      command_from_json = (\<lambda>t. case t of CommandText c \<Rightarrow> Some c | _ \<Rightarrow> None),
      manifest_to_json = (\<lambda>m. Some (ManifestText m)),
      manifest_from_json = (\<lambda>t. case t of ManifestText m \<Rightarrow> Some m | _ \<Rightarrow> None),
      checkpoint_to_json = (\<lambda>c. Some (CheckpointText c)),
      checkpoint_from_json = (\<lambda>t. case t of CheckpointText c \<Rightarrow> Some c | _ \<Rightarrow> None),
      outcome_to_json = (\<lambda>c. Some (OutcomeText c)),
      outcome_from_json = (\<lambda>t. case t of OutcomeText c \<Rightarrow> Some c | _ \<Rightarrow> None),
      effect_outcome_to_json = (\<lambda>c. Some (EffectOutcomeText c)),
      effect_outcome_from_json = (\<lambda>t. case t of EffectOutcomeText c \<Rightarrow> Some c | _ \<Rightarrow> None),
      value_to_json = (\<lambda>v. Some (ValueText v)),
      value_from_json = (\<lambda>t. case t of ValueText v \<Rightarrow> Some v | _ \<Rightarrow> None)\<rparr>"

lemma sample_codec_ok: "codec_ok sample_codec"
  by (simp add: codec_ok_def sample_codec_def round_trip_def)

lemma sample_codec_simps [simp]:
  "to_string sample_codec = UuidText"
  "parse_str sample_codec (UuidText u) = Some u"
  "command_to_json sample_codec c = Some (CommandText c)"
  "command_from_json sample_codec (CommandText c) = Some c"
  "manifest_to_json sample_codec m = Some (ManifestText m)"
  "manifest_from_json sample_codec (ManifestText m) = Some m"
  "checkpoint_to_json sample_codec cp = Some (CheckpointText cp)"
  "checkpoint_from_json sample_codec (CheckpointText cp) = Some cp"
  "outcome_to_json sample_codec oc = Some (OutcomeText oc)"
  "outcome_from_json sample_codec (OutcomeText oc) = Some oc"
  "effect_outcome_to_json sample_codec eo = Some (EffectOutcomeText eo)"
  "effect_outcome_from_json sample_codec (EffectOutcomeText eo) = Some eo"
  "value_to_json sample_codec v = Some (ValueText v)"
  "value_from_json sample_codec (ValueText v) = Some v"
  by (simp_all add: sample_codec_def)

end
