(* ===== verification/Kernel_Admission.thy ===== *)
theory Kernel_Admission
  imports Kernel_Operations Kernel_Sample
begin

section \<open>Admission\<close>

text \<open>
  \<open>admission.rs\<close>: creation of agents and sessions and the durable admission of commands. Each
  operation is one transaction: it maps the database to its result with the new database, or to
  an error, after which the database is unchanged. The random identity \<open>OperationId::new()\<close>
  draws is an argument.
\<close>

datatype AdmissionMode = Ordered | RequireNoUnfinishedOperation

definition create_agent :: "('t, 'v) codec \<Rightarrow> AgentId \<Rightarrow> 't db \<Rightarrow> 't db kernel_result" where
  "create_agent C agent_id db =
     (if exists_row (\<lambda>a. a_agent_id a = to_string C agent_id) (agents db) then Inr db
      else execute (db\<lparr>agents := agents db @ [\<lparr>a_agent_id = to_string C agent_id\<rparr>]\<rparr>))"

definition create_session ::
    "('t, 'v) codec \<Rightarrow> SessionId \<Rightarrow> AgentId \<Rightarrow> 't db \<Rightarrow> 't db kernel_result" where
  "create_session C session_id agent_id db =
     (case find (\<lambda>s. s_session_id s = to_string C session_id) (sessions db) of
        Some s \<Rightarrow>
          and_then (parse_agent_id C (s_agent_id s)) (\<lambda>existing.
          if existing = agent_id then Inr db
          else Inl (SessionConflict session_id existing))
      | None \<Rightarrow>
          if \<not> exists_row (\<lambda>a. a_agent_id a = to_string C agent_id) (agents db)
          then Inl (AgentNotFound agent_id)
          else and_then (execute (db\<lparr>sessions := sessions db @
             [\<lparr>s_session_id = to_string C session_id, s_agent_id = to_string C agent_id,
               s_next_command_position = 0, s_active_operation_id = None,
               s_next_event_sequence = 0\<rparr>]\<rparr>)) commit)"

definition existing_admission ::
    "('t, 'v) codec \<Rightarrow> SessionId \<Rightarrow> CommandId \<Rightarrow> 't \<Rightarrow> 't db \<Rightarrow>
     Admission option kernel_result" where
  "existing_admission C session_id cid content_json db =
     (case first_row [(r, c). c \<leftarrow> commands db, c_command_id c = to_string C cid,
                              r \<leftarrow> operations db, o_command_id r = c_command_id c] of
        None \<Rightarrow> Inr None
      | Some (r, c) \<Rightarrow>
          and_then (parse_operation_id C (o_operation_id r)) (\<lambda>operation_id.
          if c_session_id c \<noteq> to_string C session_id \<or> c_content_json c \<noteq> content_json
          then Inl (CommandConflict cid operation_id)
          else and_then (from_sql_integer (o_position r) ''operation position'') (\<lambda>position.
            Inr (Some \<lparr>adm_operation_id = operation_id, adm_position = position\<rparr>))))"

text \<open>The one definition of an unfinished operation: \<open>outcome_json IS NULL\<close>.\<close>

definition unfinished_operation :: "'t operation_row \<Rightarrow> bool" where
  "unfinished_operation r \<longleftrightarrow> o_outcome_json r = None"

definition require_no_unfinished_operation ::
    "('t, 'v) codec \<Rightarrow> SessionId \<Rightarrow> 't db \<Rightarrow> unit kernel_result" where
  "require_no_unfinished_operation C session_id db =
     (case first_row (order_by o_position
        (filter (\<lambda>r. o_session_id r = to_string C session_id \<and> unfinished_operation r)
          (operations db))) of
        None \<Rightarrow> Inr ()
      | Some r \<Rightarrow>
          and_then (parse_operation_id C (o_operation_id r)) (\<lambda>operation_id.
          and_then (parse_command_id C (o_command_id r)) (\<lambda>cid.
          Inl (UnfinishedOperation operation_id cid))))"

definition queued_operation ::
    "('t, 'v) codec \<Rightarrow> OperationId \<Rightarrow> SessionId \<Rightarrow> CommandId \<Rightarrow> i64 \<Rightarrow> 't operation_row" where
  "queued_operation C operation_id session_id cid position =
     \<lparr>o_operation_id = to_string C operation_id, o_session_id = to_string C session_id,
      o_command_id = to_string C cid, o_position = position, o_phase = ''queued'',
      o_state_version = int OPERATION_STATE_VERSION, o_transition_version = 0,
      o_manifest_json = None, o_checkpoint_json = None, o_current_effect_batch_id = None,
      o_input_effect_batch_id = None, o_outcome_json = None,
      o_next_effect_batch_position = 0\<rparr>"

definition submit_with_mode ::
    "('t, 'v) codec \<Rightarrow> OperationId \<Rightarrow> SessionId \<Rightarrow> 'v Command \<Rightarrow> AdmissionMode \<Rightarrow> 't db \<Rightarrow>
     (Admission \<times> 't db) kernel_result" where
  "submit_with_mode C new_id session_id command mode db =
     and_then (encode (command_to_json C) command) (\<lambda>content_json.
     let cid = command_id command in
     and_then (existing_admission C session_id cid content_json db) (\<lambda>existing.
     case existing of
       Some admission \<Rightarrow> Inr (admission, db)
     | None \<Rightarrow>
     and_then (if mode = RequireNoUnfinishedOperation
               then require_no_unfinished_operation C session_id db else Inr ()) (\<lambda>_.
     and_then (ok_or (find (\<lambda>s. s_session_id s = to_string C session_id) (sessions db))
       (SessionNotFound session_id)) (\<lambda>session.
     let position = s_next_command_position session in
     and_then (execute (db\<lparr>commands := commands db @
       [\<lparr>c_command_id = to_string C cid, c_session_id = to_string C session_id,
         c_content_json = content_json\<rparr>]\<rparr>)) (\<lambda>db.
     and_then (execute (db\<lparr>operations := operations db @
       [queued_operation C new_id session_id cid position]\<rparr>)) (\<lambda>db.
     let selected = (\<lambda>s. s_session_id s = to_string C session_id) in
     and_then (update_sessions selected
       (\<lambda>s. s\<lparr>s_next_command_position := s_next_command_position s + 1\<rparr>) db) (\<lambda>db'.
     and_then (require (changed selected (sessions db) = 1)
       (Corrupt ''session admission cursor update failed'')) (\<lambda>_.
     and_then (commit db') (\<lambda>db.
     and_then (from_sql_integer position ''operation position'') (\<lambda>adm_pos.
     Inr (\<lparr>adm_operation_id = new_id, adm_position = adm_pos\<rparr>, db)))))))))))"

definition submit ::
    "('t, 'v) codec \<Rightarrow> OperationId \<Rightarrow> SessionId \<Rightarrow> 'v Command \<Rightarrow> 't db \<Rightarrow>
     (Admission \<times> 't db) kernel_result" where
  "submit C new_id session_id command db = submit_with_mode C new_id session_id command Ordered db"

definition submit_exclusive ::
    "('t, 'v) codec \<Rightarrow> OperationId \<Rightarrow> SessionId \<Rightarrow> 'v Command \<Rightarrow> 't db \<Rightarrow>
     (Admission \<times> 't db) kernel_result" where
  "submit_exclusive C new_id session_id command db =
     submit_with_mode C new_id session_id command RequireNoUnfinishedOperation db"

subsection \<open>Admission keeps the invariant\<close>

lemma create_agent_inv:
  assumes inv: "kernel_inv C db" and ok: "create_agent C agent_id db = Inr db'"
  shows "kernel_inv C db'"
proof (cases "exists_row (\<lambda>a. a_agent_id a = to_string C agent_id) (agents db)")
  case True
  then show ?thesis using inv ok by (simp add: create_agent_def)
next
  case False
  then have db': "db' = db\<lparr>agents := agents db @ [\<lparr>a_agent_id = to_string C agent_id\<rparr>]\<rparr>"
    and "constraints_ok db'"
    using ok by (auto simp: create_agent_def execute_eq_Inr simp del: exists_row_iff)
  moreover have "pointers_ok db'"
    using kernel_invD(3) [OF inv] by (simp add: db' pointers_ok_iff)
  moreover have "ops_of db' = ops_of db" "events_of db' = events_of db"
      "batches_of db' = batches_of db" "children_of db' = children_of db"
    by (rule view_eqs, simp add: db')+
  ultimately show ?thesis
    using inv by (auto simp: kernel_inv_def schema_ok_def canonical_def)
qed

lemma create_session_inv:
  assumes inv: "kernel_inv C db" and ok: "create_session C session_id agent_id db = Inr db'"
  shows "kernel_inv C db'"
proof (cases "find (\<lambda>s. s_session_id s = to_string C session_id) (sessions db)")
  case (Some s)
  then show ?thesis
    using inv ok by (auto simp: create_session_def and_then_eq_Inr split: if_splits)
next
  case None
  let ?s = "\<lparr>s_session_id = to_string C session_id, s_agent_id = to_string C agent_id,
    s_next_command_position = 0, s_active_operation_id = None, s_next_event_sequence = 0\<rparr>"
  have db': "db' = db\<lparr>sessions := sessions db @ [?s]\<rparr>" and schema: "schema_ok db'"
    using ok None
    by (auto simp: create_session_def and_then_eq_Inr execute_eq_Inr commit_eq_Inr schema_ok_def
        split: if_splits)
  have fresh: "s_session_id s \<noteq> to_string C session_id" if "s \<in> set (sessions db)" for s
    using None that by (simp add: find_None_iff_ball)
  have "ops_of db' (to_string C session_id) = []"
    using fresh referenced(1) [OF kernel_invD(4) [OF inv]]
    by (fastforce simp: db' ops_of_def filter_empty_conv)
  moreover have "events_of db' (to_string C session_id) = []"
    using fresh referenced(2) [OF kernel_invD(4) [OF inv]]
    by (fastforce simp: db' events_of_def filter_empty_conv)
  ultimately have new: "session_ok C (ops_of db' (s_session_id ?s)) (events_of db' (s_session_id ?s)) ?s"
    by (auto simp: session_ok_def canonical_def)
  have "ops_of db' = ops_of db" "events_of db' = events_of db"
      "batches_of db' = batches_of db" "children_of db' = children_of db"
    by (rule view_eqs, simp add: db')+
  then show ?thesis
    using inv schema new unfolding kernel_inv_def by (simp add: db')
qed

text \<open>What a successful submission did: it found the command, or it admitted a new operation.\<close>

definition admit_rows ::
    "('t, 'v) codec \<Rightarrow> OperationId \<Rightarrow> SessionId \<Rightarrow> CommandId \<Rightarrow> 't \<Rightarrow> i64 \<Rightarrow> 't db \<Rightarrow> 't db" where
  "admit_rows C new_id session_id cid content_json position db =
     db\<lparr>commands := commands db @ [\<lparr>c_command_id = to_string C cid,
          c_session_id = to_string C session_id, c_content_json = content_json\<rparr>],
        operations := operations db @ [queued_operation C new_id session_id cid position],
        sessions := update_where (\<lambda>s. s_session_id s = to_string C session_id)
          (\<lambda>s. s\<lparr>s_next_command_position := s_next_command_position s + 1\<rparr>) (sessions db)\<rparr>"

lemma submit_with_mode_cases:
  assumes "submit_with_mode C new_id session_id command mode db = Inr (admission, db')"
  obtains
    (existing) content_json where "command_to_json C command = Some content_json"
      and "existing_admission C session_id (command_id command) content_json db = Inr (Some admission)"
      and "db' = db"
  | (admitted) content_json s where "command_to_json C command = Some content_json"
      and "existing_admission C session_id (command_id command) content_json db = Inr None"
      and "mode = RequireNoUnfinishedOperation \<Longrightarrow>
        require_no_unfinished_operation C session_id db = Inr ()"
      and "s \<in> set (sessions db)" and "s_session_id s = to_string C session_id"
      and "admission = \<lparr>adm_operation_id = new_id, adm_position = s_next_command_position s\<rparr>"
      and "0 \<le> s_next_command_position s"
      and "db' = admit_rows C new_id session_id (command_id command) content_json
        (s_next_command_position s) db"
      and "schema_ok db'"
proof -
  obtain content_json where enc: "command_to_json C command = Some content_json"
    using assms by (auto simp: submit_with_mode_def result_eq)
  obtain found where found:
      "existing_admission C session_id (command_id command) content_json db = Inr found"
    using assms enc by (auto simp: submit_with_mode_def Let_def and_then_eq_Inr)
  show thesis
  proof (cases found)
    case (Some a)
    then have "admission = a" and "db' = db"
      using assms enc found by (simp_all add: submit_with_mode_def Let_def)
    then show thesis using existing enc found Some by simp
  next
    case None
    let ?guard = "if mode = RequireNoUnfinishedOperation
               then require_no_unfinished_operation C session_id db else Inr ()"
    have guard: "?guard = Inr ()"
      using assms enc found None
      by (auto simp: submit_with_mode_def Let_def and_then_eq_Inr)
    obtain s where s: "find (\<lambda>s. s_session_id s = to_string C session_id) (sessions db) = Some s"
      using assms enc found None guard
      by (auto simp: submit_with_mode_def Let_def and_then_eq_Inr ok_or_eq_Inr)
    then have mem: "s \<in> set (sessions db)" "s_session_id s = to_string C session_id"
      using find_SomeD by fastforce+
    have rest: "admission = \<lparr>adm_operation_id = new_id, adm_position = s_next_command_position s\<rparr>
        \<and> 0 \<le> s_next_command_position s
        \<and> db' = admit_rows C new_id session_id (command_id command) content_json
            (s_next_command_position s) db \<and> schema_ok db'"
      using assms enc found None guard s
      by (simp add: submit_with_mode_def Let_def result_eq update_sessions_def admit_rows_def
          schema_ok_def) auto
    show thesis
      by (rule admitted [OF enc _ _ mem]) (use found None guard rest in \<open>auto split: if_splits\<close>)
  qed
qed

lemma queued_op_ok:
  "op_ok C (queued_operation C new_id session_id cid position) [] ch"
  by (auto simp: op_ok_def queued_operation_def canonical_def outcome_ok_def terminal_phase_def
      checkpoint_ok_def pointers_match_def batches_ok_def row_manifest_def)

lemma admit_inv:
  assumes inv: "kernel_inv C db" and schema: "schema_ok db'"
    and db': "db' = admit_rows C new_id session_id cid content_json (s_next_command_position s) db"
    and s: "s \<in> set (sessions db)" "s_session_id s = to_string C session_id"
    and json: "command_from_json C content_json = Some command" "command_id command = cid"
  shows "kernel_inv C db'"
proof -
  let ?q = "queued_operation C new_id session_id cid (s_next_command_position s)"
  have ops: "operations db' = operations db @ [?q]" by (simp add: db' admit_rows_def)
  have "unique_on o_operation_id (operations db')"
    using schema by (simp add: schema_ok_def constraints_ok_def keys_ok_def)
  then have "to_string C new_id \<notin> o_operation_id ` set (operations db)"
    by (simp add: ops unique_on_def queued_operation_def)
  then have fresh: "o_operation_id r \<noteq> to_string C new_id" if "r \<in> set (operations db)" for r
    using that by (metis image_eqI)
  have no_batches: "batches_of db' (o_operation_id ?q) = []"
    using fresh referenced(3) [OF kernel_invD(4) [OF inv]]
    by (fastforce simp: db' admit_rows_def batches_of_def queued_operation_def filter_empty_conv)
  have same: "batches_of db' oid = batches_of db oid" "children_of db' = children_of db"
      "events_of db' sid = events_of db sid" for oid sid
    by (simp_all add: db' admit_rows_def batches_of_def children_of_def events_of_def fun_eq_iff)
  have ops_of: "ops_of db' sid = (if sid = to_string C session_id then ops_of db sid @ [?q] else ops_of db sid)" for sid
    by (simp add: ops_of_def ops queued_operation_def)
  have only: "s' = s" if "s' \<in> set (sessions db)" "s_session_id s' = to_string C session_id" for s'
    using unique_onD [OF kernel_inv_keys(2) [OF inv]] that s by metis
  have sess: "session_ok C (ops_of db' (s_session_id x)) (events_of db' (s_session_id x)) x"
    if x: "x \<in> set (sessions db')" for x
  proof -
    let ?s' = "s\<lparr>s_next_command_position := s_next_command_position s + 1\<rparr>"
    have "sessions db' = update_where (\<lambda>s. s_session_id s = to_string C session_id)
        (\<lambda>s. s\<lparr>s_next_command_position := s_next_command_position s + 1\<rparr>) (sessions db)"
      by (simp add: db' admit_rows_def)
    then have "x = ?s' \<or> (x \<in> set (sessions db) \<and> s_session_id x \<noteq> to_string C session_id)"
      using x update_where_one [where P = "\<lambda>s. s_session_id s = to_string C session_id",
          OF s only] by simp
    then consider "x = ?s'" | "x \<in> set (sessions db)" "s_session_id x \<noteq> to_string C session_id"
      by blast
    then show ?thesis
    proof cases
      case 1
      have ok: "session_ok C (ops_of db (to_string C session_id)) (events_of db (to_string C session_id)) s"
        using kernel_invD(9) [OF inv s(1)] s(2) by simp
      have act: "s_active_operation_id s \<noteq> Some (to_string C new_id)"
        using kernel_invD(3) [OF inv] s(1) fresh
        by (fastforce simp: pointers_ok_iff)
      have "gapless (s_next_command_position s + 1)
          (map o_position (ops_of db (to_string C session_id)) @ [s_next_command_position s])"
        using ok by (intro gapless_snoc) (simp add: session_ok_def)
      then have "session_ok C (ops_of db (to_string C session_id) @ [?q])
          (events_of db (to_string C session_id)) ?s'"
        using ok act by (auto simp: session_ok_def queued_operation_def active_phase_def)
      then show ?thesis using 1 s(2) by (simp add: ops_of same)
    next
      case 2
      then show ?thesis using kernel_invD(9) [OF inv 2(1)] by (simp add: ops_of same)
    qed
  qed
  have ops_ok: "op_ok C r (batches_of db' (o_operation_id r)) (children_of db')"
    if "r \<in> set (operations db')" for r
    using that kernel_invD(10) [OF inv] queued_op_ok no_batches by (auto simp: ops same)
  have "command_ok C c" if "c \<in> set (commands db')" for c
    using that kernel_invD(7) [OF inv] json
    by (auto simp: db' admit_rows_def command_ok_def)
  moreover have "agents db' = agents db" "semantic_events db' = semantic_events db"
    by (simp_all add: db' admit_rows_def)
  ultimately show ?thesis
    using schema sess ops_ok kernel_invD(6,8) [OF inv] by (auto simp: kernel_inv_def)
qed

lemma submit_with_mode_inv:
  assumes C: "codec_ok C" and inv: "kernel_inv C db"
    and ok: "submit_with_mode C new_id session_id command mode db = Inr (admission, db')"
  shows "kernel_inv C db'"
  using ok
proof (cases rule: submit_with_mode_cases)
  case (existing content_json)
  then show ?thesis using inv by simp
next
  case (admitted content_json s)
  have "command_from_json C content_json = Some command"
    using round_trip_dec [OF codec_okD(2) [OF C]] admitted(1) .
  then show ?thesis
    using admit_inv [OF inv admitted(9,8,4,5)] by simp
qed

subsection \<open>What is admitted stays admitted\<close>

text \<open>Whether an operation is admitted for a command, in which session and at which position.\<close>

definition admitted_as ::
    "('t, 'v) codec \<Rightarrow> SessionId \<Rightarrow> 'v Command \<Rightarrow> Admission \<Rightarrow> 't db \<Rightarrow> bool" where
  "admitted_as C session_id command admission db \<longleftrightarrow>
     (\<exists>r \<in> set (operations db). \<exists>c \<in> set (commands db).
        o_operation_id r = to_string C (adm_operation_id admission) \<and>
        o_session_id r = to_string C session_id \<and>
        o_command_id r = to_string C (command_id command) \<and>
        o_position r = adm_position admission \<and>
        c_command_id c = o_command_id r \<and> c_session_id c = o_session_id r \<and>
        Some (c_content_json c) = command_to_json C command)"

text \<open>No transaction takes an admission back.\<close>

definition same_admission :: "'t operation_row \<Rightarrow> 't operation_row \<Rightarrow> bool" where
  "same_admission r r' \<longleftrightarrow>
     o_operation_id r' = o_operation_id r \<and> o_session_id r' = o_session_id r \<and>
     o_command_id r' = o_command_id r \<and> o_position r' = o_position r"

definition keeps_admissions :: "'t db \<Rightarrow> 't db \<Rightarrow> bool" where
  "keeps_admissions db db' \<longleftrightarrow>
     set (commands db) \<subseteq> set (commands db') \<and>
     (\<forall>r \<in> set (operations db). \<exists>r' \<in> set (operations db'). same_admission r r')"

lemma same_admission_refl: "same_admission r r"
  by (simp add: same_admission_def)

lemma same_admission_trans: "same_admission r r' \<Longrightarrow> same_admission r' r'' \<Longrightarrow> same_admission r r''"
  by (simp add: same_admission_def)

lemma keeps_admissions_refl: "keeps_admissions db db"
  using same_admission_refl by (auto simp: keeps_admissions_def)

lemma keeps_admissions_trans:
  "keeps_admissions db1 db2 \<Longrightarrow> keeps_admissions db2 db3 \<Longrightarrow> keeps_admissions db1 db3"
  unfolding keeps_admissions_def using same_admission_trans by blast

lemma admitted_as_kept:
  assumes "admitted_as C session_id command admission db" and "keeps_admissions db db'"
  shows "admitted_as C session_id command admission db'"
proof -
  obtain r c where r: "r \<in> set (operations db)" "c \<in> set (commands db)"
    and rest: "o_operation_id r = to_string C (adm_operation_id admission)"
      "o_session_id r = to_string C session_id" "o_command_id r = to_string C (command_id command)"
      "o_position r = adm_position admission" "c_command_id c = o_command_id r"
      "c_session_id c = o_session_id r" "Some (c_content_json c) = command_to_json C command"
    using assms(1) unfolding admitted_as_def by blast
  obtain r' where "r' \<in> set (operations db')" "same_admission r r'"
    using assms(2) r(1) unfolding keeps_admissions_def by blast
  moreover have "c \<in> set (commands db')" using assms(2) r(2) unfolding keeps_admissions_def by blast
  ultimately show ?thesis
    unfolding admitted_as_def by (intro bexI [of _ r'] bexI [of _ c]) (use rest in \<open>auto simp: same_admission_def\<close>)
qed

lemma existing_admission_found:
  assumes C: "codec_ok C" and inv: "kernel_inv C db" and r: "r \<in> set (operations db)"
    and key: "o_command_id r = to_string C cid" "o_operation_id r = to_string C oid"
  shows "existing_admission C session_id cid content_json db =
     (if o_session_id r \<noteq> to_string C session_id \<or> c_content_json (command_of db r) \<noteq> content_json
      then Inl (CommandConflict cid oid)
      else Inr (Some \<lparr>adm_operation_id = oid, adm_position = o_position r\<rparr>))"
proof -
  let ?rows = "[(r, c). c \<leftarrow> commands db, c_command_id c = to_string C cid,
      r \<leftarrow> operations db, o_command_id r = c_command_id c]"
  note c = command_of_row [OF inv r]
  have "first_row ?rows = Some (r, command_of db r)"
  proof (rule first_row_unique)
    show "(r, command_of db r) \<in> set ?rows" using r c key(1) by auto
    fix y assume "y \<in> set ?rows"
    then obtain r' c' where y: "y = (r', c')" "c' \<in> set (commands db)" "c_command_id c' = to_string C cid"
      "r' \<in> set (operations db)" "o_command_id r' = c_command_id c'" by auto
    have "r' = r" using unique_onD [OF kernel_inv_keys(5) [OF inv] y(4) r] y key(1) by simp
    moreover have "c' = command_of db r"
      using unique_onD [OF kernel_inv_keys(3) [OF inv] y(2) c(1)] y(3) c(2) key(1) by simp
    ultimately show "y = (r, command_of db r)" using y(1) by simp
  qed
  moreover have "0 \<le> o_position r"
    using kernel_invD(2) [OF inv] r by (simp add: constraints_ok_def list_all_iff operation_checks_def)
  ultimately show ?thesis
    by (simp only: existing_admission_def option.case prod.case key(2) parse_to_string(3) [OF C]
        and_then_simps c(3) from_sql_integer_def if_True)
qed

lemma existing_admission_new:
  assumes "\<And>r. r \<in> set (operations db) \<Longrightarrow> o_command_id r \<noteq> to_string C cid"
  shows "existing_admission C session_id cid content_json db = Inr None"
proof -
  have "first_row [(r, c). c \<leftarrow> commands db, c_command_id c = to_string C cid,
      r \<leftarrow> operations db, o_command_id r = c_command_id c] = None"
    using assms by (fastforce simp: first_row_None_iff)
  then show ?thesis by (simp only: existing_admission_def option.case)
qed

lemma submit_admitted_as:
  assumes C: "codec_ok C" and inv: "kernel_inv C db"
    and ok: "submit_with_mode C new_id session_id command mode db = Inr (admission, db')"
  shows "admitted_as C session_id command admission db'"
  using ok
proof (cases rule: submit_with_mode_cases)
  case (existing content_json)
  show ?thesis
  proof (cases "\<exists>r \<in> set (operations db). o_command_id r = to_string C (command_id command)")
    case True
    then obtain r where r: "r \<in> set (operations db)" "o_command_id r = to_string C (command_id command)" by blast
    obtain oid where oid: "o_operation_id r = to_string C oid"
      using command_key_canonical(2) [OF inv r(1)] by (auto simp: canonical_def)
    have "o_session_id r = to_string C session_id \<and> c_content_json (command_of db r) = content_json \<and>
        admission = \<lparr>adm_operation_id = oid, adm_position = o_position r\<rparr>"
      using existing(2) unfolding existing_admission_found [OF C inv r oid] by (auto split: if_splits)
    then show ?thesis
      using r oid existing(1,3) command_of_row [OF inv r(1)]
      unfolding admitted_as_def by (intro bexI [of _ r] bexI [of _ "command_of db r"]) auto
  next
    case False
    then show ?thesis using existing(2) existing_admission_new [of db C "command_id command"] by fastforce
  qed
next
  case (admitted content_json s)
  then show ?thesis
    by (auto simp: admitted_as_def admit_rows_def queued_operation_def)
qed

lemma resubmit_admitted:
  assumes C: "codec_ok C" and inv: "kernel_inv C db"
    and ad: "admitted_as C session_id command admission db"
  shows "submit_with_mode C new_id session_id command mode db = Inr (admission, db)"
proof -
  obtain r c where r: "r \<in> set (operations db)" "c \<in> set (commands db)"
      "o_operation_id r = to_string C (adm_operation_id admission)"
      "o_session_id r = to_string C session_id" "o_command_id r = to_string C (command_id command)"
      "o_position r = adm_position admission" "c_command_id c = o_command_id r"
      "Some (c_content_json c) = command_to_json C command"
    using ad unfolding admitted_as_def by blast
  have "c = command_of db r"
    using unique_onD [OF kernel_inv_keys(3) [OF inv] r(2) command_of_row(1) [OF inv r(1)]]
      command_of_row(2) [OF inv r(1)] r(7) by simp
  then show ?thesis
    using existing_admission_found [OF C inv r(1,5,3), of session_id "c_content_json c"] r
    by (simp add: submit_with_mode_def Let_def flip: r(8))
qed

lemma submit_keeps_admissions:
  assumes ok: "submit_with_mode C new_id session_id command mode db = Inr (admission, db')"
  shows "keeps_admissions db db'"
  using ok by (cases rule: submit_with_mode_cases) (auto simp: keeps_admissions_def admit_rows_def intro: same_admission_refl)

text \<open>
  C23 (a command identity is spent). Once a command is admitted, submitting its identity again with
  other content, or to another session, fails with \<open>CommandConflict\<close> and the identity of the
  operation that was admitted, in either admission mode; an error leaves the database unchanged.
\<close>

theorem submit_conflict:
  assumes "codec_ok C" and "kernel_inv C db"
    and "admitted_as C session_id command admission db"
    and "command_id other = command_id command"
    and "session_id' \<noteq> session_id \<or> content other \<noteq> content command"
  shows "submit_with_mode C new_id session_id' other mode db =
    Inl (CommandConflict (command_id command) (adm_operation_id admission))"
proof -
  obtain r c where r: "r \<in> set (operations db)" "c \<in> set (commands db)"
      "o_operation_id r = to_string C (adm_operation_id admission)"
      "o_session_id r = to_string C session_id" "o_command_id r = to_string C (command_id command)"
      "o_position r = adm_position admission" "c_command_id c = o_command_id r"
      "Some (c_content_json c) = command_to_json C command"
    using assms(3) unfolding admitted_as_def by blast
  have c: "c = command_of db r"
    using unique_onD [OF kernel_inv_keys(3) [OF assms(2)] r(2) command_of_row(1) [OF assms(2) r(1)]]
      command_of_row(2) [OF assms(2) r(1)] r(7) by simp
  obtain t where t: "command_to_json C other = Some t"
    using round_tripD [OF codec_okD(2) [OF assms(1)], of other] by blast
  have "o_session_id r \<noteq> to_string C session_id' \<or> c_content_json c \<noteq> t"
  proof (cases "session_id' = session_id")
    case True
    then have "other \<noteq> command" using assms(5) by auto
    then have "t \<noteq> c_content_json c"
      using round_trip_inj [OF codec_okD(2) [OF assms(1)] t, of command] r(8) by auto
    then show ?thesis by simp
  next
    case False
    then show ?thesis using r(4) to_string_inject [OF assms(1)] by metis
  qed
  then show ?thesis
    using existing_admission_found [OF assms(1,2) r(1,5,3), of session_id' t] assms(4) c
    by (simp add: submit_with_mode_def Let_def t)
qed

lemma require_no_unfinished_some:
  assumes C: "codec_ok C" and inv: "kernel_inv C db"
    and r: "r \<in> set (operations db)" "o_session_id r = to_string C session_id" "unfinished_operation r"
    and oldest: "\<And>r'. r' \<in> set (operations db) \<Longrightarrow> o_session_id r' = to_string C session_id \<Longrightarrow>
      unfinished_operation r' \<Longrightarrow> o_position r \<le> o_position r'"
    and ids: "o_operation_id r = to_string C oid" "o_command_id r = to_string C cid"
  shows "require_no_unfinished_operation C session_id db = Inl (UnfinishedOperation oid cid)"
proof -
  let ?rows = "order_by o_position (filter (\<lambda>r. o_session_id r = to_string C session_id \<and>
    unfinished_operation r) (operations db))"
  have "first_row ?rows \<noteq> None" using r by (auto simp: filter_empty_conv)
  then obtain r1 where r1: "first_row ?rows = Some r1" by blast
  note least = first_row_order_by_least [OF r1]
  have "o_position r1 \<le> o_position r" using least(2) r by simp
  moreover have "o_position r \<le> o_position r1" using least(1) oldest by simp
  ultimately have "(o_session_id r1, o_position r1) = (o_session_id r, o_position r)"
    using least(1) r(2) by simp
  then have "r1 = r"
    using unique_onD [OF keys_okD(6) [OF kernel_invD(5) [OF inv]]] least(1) r(1) by simp
  then show ?thesis
    using r1 by (simp add: require_no_unfinished_operation_def ids parse_to_string [OF C])
qed

lemma require_no_unfinished_none:
  assumes "\<And>r. r \<in> set (operations db) \<Longrightarrow> o_session_id r = to_string C session_id \<Longrightarrow> \<not> unfinished_operation r"
  shows "require_no_unfinished_operation C session_id db = Inr ()"
proof -
  have "filter (\<lambda>r. o_session_id r = to_string C session_id \<and> unfinished_operation r) (operations db) = []"
    using assms by (auto simp: filter_empty_conv)
  then show ?thesis by (simp add: require_no_unfinished_operation_def order_by_def first_row_def)
qed

lemma submit_fresh:
  assumes C: "codec_ok C"
    and new: "\<And>r. r \<in> set (operations db) \<Longrightarrow> o_command_id r \<noteq> to_string C (command_id command)"
  shows "submit_exclusive C new_id session_id command db =
    and_then (require_no_unfinished_operation C session_id db) (\<lambda>_. submit C new_id session_id command db)"
proof -
  obtain t where t: "command_to_json C command = Some t"
    using round_tripD [OF codec_okD(2) [OF C]] by blast
  show ?thesis
    unfolding submit_exclusive_def submit_def submit_with_mode_def
    using existing_admission_new [where session_id = session_id and content_json = t, OF new] by (simp add: t Let_def)
qed

lemma admit_command_constraints:
  assumes con: "constraints_ok db" and s: "s \<in> set (sessions db)" "s_session_id s = c_session_id c"
    and new: "c_command_id c \<notin> c_command_id ` set (commands db)"
  shows "constraints_ok (db\<lparr>commands := commands db @ [c]\<rparr>)"
proof -
  note k = constraints_okD [OF con]
  have "keys_ok (db\<lparr>commands := commands db @ [c]\<rparr>)"
    using k(6) new by (simp add: keys_ok_def unique_on_def)
  moreover have "references_ok (db\<lparr>commands := commands db @ [c]\<rparr>)"
    using k(7) s unfolding references_ok_def list_all_iff exists_row_iff by auto
  ultimately show ?thesis using con by (simp add: constraints_ok_def)
qed

lemma admit_operation_constraints:
  assumes con: "constraints_ok db" and chk: "operation_checks r"
    and s: "s \<in> set (sessions db)" "s_session_id s = o_session_id r"
    and c: "c \<in> set (commands db)" "c_session_id c = o_session_id r" "c_command_id c = o_command_id r"
    and new: "o_operation_id r \<notin> o_operation_id ` set (operations db)"
      "o_command_id r \<notin> o_command_id ` set (operations db)"
      "(o_session_id r, o_position r) \<notin> (\<lambda>r. (o_session_id r, o_position r)) ` set (operations db)"
  shows "constraints_ok (db\<lparr>operations := operations db @ [r]\<rparr>)"
proof -
  note k = constraints_okD [OF con]
  have "keys_ok (db\<lparr>operations := operations db @ [r]\<rparr>)"
    using k(6) new by (simp add: keys_ok_def unique_on_def)
  moreover have "references_ok (db\<lparr>operations := operations db @ [r]\<rparr>)"
    using k(7) s c unfolding references_ok_def list_all_iff exists_row_iff by auto
  ultimately show ?thesis using con chk by (simp add: constraints_ok_def)
qed

lemma fresh_position:
  assumes inv: "kernel_inv C db" and s: "s \<in> set (sessions db)"
  shows "(s_session_id s, s_next_command_position s) \<notin>
    (\<lambda>r. (o_session_id r, o_position r)) ` set (operations db)"
proof
  assume "(s_session_id s, s_next_command_position s) \<in>
    (\<lambda>r. (o_session_id r, o_position r)) ` set (operations db)"
  then obtain r where "r \<in> set (operations db)" "o_session_id r = s_session_id s"
    "o_position r = s_next_command_position s" by auto
  then have "s_next_command_position s \<in> set (map o_position (ops_of db (s_session_id s)))"
    by (force simp: ops_of_def)
  then show False using kernel_invD(9) [OF inv s] by (auto simp: session_ok_def gapless_def)
qed

lemma admit_constraints:
  fixes C :: "('t, 'v) codec" and json :: 't
  assumes inv: "kernel_inv C db"
    and s: "s \<in> set (sessions db)" "s_session_id s = to_string C session_id"
    and new: "to_string C cid \<notin> c_command_id ` set (commands db)"
      "to_string C new_id \<notin> o_operation_id ` set (operations db)"
    and room: "s_next_command_position s + 1 < 2 ^ 63"
  defines "q \<equiv> queued_operation C new_id session_id cid (s_next_command_position s)"
  defines "db1 \<equiv> db\<lparr>commands := commands db @ [\<lparr>c_command_id = to_string C cid,
      c_session_id = to_string C session_id, c_content_json = json\<rparr>]\<rparr>"
  defines "db2 \<equiv> db1\<lparr>operations := operations db1 @ [q]\<rparr>"
  shows "constraints_ok db1" and "constraints_ok db2"
    and "schema_ok (admit_rows C new_id session_id cid json (s_next_command_position s) db)"
proof -
  note con = kernel_invD(2) [OF inv]
  have room': "in_i64 (s_next_command_position s)" "0 \<le> s_next_command_position s"
      "in_i64 (s_next_command_position s + 1)"
    using constraints_okD(1) [OF con] s(1) room by (auto simp: list_all_iff session_checks_def in_i64_def)
  show c1: "constraints_ok db1"
    unfolding db1_def by (rule admit_command_constraints [OF con s(1)]) (use s new in simp_all)
  have cmd: "to_string C cid \<notin> o_command_id ` set (operations db)"
    using referenced(5) [OF kernel_invD(4) [OF inv]] new(1) by (metis (no_types, lifting) image_iff)
  have q: "operation_checks q"
    using room' by (simp add: q_def operation_checks_def queued_operation_def OPERATION_STATE_VERSION_def in_i64_def)
  show c2: "constraints_ok db2"
    unfolding db2_def
    by (rule admit_operation_constraints [OF c1 q, where s = s and c = "last (commands db1)"])
      (use s new(2) cmd fresh_position [OF inv s(1)] in \<open>simp_all add: db1_def q_def queued_operation_def\<close>)
  let ?P = "\<lambda>s. s_session_id s = to_string C session_id"
  let ?f = "\<lambda>s. s\<lparr>s_next_command_position := s_next_command_position s + 1\<rparr> :: 't session_row"
  have db3: "admit_rows C new_id session_id cid json (s_next_command_position s) db =
      db2\<lparr>sessions := update_where ?P ?f (sessions db2)\<rparr>"
    by (simp add: admit_rows_def db2_def db1_def q_def)
  have "session_checks (?f x)" if "x \<in> set (sessions db2)" "?P x" for x
  proof -
    have mem: "x \<in> set (sessions db)" using that(1) by (simp add: db2_def db1_def)
    have "x = s" using unique_onD [OF kernel_inv_keys(2) [OF inv] mem s(1)] that(2) s(2) by simp
    then show ?thesis using constraints_okD(1) [OF con] s(1) room' by (simp add: list_all_iff session_checks_def)
  qed
  then have "constraints_ok (db2\<lparr>sessions := update_where ?P ?f (sessions db2)\<rparr>)"
    by (intro update_sessions_constraints [OF c2]) auto
  moreover have "pointers_ok db2"
    using kernel_invD(3) [OF inv] unfolding pointers_ok_iff
    by (auto simp: db2_def db1_def q_def queued_operation_def)
  then have "pointers_ok (db2\<lparr>sessions := update_where ?P ?f (sessions db2)\<rparr>)"
    by (intro update_sessions_pointers) auto
  ultimately show "schema_ok (admit_rows C new_id session_id cid json (s_next_command_position s) db)"
    by (simp add: schema_ok_def db3)
qed

text \<open>
  C22 (a submission succeeds). On every database the kernel can reach, submitting a command that is
  not stored yet to an existing session is admitted: the new operation gets the session's next
  position, is stored queued with the command, and the session's counter moves by one. The only
  bound is the 64-bit range of the position, and the fresh operation identity must be unused.
\<close>

theorem submit_admits:
  assumes C: "codec_ok C" and inv: "kernel_inv C db"
    and s: "s \<in> set (sessions db)" "s_session_id s = to_string C session_id"
    and new: "to_string C (command_id command) \<notin> c_command_id ` set (commands db)"
      "to_string C new_id \<notin> o_operation_id ` set (operations db)"
    and room: "s_next_command_position s + 1 < 2 ^ 63"
  shows "\<exists>json. command_to_json C command = Some json \<and>
    submit C new_id session_id command db =
      Inr (\<lparr>adm_operation_id = new_id, adm_position = s_next_command_position s\<rparr>,
           admit_rows C new_id session_id (command_id command) json (s_next_command_position s) db)"
proof -
  obtain t where t: "command_to_json C command = Some t"
    using round_tripD [OF codec_okD(2) [OF C]] by blast
  have "existing_admission C session_id (command_id command) t db = Inr None"
  proof (rule existing_admission_new)
    fix r assume "r \<in> set (operations db)"
    then show "o_command_id r \<noteq> to_string C (command_id command)"
      using referenced(5) [OF kernel_invD(4) [OF inv]] new(1) by (metis image_eqI)
  qed
  moreover have find: "find (\<lambda>s. s_session_id s = to_string C session_id) (sessions db) = Some s"
    by (rule find_unique [where k = s_session_id]) (use s kernel_inv_keys(2) [OF inv] in auto)
  moreover have "changed (\<lambda>s. s_session_id s = to_string C session_id) (sessions db) = 1"
    by (rule changed_unique [where k = s_session_id]) (use s kernel_inv_keys(2) [OF inv] in auto)
  moreover have "0 \<le> s_next_command_position s"
    using kernel_invD(9) [OF inv s(1)] by (simp add: session_ok_def gapless_def)
  moreover note admit_constraints [where json = t, OF inv s new room]
  ultimately show ?thesis
    unfolding submit_def submit_with_mode_def
    by (simp add: t Let_def execute_def update_sessions_def commit_def schema_ok_def admit_rows_def
        from_sql_integer_def)
qed

text \<open>The unfinished operation of a session that was admitted first.\<close>

definition oldest_unfinished ::
    "('t, 'v) codec \<Rightarrow> SessionId \<Rightarrow> 't db \<Rightarrow> 't operation_row \<Rightarrow> bool" where
  "oldest_unfinished C session_id db r \<longleftrightarrow>
     r \<in> set (operations db) \<and> o_session_id r = to_string C session_id \<and> unfinished_operation r \<and>
     (\<forall>r' \<in> set (operations db). o_session_id r' = to_string C session_id \<longrightarrow>
        unfinished_operation r' \<longrightarrow> o_position r \<le> o_position r')"

text \<open>
  C24 (exclusive admission). For a new command, \<open>submit_exclusive\<close> is \<open>submit\<close> when the session
  has no unfinished operation, and otherwise fails with the identities of the one admitted first.
\<close>

theorem submit_exclusive_guard:
  assumes "codec_ok C" and "kernel_inv C db"
    and "to_string C (command_id command) \<notin> o_command_id ` set (operations db)"
  shows "(\<forall>r oid cid. oldest_unfinished C session_id db r \<longrightarrow> o_operation_id r = to_string C oid \<longrightarrow>
        o_command_id r = to_string C cid \<longrightarrow>
        submit_exclusive C new_id session_id command db = Inl (UnfinishedOperation oid cid)) \<and>
     ((\<forall>r. \<not> oldest_unfinished C session_id db r) \<longrightarrow>
        submit_exclusive C new_id session_id command db = submit C new_id session_id command db)"
proof -
  have new: "o_command_id r \<noteq> to_string C (command_id command)" if "r \<in> set (operations db)" for r
    using assms(3) that by (metis image_eqI)
  note fresh = submit_fresh [where new_id = new_id and session_id = session_id, OF assms(1) new]
  have some: "require_no_unfinished_operation C session_id db = Inl (UnfinishedOperation oid cid)"
    if "oldest_unfinished C session_id db r" "o_operation_id r = to_string C oid"
      "o_command_id r = to_string C cid" for r oid cid
    by (rule require_no_unfinished_some [OF assms(1,2) _ _ _ _ that(2,3)])
      (use that(1) in \<open>simp_all add: oldest_unfinished_def\<close>)
  have none: "require_no_unfinished_operation C session_id db = Inr ()"
    if "\<forall>r. \<not> oldest_unfinished C session_id db r"
  proof (cases "first_row (order_by o_position (filter (\<lambda>r. o_session_id r = to_string C session_id \<and>
      unfinished_operation r) (operations db)))")
    case None
    then show ?thesis by (simp only: require_no_unfinished_operation_def option.case)
  next
    case (Some x)
    then have "oldest_unfinished C session_id db x"
      using first_row_order_by_least [OF Some] by (simp add: oldest_unfinished_def)
    then show ?thesis using that by blast
  qed
  show ?thesis
  proof (intro conjI allI impI)
    fix r oid cid assume "oldest_unfinished C session_id db r" "o_operation_id r = to_string C oid"
      "o_command_id r = to_string C cid"
    from some [OF this] show "submit_exclusive C new_id session_id command db = Inl (UnfinishedOperation oid cid)"
      by (simp only: fresh and_then_simps)
  next
    assume "\<forall>r. \<not> oldest_unfinished C session_id db r"
    from none [OF this] show "submit_exclusive C new_id session_id command db = submit C new_id session_id command db"
      by (simp only: fresh and_then_simps)
  qed
qed

subsection \<open>An example\<close>

text \<open>A session with an agent, and the same session after one submission.\<close>

definition sample_command :: "int Command" where
  "sample_command = \<lparr>command_id = 4, content = 7\<rparr>"

definition sample_start :: "sample_text db" where
  "sample_start = empty_db\<lparr>agents := [\<lparr>a_agent_id = UuidText 1\<rparr>],
     sessions := [\<lparr>s_session_id = UuidText 2, s_agent_id = UuidText 1,
       s_next_command_position = 0, s_active_operation_id = None, s_next_event_sequence = 0\<rparr>]\<rparr>"

definition sample_queued :: "sample_text db" where
  "sample_queued =
     admit_rows sample_codec 3 2 (command_id sample_command) (CommandText sample_command) 0 sample_start"

lemma sample_start_inv: "kernel_inv sample_codec sample_start"
proof -
  have a: "create_agent sample_codec 1 empty_db = Inr (empty_db\<lparr>agents := [\<lparr>a_agent_id = UuidText 1\<rparr>]\<rparr>)"
    by code_simp
  have s: "create_session sample_codec 2 1 (empty_db\<lparr>agents := [\<lparr>a_agent_id = UuidText 1\<rparr>]\<rparr>) = Inr sample_start"
    by code_simp
  show ?thesis by (rule create_session_inv [OF create_agent_inv [OF kernel_inv_empty a] s])
qed

lemma sample_queued_runs:
  "submit sample_codec 3 2 sample_command sample_start =
     Inr (\<lparr>adm_operation_id = 3, adm_position = 0\<rparr>, sample_queued)"
  by code_simp

lemma sample_queued_inv: "kernel_inv sample_codec sample_queued"
  using submit_with_mode_inv [OF sample_codec_ok sample_start_inv] sample_queued_runs
  unfolding submit_def by blast

lemma sample_queued_admitted:
  "admitted_as sample_codec 2 sample_command \<lparr>adm_operation_id = 3, adm_position = 0\<rparr> sample_queued"
  using submit_admitted_as [OF sample_codec_ok sample_start_inv] sample_queued_runs
  unfolding submit_def by blast

theorem submit_admits_witness:
  "submit sample_codec 3 2 sample_command sample_start =
     Inr (\<lparr>adm_operation_id = 3, adm_position = 0\<rparr>, sample_queued)"
  using submit_admits [OF sample_codec_ok sample_start_inv, of "hd (sessions sample_start)" 2 sample_command 3]
  by (simp add: sample_start_def empty_db_def sample_queued_def)

theorem submit_conflict_witness:
  "submit_with_mode sample_codec 5 2 (sample_command\<lparr>content := 8\<rparr>) Ordered sample_queued =
     Inl (CommandConflict 4 3)"
  using submit_conflict [OF sample_codec_ok sample_queued_inv sample_queued_admitted,
      of "sample_command\<lparr>content := 8\<rparr>" 2 5 Ordered]
  by (simp add: sample_command_def)

theorem submit_exclusive_guard_witness:
  "submit_exclusive sample_codec 5 2 \<lparr>command_id = 6, content = 0\<rparr> sample_queued =
     Inl (UnfinishedOperation 3 4)"
proof -
  let ?r = "queued_operation sample_codec 3 2 4 0"
  have new: "to_string sample_codec (command_id \<lparr>command_id = 6, content = 0 :: int\<rparr>) \<notin>
      o_command_id ` set (operations sample_queued)"
    by code_simp
  have "oldest_unfinished sample_codec 2 sample_queued ?r"
    by (simp add: oldest_unfinished_def sample_queued_def admit_rows_def sample_start_def empty_db_def
        sample_command_def unfinished_operation_def queued_operation_def)
  then show ?thesis
    using submit_exclusive_guard [OF sample_codec_ok sample_queued_inv new, of 2 5]
    by (simp add: queued_operation_def)
qed

end
