(* ===== verification/Kernel_Events.thy ===== *)
theory Kernel_Events
  imports Kernel_Invariant
begin

section \<open>Semantic events\<close>

text \<open>
  \<open>events.rs\<close> and \<open>append_events\<close> of \<open>decision_store.rs\<close>: the append-only, gaplessly numbered
  history of a session and its replay from a cursor. A transaction that only reads has nothing
  to commit.
\<close>

definition EventCursor_START :: u64 where
  "EventCursor_START = 0"

definition validate_new_events :: "'v NewEvent list \<Rightarrow> unit kernel_result" where
  "validate_new_events events =
     (if list_ex (\<lambda>event. ne_kind event = []) events
      then Inl (InvalidDecision ''semantic event kind cannot be empty'')
      else Inr ())"

text \<open>
  One round of the insertion loop: the event at \<open>offset\<close> gets the sequence number
  \<open>first_sequence + offset\<close> and the fresh identity \<open>EventId::new()\<close>, the argument \<open>new_id\<close>.
\<close>

definition insert_event ::
    "('t, 'v) codec \<Rightarrow> (nat \<Rightarrow> EventId) \<Rightarrow> SessionId \<Rightarrow> OperationId \<Rightarrow> i64 \<Rightarrow>
     nat \<times> 'v NewEvent \<Rightarrow> 't db \<Rightarrow> 't db kernel_result" where
  "insert_event C new_id session_id operation_id first_sequence entry db =
     (case entry of (offset, event) \<Rightarrow>
       and_then (require (in_i64 (int offset)) (Corrupt ''event offset exceeds i64'')) (\<lambda>_.
       and_then (ok_or (checked_add_i64 first_sequence (int offset))
         (Corrupt ''event sequence overflowed'')) (\<lambda>sequence.
       and_then (encode (value_to_json C) (ne_payload event)) (\<lambda>payload_json.
       execute (db\<lparr>semantic_events := semantic_events db @
         [\<lparr>v_event_id = to_string C (new_id offset), v_session_id = to_string C session_id,
           v_operation_id = to_string C operation_id, v_sequence = sequence,
           v_kind = ne_kind event, v_payload_json = payload_json\<rparr>]\<rparr>)))))"

definition append_events ::
    "('t, 'v) codec \<Rightarrow> (nat \<Rightarrow> EventId) \<Rightarrow> SessionId \<Rightarrow> OperationId \<Rightarrow> 'v NewEvent list \<Rightarrow>
     't db \<Rightarrow> 't db kernel_result" where
  "append_events C new_id session_id operation_id events db =
     and_then (ok_or (find (\<lambda>s. s_session_id s = to_string C session_id) (sessions db))
       sqlite_error) (\<lambda>session.
     let first_sequence = s_next_event_sequence session in
     and_then (try_fold (insert_event C new_id session_id operation_id first_sequence)
       (enumerate 0 events) db) (\<lambda>db.
     and_then (require (in_i64 (int (length events))) (Corrupt ''event count exceeds i64'')) (\<lambda>_.
     let selected = (\<lambda>s. s_session_id s = to_string C session_id \<and>
                         s_next_event_sequence s = first_sequence) in
     and_then (update_sessions selected
       (\<lambda>s. s\<lparr>s_next_event_sequence := s_next_event_sequence s + int (length events)\<rparr>) db) (\<lambda>db'.
     and_then (require (changed selected (sessions db) = 1)
       (Corrupt ''event cursor compare-and-set failed'')) (\<lambda>_.
     Inr db')))))"

definition read_event ::
    "('t, 'v) codec \<Rightarrow> 't event_row \<times> 't operation_row \<Rightarrow> 'v SemanticEvent kernel_result" where
  "read_event C row =
     (case row of (v, r) \<Rightarrow>
       and_then (parse_event_id C (v_event_id v)) (\<lambda>event_id.
       and_then (parse_operation_id C (v_operation_id v)) (\<lambda>operation_id.
       and_then (parse_command_id C (o_command_id r)) (\<lambda>cid.
       and_then (from_sql_integer (v_sequence v) ''event sequence'') (\<lambda>sequence.
       and_then (decode (value_from_json C) (v_payload_json v)) (\<lambda>payload.
       Inr \<lparr>ev_event_id = event_id, ev_operation_id = operation_id, ev_command_id = cid,
            ev_sequence = sequence, ev_kind = v_kind v, ev_payload = payload\<rparr>))))))"

definition load_events ::
    "('t, 'v) codec \<Rightarrow> SessionId \<Rightarrow> i64 \<Rightarrow> 't db \<Rightarrow> 'v SemanticEvent list kernel_result" where
  "load_events C session_id start db =
     try_map (read_event C)
       (order_by (\<lambda>(v, r). v_sequence v)
         [(v, r). v \<leftarrow> semantic_events db, v_session_id v = to_string C session_id,
                  start \<le> v_sequence v,
                  r \<leftarrow> operations db, o_session_id r = v_session_id v,
                  o_operation_id r = v_operation_id v])"

fun gapless_from :: "u64 \<Rightarrow> 'v SemanticEvent list \<Rightarrow> u64 kernel_result" where
  "gapless_from expected [] = Inr expected"
| "gapless_from expected (event # events) =
     (if ev_sequence event \<noteq> expected
      then Inl (Corrupt ''semantic event sequence was expected to be another'')
      else and_then (ok_or (checked_add_u64 expected 1) (Corrupt ''event sequence overflowed''))
        (\<lambda>expected. gapless_from expected events))"

definition validate_gapless :: "u64 \<Rightarrow> u64 \<Rightarrow> 'v SemanticEvent list \<Rightarrow> unit kernel_result" where
  "validate_gapless start high_water events =
     and_then (gapless_from start events) (\<lambda>expected.
     if expected = high_water then Inr ()
     else Inl (Corrupt ''semantic event replay ended below high-water mark''))"

definition load_event_page ::
    "('t, 'v) codec \<Rightarrow> SessionId \<Rightarrow> u64 \<Rightarrow> 't db \<Rightarrow> 'v EventPage kernel_result" where
  "load_event_page C session_id cursor db =
     and_then (ok_or (find (\<lambda>s. s_session_id s = to_string C session_id) (sessions db))
       (SessionNotFound session_id)) (\<lambda>session.
     and_then (from_sql_integer (s_next_event_sequence session) ''event high-water mark'')
       (\<lambda>high_water.
     if cursor > high_water then Inl (CursorAhead cursor high_water)
     else
     and_then (require (in_i64 cursor) (Corrupt ''event cursor exceeds i64'')) (\<lambda>_.
     and_then (load_events C session_id cursor db) (\<lambda>events.
     and_then (validate_gapless cursor high_water events) (\<lambda>_.
     Inr \<lparr>page_events = events, next_cursor = high_water\<rparr>)))))"

definition events_after ::
    "('t, 'v) codec \<Rightarrow> SessionId \<Rightarrow> u64 \<Rightarrow> 't db \<Rightarrow> 'v EventPage kernel_result" where
  "events_after C session_id cursor db = load_event_page C session_id cursor db"

subsection \<open>What appending does\<close>

text \<open>The row the loop inserts for an entry.\<close>

definition event_row_of ::
    "('t, 'v) codec \<Rightarrow> (nat \<Rightarrow> EventId) \<Rightarrow> SessionId \<Rightarrow> OperationId \<Rightarrow> i64 \<Rightarrow>
     nat \<times> 'v NewEvent \<Rightarrow> 't event_row" where
  "event_row_of C new_id session_id operation_id first_sequence entry =
     \<lparr>v_event_id = to_string C (new_id (fst entry)), v_session_id = to_string C session_id,
      v_operation_id = to_string C operation_id, v_sequence = first_sequence + int (fst entry),
      v_kind = ne_kind (snd entry),
      v_payload_json = the (value_to_json C (ne_payload (snd entry)))\<rparr>"

lemma insert_event_eq:
  assumes "insert_event C new_id session_id operation_id first_sequence entry db = Inr db'"
  shows "db' = db\<lparr>semantic_events := semantic_events db @
      [event_row_of C new_id session_id operation_id first_sequence entry]\<rparr>"
  using assms
  by (auto simp: insert_event_def event_row_of_def result_eq split: prod.splits)

lemma insert_events_eq:
  assumes "try_fold (insert_event C new_id session_id operation_id first_sequence) entries db = Inr db'"
  shows "db' = db\<lparr>semantic_events := semantic_events db @
      map (event_row_of C new_id session_id operation_id first_sequence) entries\<rparr>"
  using assms
proof (induction entries arbitrary: db)
  case (Cons entry entries)
  then obtain db1 where db1: "insert_event C new_id session_id operation_id first_sequence entry db = Inr db1"
    and rest: "try_fold (insert_event C new_id session_id operation_id first_sequence) entries db1 = Inr db'"
    by (auto simp: and_then_eq_Inr)
  show ?case using Cons.IH [OF rest] insert_event_eq [OF db1] by simp
qed simp

definition appended ::
    "('t, 'v) codec \<Rightarrow> (nat \<Rightarrow> EventId) \<Rightarrow> SessionId \<Rightarrow> OperationId \<Rightarrow> i64 \<Rightarrow> 'v NewEvent list \<Rightarrow>
     't event_row list" where
  "appended C new_id session_id operation_id first_sequence events =
     map (event_row_of C new_id session_id operation_id first_sequence) (enumerate 0 events)"

lemma length_appended [simp]:
  "length (appended C new_id session_id operation_id first_sequence events) = length events"
  by (simp add: appended_def)

lemma appended_sequences:
  "map v_sequence (appended C new_id session_id operation_id first_sequence events) =
   map (\<lambda>i. first_sequence + int i) [0..<length events]"
  by (rule nth_equalityI) (simp_all add: appended_def event_row_of_def nth_enumerate_eq)

lemma appended_rows:
  assumes "codec_ok C" and "v \<in> set (appended C new_id session_id operation_id first_sequence events)"
  shows "v_session_id v = to_string C session_id" and "v_operation_id v = to_string C operation_id"
    and "event_ok C v"
proof -
  obtain i event where v: "v = event_row_of C new_id session_id operation_id first_sequence (i, event)"
    using assms(2) by (auto simp: appended_def)
  show "v_session_id v = to_string C session_id" "v_operation_id v = to_string C operation_id"
    by (simp_all add: v event_row_of_def)
  obtain t where "value_to_json C (ne_payload event) = Some t" "value_from_json C t = Some (ne_payload event)"
    using round_tripD [OF codec_okD(7) [OF assms(1)]] by metis
  then show "event_ok C v" by (auto simp: v event_row_of_def event_ok_def canonical_def)
qed

text \<open>
  The effect of a successful append on the database: rows at the end with consecutive sequence
  numbers from the session's counter, and the counter moved by their number.
\<close>

definition after_append ::
    "('t, 'v) codec \<Rightarrow> SessionId \<Rightarrow> 't event_row list \<Rightarrow> 't db \<Rightarrow> 't db" where
  "after_append C session_id rows db =
     db\<lparr>semantic_events := semantic_events db @ rows,
        sessions := update_where (\<lambda>s. s_session_id s = to_string C session_id)
          (\<lambda>s. s\<lparr>s_next_event_sequence := s_next_event_sequence s + int (length rows)\<rparr>)
          (sessions db)\<rparr>"

lemma after_append_tables [simp]:
  "agents (after_append C sid rows db) = agents db"
  "commands (after_append C sid rows db) = commands db"
  "operations (after_append C sid rows db) = operations db"
  "semantic_events (after_append C sid rows db) = semantic_events db @ rows"
  "effect_batches (after_append C sid rows db) = effect_batches db"
  "effects (after_append C sid rows db) = effects db"
  "cancellation_requests (after_append C sid rows db) = cancellation_requests db"
  "sessions (after_append C sid rows db) =
     update_where (\<lambda>s. s_session_id s = to_string C sid)
       (\<lambda>s. s\<lparr>s_next_event_sequence := s_next_event_sequence s + int (length rows)\<rparr>) (sessions db)"
  by (simp_all add: after_append_def)

lemma append_events_eq:
  assumes "append_events C new_id session_id operation_id events db = Inr db'"
    and "unique_on s_session_id (sessions db)"
  obtains s where "s \<in> set (sessions db)" and "s_session_id s = to_string C session_id"
    and "db' = after_append C session_id
      (appended C new_id session_id operation_id (s_next_event_sequence s) events) db"
    and "constraints_ok db'"
proof -
  obtain s where s: "find (\<lambda>s. s_session_id s = to_string C session_id) (sessions db) = Some s"
    using assms(1) by (auto simp: append_events_def result_eq)
  then have mem: "s \<in> set (sessions db)" "s_session_id s = to_string C session_id"
    using find_SomeD by fastforce+
  obtain db1 where fold: "try_fold (insert_event C new_id session_id operation_id
      (s_next_event_sequence s)) (enumerate 0 events) db = Inr db1"
    using assms(1) s by (auto simp: append_events_def Let_def and_then_eq_Inr)
  let ?rows = "appended C new_id session_id operation_id (s_next_event_sequence s) events"
  have db1: "db1 = db\<lparr>semantic_events := semantic_events db @ ?rows\<rparr>"
    using insert_events_eq [OF fold] by (simp add: appended_def)
  let ?P = "\<lambda>s'. s_session_id s' = to_string C session_id \<and>
    s_next_event_sequence s' = s_next_event_sequence s"
  have "db' = db1\<lparr>sessions := update_where ?P (\<lambda>s. s\<lparr>s_next_event_sequence :=
      s_next_event_sequence s + int (length events)\<rparr>) (sessions db1)\<rparr>" and con: "constraints_ok db'"
    using assms(1) s fold
    by (auto simp: append_events_def Let_def update_sessions_def result_eq)
  moreover have "?P s' \<longleftrightarrow> s_session_id s' = to_string C session_id" if "s' \<in> set (sessions db)" for s'
    using unique_onD [OF assms(2) mem(1) that] mem(2) by auto
  then have "update_where ?P f (sessions db) =
      update_where (\<lambda>s. s_session_id s = to_string C session_id) f (sessions db)" for f
    by (simp add: update_where_def)
  ultimately have "db' = after_append C session_id ?rows db"
    by (simp add: db1 after_append_def)
  then show thesis using that mem con by blast
qed

subsection \<open>Replay of the history\<close>

text \<open>The rows of a session's history from a cursor on, in order, each joined with its operation.\<close>

definition history :: "('t, 'v) codec \<Rightarrow> SessionId \<Rightarrow> i64 \<Rightarrow> 't db \<Rightarrow> 't event_row list" where
  "history C session_id start db =
     order_by v_sequence (filter (\<lambda>v. start \<le> v_sequence v) (events_of db (to_string C session_id)))"

definition event_shows :: "('t, 'v) codec \<Rightarrow> 't db \<Rightarrow> 't event_row \<Rightarrow> 'v SemanticEvent \<Rightarrow> bool" where
  "event_shows C db v e \<longleftrightarrow>
     to_string C (ev_event_id e) = v_event_id v \<and>
     to_string C (ev_operation_id e) = v_operation_id v \<and>
     (\<exists>r \<in> set (operations db). o_operation_id r = v_operation_id v \<and>
        to_string C (ev_command_id e) = o_command_id r) \<and>
     ev_sequence e = v_sequence v \<and> ev_kind e = v_kind v \<and>
     value_from_json C (v_payload_json v) = Some (ev_payload e)"

definition owner_of :: "'t db \<Rightarrow> 't event_row \<Rightarrow> 't operation_row" where
  "owner_of db v = hd (filter (\<lambda>r. o_session_id r = v_session_id v \<and>
     o_operation_id r = v_operation_id v) (operations db))"

lemma event_owner:
  assumes "kernel_inv C db" and "v \<in> set (semantic_events db)"
  shows "filter (\<lambda>r. o_session_id r = v_session_id v \<and> o_operation_id r = v_operation_id v)
      (operations db) = [owner_of db v]"
proof -
  obtain r where r: "r \<in> set (operations db)"
      "o_session_id r = v_session_id v \<and> o_operation_id r = v_operation_id v"
    using referenced(6) [OF kernel_invD(4) [OF assms(1)] assms(2)] by blast
  have "filter (\<lambda>r. o_session_id r = v_session_id v \<and> o_operation_id r = v_operation_id v)
      (operations db) = [r]"
    by (rule filter_unique [where k = o_operation_id]) (use r kernel_inv_keys(4) [OF assms(1)] in auto)
  then show ?thesis by (simp add: owner_of_def)
qed

lemma load_events_rows:
  assumes "kernel_inv C db"
  shows "load_events C session_id start db =
     try_map (\<lambda>v. read_event C (v, owner_of db v)) (history C session_id start db)"
proof -
  let ?key = "to_string C session_id"
  have "[(v, r). v \<leftarrow> semantic_events db, v_session_id v = ?key, start \<le> v_sequence v,
            r \<leftarrow> operations db, o_session_id r = v_session_id v, o_operation_id r = v_operation_id v] =
      concat (map (\<lambda>v. if v_session_id v = ?key \<and> start \<le> v_sequence v
        then [(v, owner_of db v)] else []) (semantic_events db))"
  proof (intro arg_cong [where f = concat] map_cong refl)
    fix v assume v: "v \<in> set (semantic_events db)"
    show "(if v_session_id v = ?key then if start \<le> v_sequence v
        then concat (map (\<lambda>r. if o_session_id r = v_session_id v then
          if o_operation_id r = v_operation_id v then [(v, r)] else [] else []) (operations db))
        else [] else []) =
       (if v_session_id v = ?key \<and> start \<le> v_sequence v then [(v, owner_of db v)] else [])"
      by (simp only: if_conj comprehension_filter event_owner [OF assms v] list.map)
  qed
  also have "\<dots> = map (\<lambda>v. (v, owner_of db v))
      (filter (\<lambda>v. v_session_id v = ?key \<and> start \<le> v_sequence v) (semantic_events db))"
    by (rule comprehension_filter)
  finally show ?thesis
    unfolding load_events_def
    by (simp only: order_by_map try_map_map history_def events_of_def filter_filter prod.case)
qed

lemma read_event_shows:
  assumes C: "codec_ok C" and inv: "kernel_inv C db" and v: "v \<in> set (semantic_events db)"
  shows "\<exists>e. read_event C (v, owner_of db v) = Inr e \<and> event_shows C db v e"
proof -
  have "owner_of db v \<in> set (filter (\<lambda>r. o_session_id r = v_session_id v \<and>
      o_operation_id r = v_operation_id v) (operations db))"
    using event_owner [OF inv v] by simp
  then have r: "owner_of db v \<in> set (operations db)"
      "o_operation_id (owner_of db v) = v_operation_id v" by simp_all
  obtain u1 where u1: "v_event_id v = to_string C u1"
    using kernel_invD(8) [OF inv v] by (auto simp: event_ok_def canonical_def)
  obtain u2 where u2: "v_operation_id v = to_string C u2"
    using command_key_canonical(2) [OF inv r(1)] r(2) by (auto simp: canonical_def)
  obtain u3 where u3: "o_command_id (owner_of db v) = to_string C u3"
    using command_key_canonical(1) [OF inv r(1)] by (auto simp: canonical_def)
  obtain p where p: "value_from_json C (v_payload_json v) = Some p"
    using kernel_invD(8) [OF inv v] by (auto simp: event_ok_def)
  have seq: "0 \<le> v_sequence v"
    using kernel_invD(2) [OF inv] v by (simp add: constraints_ok_def list_all_iff event_checks_def)
  show ?thesis
    using r by (auto simp: read_event_def event_shows_def u1 u2 u3 p seq parse_to_string [OF C]
        from_sql_integer_def intro: exI bexI [of _ "owner_of db v"])
qed

lemma history_sequences:
  assumes inv: "kernel_inv C db" and s: "s \<in> set (sessions db)" "s_session_id s = to_string C session_id"
    and cursor: "0 \<le> cursor" "cursor \<le> s_next_event_sequence s"
  shows "map v_sequence (history C session_id cursor db) =
     map (\<lambda>i. cursor + int i) [0..<nat (s_next_event_sequence s - cursor)]"
proof -
  have "gapless (s_next_event_sequence s) (map v_sequence (events_of db (to_string C session_id)))"
    using kernel_invD(9) [OF inv s(1)] s(2) by (simp add: session_ok_def)
  from gapless_sorted_from [OF this cursor] show ?thesis
    by (simp add: history_def map_order_by filter_map o_def)
qed

lemma gapless_from_run:
  assumes "map ev_sequence events = map (\<lambda>i. n + int i) [0..<length events]"
    and "0 \<le> n" and "in_u64 (n + int (length events))"
  shows "gapless_from n events = Inr (n + int (length events))"
  using assms
proof (induction events arbitrary: n)
  case (Cons e events)
  have "map ev_sequence (e # events) = n # map (\<lambda>i. (n + 1) + int i) [0..<length events]"
    using Cons.prems(1) by (simp add: upt_conv_Cons map_Suc_upt [symmetric] o_def del: upt_Suc)
  then have e: "ev_sequence e = n"
    and rest: "map ev_sequence events = map (\<lambda>i. (n + 1) + int i) [0..<length events]" by simp_all
  have "in_u64 (n + 1)" using Cons.prems by (simp add: in_u64_def)
  moreover have "gapless_from (n + 1) events = Inr (n + 1 + int (length events))"
    using Cons.IH [OF rest] Cons.prems by (simp add: in_u64_def)
  ultimately show ?case by (simp add: e checked_add_u64_def)
qed simp

lemma load_event_page_total:
  assumes C: "codec_ok C" and inv: "kernel_inv C db"
    and s: "s \<in> set (sessions db)" "s_session_id s = to_string C session_id"
    and cursor: "0 \<le> cursor" "cursor \<le> s_next_event_sequence s"
  shows "\<exists>events. load_event_page C session_id cursor db =
       Inr \<lparr>page_events = events, next_cursor = s_next_event_sequence s\<rparr> \<and>
     list_all2 (event_shows C db) (history C session_id cursor db) events \<and>
     map ev_sequence events = map (\<lambda>i. cursor + int i) [0..<nat (s_next_event_sequence s - cursor)]"
proof -
  let ?h = "history C session_id cursor db" and ?hw = "s_next_event_sequence s"
  have find: "find (\<lambda>s. s_session_id s = to_string C session_id) (sessions db) = Some s"
    by (rule find_unique [where k = s_session_id]) (use s kernel_inv_keys(2) [OF inv] in auto)
  have checks: "in_i64 ?hw" "0 \<le> ?hw"
    using kernel_invD(2) [OF inv] s(1) by (simp_all add: constraints_ok_def list_all_iff session_checks_def)
  have "\<exists>e. read_event C (v, owner_of db v) = Inr e \<and> event_shows C db v e" if "v \<in> set ?h" for v
    using read_event_shows [OF C inv] that by (auto simp: history_def events_of_def)
  then obtain rd where rd: "\<And>v. v \<in> set ?h \<Longrightarrow> read_event C (v, owner_of db v) = Inr (rd v)"
      "\<And>v. v \<in> set ?h \<Longrightarrow> event_shows C db v (rd v)" by metis
  have load: "load_events C session_id cursor db = Inr (map rd ?h)"
    unfolding load_events_rows [OF inv] by (rule try_map_total) (rule rd(1))
  have sh: "list_all2 (event_shows C db) ?h (map rd ?h)"
    using rd(2) by (simp add: list_all2_conv_all_nth)
  have "map ev_sequence (map rd ?h) = map v_sequence ?h"
    using rd(2) by (simp add: event_shows_def)
  then have seqs: "map ev_sequence (map rd ?h) = map (\<lambda>i. cursor + int i) [0..<nat (?hw - cursor)]"
    using history_sequences [OF inv s cursor] by simp
  have len: "length ?h = nat (?hw - cursor)"
    using arg_cong [OF seqs, of length] by (simp only: length_map length_upt)
  have run: "map ev_sequence (map rd ?h) = map (\<lambda>i. cursor + int i) [0..<length (map rd ?h)]"
    by (simp only: seqs length_map len)
  have hw: "cursor + int (length (map rd ?h)) = ?hw"
    using cursor by (simp add: len)
  have "gapless_from cursor (map rd ?h) = Inr ?hw"
    using gapless_from_run [OF run cursor(1)] in_i64_u64 [OF checks] by (simp only: hw)
  then show ?thesis
    using sh seqs checks cursor
    by (simp add: load_event_page_def find from_sql_integer_def load validate_gapless_def in_i64_def)
qed

end
