(* ===== verification/Kernel_Decisions.thy ===== *)
theory Kernel_Decisions
  imports Kernel_Events Kernel_Operations
begin

section \<open>Loop decisions\<close>

text \<open>
  \<open>decision_store.rs\<close>: the transaction that commits a loop decision other than an effect batch,
  a compare-and-set on the operation's phase and transition version, and
  \<open>cancellation_requested\<close> of \<open>cancellation.rs\<close>, the check every step of an operation makes
  first.
\<close>

datatype CommittedDecision =
    Continue | Finished OperationOutcome | DecisionCancellationPending

definition cancellation_requested :: "('t, 'v) codec \<Rightarrow> OperationId \<Rightarrow> 't db \<Rightarrow> bool" where
  "cancellation_requested C operation_id db =
     exists_row (\<lambda>x. x_operation_id x = to_string C operation_id) (cancellation_requests db)"

text \<open>The part of a decision this transaction commits: checkpoint, events, next phase, outcome.\<close>

fun decision_parts ::
    "'v LoopDecision \<Rightarrow>
     ('v Checkpoint \<times> 'v NewEvent list \<times> OperationPhase \<times> OperationOutcome option) kernel_result" where
  "decision_parts (AppendEventsAndContinue checkpoint events) =
     (if events = []
      then Inl (InvalidDecision ''append-and-continue requires at least one event'')
      else Inr (checkpoint, events, NeedDecision, None))"
| "decision_parts (WaitForInput checkpoint events) =
     Inr (checkpoint, events, Waiting, Some WaitingForInput)"
| "decision_parts (Complete checkpoint events) =
     Inr (checkpoint, events, Completed, Some OutcomeCompleted)"
| "decision_parts (Fail checkpoint events reason) =
     Inr (checkpoint, events, Failed, Some (OutcomeFailed reason))"
| "decision_parts (InvokeEffects _ _) =
     Inl (InvalidDecision ''effect batches must be committed through the effect store'')"

text \<open>The release of a session by its active operation, shared by every terminal transaction.\<close>

definition clear_active ::
    "('t, 'v) codec \<Rightarrow> SessionId \<Rightarrow> OperationId \<Rightarrow> string \<Rightarrow> 't db \<Rightarrow> 't db kernel_result" where
  "clear_active C session_id operation_id message db =
     (let selected = (\<lambda>s. s_session_id s = to_string C session_id \<and>
                          s_active_operation_id s = Some (to_string C operation_id)) in
      and_then (update_sessions selected (\<lambda>s. s\<lparr>s_active_operation_id := None\<rparr>) db) (\<lambda>db'.
      and_then (require (changed selected (sessions db) = 1) (Corrupt message)) (\<lambda>_. Inr db')))"

definition commit_decision ::
    "('t, 'v) codec \<Rightarrow> (nat \<Rightarrow> EventId) \<Rightarrow> SessionId \<Rightarrow> OperationId \<Rightarrow> i64 \<Rightarrow>
     'v LoopDecision \<Rightarrow> 't db \<Rightarrow> (CommittedDecision \<times> 't db) kernel_result" where
  "commit_decision C new_id session_id operation_id expected_transition decision db =
     and_then (decision_parts decision) (\<lambda>(checkpoint, events, phase, outcome).
     and_then (validate_new_events events) (\<lambda>_.
     if cancellation_requested C operation_id db then Inr (DecisionCancellationPending, db)
     else
     and_then (append_events C new_id session_id operation_id events db) (\<lambda>db.
     and_then (encode (checkpoint_to_json C) checkpoint) (\<lambda>checkpoint_json.
     and_then (transpose_map (encode (outcome_to_json C)) outcome) (\<lambda>outcome_json.
     let selected = (\<lambda>r. o_operation_id r = to_string C operation_id \<and>
                         o_phase r = ''need_decision'' \<and>
                         o_transition_version r = expected_transition) in
     and_then (update_operations selected
       (\<lambda>r. r\<lparr>o_phase := phase_as_str phase, o_checkpoint_json := Some checkpoint_json,
               o_outcome_json := outcome_json, o_input_effect_batch_id := None,
               o_transition_version := o_transition_version r + 1\<rparr>) db) (\<lambda>db'.
     and_then (require (changed selected (operations db) = 1)
       (Corrupt ''loop decision compare-and-set failed'')) (\<lambda>_.
     and_then (if outcome \<noteq> None
               then clear_active C session_id operation_id
                      ''terminal operation did not own its session'' db'
               else Inr db') (\<lambda>db.
     and_then (commit db) (\<lambda>db.
     Inr (case outcome of Some outcome \<Rightarrow> Finished outcome | None \<Rightarrow> Continue, db))))))))))"

subsection \<open>Decisions keep the invariant\<close>

text \<open>The checkpoint of a decision has the schema version of the operation's frozen manifest.\<close>

definition checkpoint_fits :: "('t, 'v) codec \<Rightarrow> OperationId \<Rightarrow> 'v Checkpoint \<Rightarrow> 't db \<Rightarrow> bool" where
  "checkpoint_fits C operation_id cp db \<longleftrightarrow>
     (\<forall>r \<in> set (operations db). o_operation_id r = to_string C operation_id \<longrightarrow>
        (\<forall>M. row_manifest C r = Some M \<longrightarrow> schema_version cp = checkpoint_schema_version M))"

lemma clear_active_eq:
  assumes "clear_active C session_id operation_id message db = Inr db'"
    and "unique_on s_session_id (sessions db)"
  obtains s where "s \<in> set (sessions db)" and "s_session_id s = to_string C session_id"
    and "s_active_operation_id s = Some (to_string C operation_id)"
    and "db' = db\<lparr>sessions := update_where (\<lambda>s. s_session_id s = to_string C session_id)
        (\<lambda>s. s\<lparr>s_active_operation_id := None\<rparr>) (sessions db)\<rparr>"
    and "constraints_ok db'"
proof -
  let ?P = "\<lambda>s. s_session_id s = to_string C session_id \<and>
    s_active_operation_id s = Some (to_string C operation_id)"
  have one: "changed ?P (sessions db) = 1" and con: "constraints_ok db'"
    and db': "db' = db\<lparr>sessions := update_where ?P (\<lambda>s. s\<lparr>s_active_operation_id := None\<rparr>) (sessions db)\<rparr>"
    using assms(1) by (auto simp: clear_active_def Let_def update_sessions_def result_eq)
  obtain s where s: "s \<in> set (sessions db)" "?P s" using changed_oneD [OF one] by metis
  have "?P s' \<longleftrightarrow> s_session_id s' = to_string C session_id" if "s' \<in> set (sessions db)" for s'
    using unique_onD [OF assms(2) s(1) that] s(2) by auto
  then have "update_where ?P f (sessions db) =
      update_where (\<lambda>s. s_session_id s = to_string C session_id) f (sessions db)" for f
    by (simp add: update_where_def)
  then show thesis using that s con db' by simp
qed

text \<open>
  The common end of an operation: events appended, the operation closed with an outcome, the
  session released. \<open>commit_decision\<close>, \<open>commit_cancellation\<close> and
  \<open>commit_unknown_effect_abandonment\<close> all end this way.
\<close>

lemma finish_inv:
  assumes C: "codec_ok C" and inv: "kernel_inv C db"
    and r: "r \<in> set (operations db)" "o_operation_id r = to_string C oid" "o_session_id r = to_string C sid"
    and act: "active_phase (o_phase r)" "o_phase r \<noteq> ''effect_dispatched''"
    and s: "s \<in> set (sessions db)" "s_session_id s = to_string C sid"
    and rows: "rows = appended C ids sid oid (s_next_event_sequence s) events"
    and db': "db' = (let db2 = set_operation (to_string C oid) f (after_append C sid rows db) in
      db2\<lparr>sessions := update_where (\<lambda>s. s_session_id s = to_string C sid)
        (\<lambda>s. s\<lparr>s_active_operation_id := None\<rparr>) (sessions db2)\<rparr>)"
    and schema: "schema_ok db'"
    and key: "o_operation_id (f r) = o_operation_id r" "o_state_version (f r) = o_state_version r"
      "o_manifest_json (f r) = o_manifest_json r" "o_session_id (f r) = o_session_id r"
      "o_position (f r) = o_position r"
      "o_next_effect_batch_position (f r) = o_next_effect_batch_position r"
    and out: "o_outcome_json (f r) = Some ocj" "outcome_from_json C ocj = Some oc"
      "o_phase (f r) = phase_as_str (outcome_phase oc)"
    and cp: "o_checkpoint_json (f r) = Some cpj" "checkpoint_from_json C cpj = Some cp"
      "checkpoint_fits C oid cp db"
    and ptr: "o_current_effect_batch_id (f r) = None" "o_input_effect_batch_id (f r) = None"
  shows "kernel_inv C db'"
proof -
  let ?ok = "to_string C oid" and ?sk = "to_string C sid"
  let ?db1 = "after_append C sid rows db"
  let ?g = "\<lambda>s. s\<lparr>s_next_event_sequence := s_next_event_sequence s + int (length rows),
    s_active_operation_id := None\<rparr>"
  note uniq_b = kernel_inv_keys(7) [OF inv]
  have only_s: "s' = s" if "s' \<in> set (sessions db)" "s_session_id s' = ?sk" for s'
    using unique_onD [OF kernel_inv_keys(2) [OF inv]] that s by metis
  have active: "s_active_operation_id s = Some ?ok"
    using active_session [OF inv r(1) act(1) s(1)] s(2) r(2,3) by simp
  have child: "children_of db' = children_of (set_operation ?ok f ?db1)"
    by (rule view_eqs) (simp add: db' Let_def)
  have views: "children_of ?db1 = children_of db" "batches_of ?db1 = batches_of db"
    by (rule view_eqs, simp)+
  have ch: "changes ?sk ?ok f ?g rows [] db db'"
    unfolding changes_def child
    using children_set_operation_other [of ?db1 _ ?ok f] uniq_b views appended_rows(1,2) [OF C]
    by (auto simp: db' Let_def rows update_where_twice)
  have bs: "batches_of db' ?ok = batches_of db ?ok"
    by (rule fun_cong [OF view_eqs(3)]) (simp add: db' Let_def)
  obtain M where M: "row_manifest C r = Some M" "schema_version cp = checkpoint_schema_version M"
    using kernel_invD(10) [OF inv r(1)] act cp(3) r
    by (auto simp: op_ok_def checkpoint_ok_def active_phase_def checkpoint_fits_def)
  have op: "op_ok C (f r) (batches_of db' ?ok) (children_of db')"
    unfolding bs
  proof (rule op_ok_finish [where r = r and ch = "children_of db"])
    show "op_ok C r (batches_of db ?ok) (children_of db)"
      using kernel_invD(10) [OF inv r(1)] r(2) by simp
    show "children_of db' (b_batch_id b) = release_children (children_of db (b_batch_id b))"
      if "b \<in> set (batches_of db ?ok)" for b
      unfolding child using children_set_operation_own [of b ?db1 ?ok r f] that r key out(1) views by simp
    show "b = b'" if "b \<in> set (batches_of db ?ok)" "b' \<in> set (batches_of db ?ok)"
        "b_batch_id b = b_batch_id b'" for b b'
      using unique_onD [OF uniq_b] that by (simp add: batches_of_def)
  qed (use act key out cp ptr M in auto)
  have inactive: "\<not> active_phase (o_phase (f r))"
    using terminal_not_active [OF outcome_phase_terminal] out(3) by auto
  have seqs: "map v_sequence rows = map (\<lambda>i. s_next_event_sequence s + int i) [0..<length rows]"
    by (simp add: rows appended_sequences)
  show ?thesis
  proof (rule kernel_inv_change [OF inv schema ch r(1,2,3) _ _ _ _ _ op])
    fix s' assume "s' \<in> set (sessions db)" "s_session_id s' = ?sk"
    then have s': "s' = s" by (rule only_s)
    show "s_session_id (?g s') = ?sk \<and> s_agent_id (?g s') = s_agent_id s' \<and>
      s_next_command_position (?g s') = s_next_command_position s' \<and>
      s_next_event_sequence (?g s') = s_next_event_sequence s' + int (length rows) \<and>
      map v_sequence rows = map (\<lambda>i. s_next_event_sequence s' + int i) [0..<length rows] \<and>
      s_active_operation_id s' \<in> {None, Some ?ok} \<and>
      s_active_operation_id (?g s') = (if active_phase (o_phase (f r)) then Some ?ok else None)"
      using seqs active inactive s by (simp add: s')
  qed (use key r appended_rows(3) [OF C] rows in auto)
qed

text \<open>The row of an operation after a decision.\<close>

definition decided ::
    "OperationPhase \<Rightarrow> 't \<Rightarrow> 't option \<Rightarrow> 't operation_row \<Rightarrow> 't operation_row" where
  "decided phase checkpoint_json outcome_json r =
     r\<lparr>o_phase := phase_as_str phase, o_checkpoint_json := Some checkpoint_json,
        o_outcome_json := outcome_json, o_input_effect_batch_id := None,
        o_transition_version := o_transition_version r + 1\<rparr>"

lemma commit_decision_cases:
  assumes ok: "commit_decision C ids session_id operation_id tv decision db = Inr (committed, db')"
    and con: "constraints_ok db"
  obtains
    (pending) "cancellation_requested C operation_id db" and "db' = db"
      and "committed = DecisionCancellationPending"
  | (decision) checkpoint events phase outcome cpj ocj s db1 r
    where "decision_parts decision = Inr (checkpoint, events, phase, outcome)"
      and "\<not> cancellation_requested C operation_id db"
      and "s \<in> set (sessions db)" and "s_session_id s = to_string C session_id"
      and "db1 = after_append C session_id
        (appended C ids session_id operation_id (s_next_event_sequence s) events) db"
      and "constraints_ok db1"
      and "checkpoint_to_json C checkpoint = Some cpj"
      and "transpose_map (encode (outcome_to_json C)) outcome = Inr ocj"
      and "r \<in> set (operations db)" and "o_operation_id r = to_string C operation_id"
      and "o_phase r = ''need_decision''" and "o_transition_version r = tv"
      and "if outcome \<noteq> None
        then clear_active C session_id operation_id ''terminal operation did not own its session''
          (set_operation (to_string C operation_id) (decided phase cpj ocj) db1) = Inr db'
        else db' = set_operation (to_string C operation_id) (decided phase cpj ocj) db1"
      and "constraints_ok (set_operation (to_string C operation_id) (decided phase cpj ocj) db1)"
      and "pointers_ok db'"
      and "committed = (case outcome of Some outcome \<Rightarrow> Finished outcome | None \<Rightarrow> Continue)"
proof -
  obtain checkpoint events phase outcome where
    parts: "decision_parts decision = Inr (checkpoint, events, phase, outcome)"
    using ok by (auto simp: commit_decision_def elim!: and_then_InrE)
  have valid: "validate_new_events events = Inr ()"
    using ok by (auto simp: commit_decision_def parts elim!: and_then_InrE)
  note ok' = ok [unfolded commit_decision_def parts and_then_simps prod.case valid]
  show thesis
  proof (cases "cancellation_requested C operation_id db")
    case True
    show thesis by (rule pending [OF True]) (use ok' True in simp_all)
  next
    case False
    let ?sel = "\<lambda>r. o_operation_id r = to_string C operation_id \<and> o_phase r = ''need_decision'' \<and>
      o_transition_version r = tv"
    obtain db1 cpj ocj db2 where app: "append_events C ids session_id operation_id events db = Inr db1"
      and cpj: "encode (checkpoint_to_json C) checkpoint = Inr cpj"
      and ocj: "transpose_map (encode (outcome_to_json C)) outcome = Inr ocj"
      and upd: "update_operations ?sel (decided phase cpj ocj) db1 = Inr db2"
      and one: "require (changed ?sel (operations db1) = 1)
        (Corrupt ''loop decision compare-and-set failed'') = Inr ()"
      and fin: "(if outcome \<noteq> None then clear_active C session_id operation_id
          ''terminal operation did not own its session'' db2 else Inr db2) = Inr db'"
      and ptr: "commit db' = Inr db'"
      and res: "committed = (case outcome of Some outcome \<Rightarrow> Finished outcome | None \<Rightarrow> Continue)"
      using ok' [unfolded if_not_P [OF False] Let_def]
      by (elim and_then_InrE) (simp add: commit_eq_Inr decided_def [abs_def])
    obtain s where s: "s \<in> set (sessions db)" "s_session_id s = to_string C session_id"
      and db1: "db1 = after_append C session_id
        (appended C ids session_id operation_id (s_next_event_sequence s) events) db"
      and con1: "constraints_ok db1"
      by (rule append_events_eq [OF app schema_keys(2) [OF con]])
    have one': "changed ?sel (operations db1) = 1" using one by (simp only: require_eq_Inr)
    note upd_one = update_operations_one [OF con1 upd one', of "to_string C operation_id"]
    have eq: "db2 = set_operation (to_string C operation_id) (decided phase cpj ocj) db1"
      and con2: "constraints_ok db2" using upd_one(1,2) by simp_all
    obtain r where r: "r \<in> set (operations db)" "?sel r"
      using upd_one(3) by (auto simp: db1)
    show thesis
    proof (rule decision [OF parts False s db1 con1 _ ocj r(1)])
      show "checkpoint_to_json C checkpoint = Some cpj" using cpj by (simp only: ok_or_eq_Inr)
      show "if outcome \<noteq> None
        then clear_active C session_id operation_id ''terminal operation did not own its session''
          (set_operation (to_string C operation_id) (decided phase cpj ocj) db1) = Inr db'
        else db' = set_operation (to_string C operation_id) (decided phase cpj ocj) db1"
        using fin unfolding eq by (auto split: if_splits)
      show "constraints_ok (set_operation (to_string C operation_id) (decided phase cpj ocj) db1)"
        using con2 unfolding eq .
    qed (use r(2) ptr res in \<open>simp_all add: commit_eq_Inr\<close>)
  qed
qed

text \<open>The phase and outcome of a decision agree, and only a continuing one has no outcome.\<close>

lemma decision_parts_outcome:
  assumes "decision_parts decision = Inr (checkpoint, events, phase, outcome)"
  shows "checkpoint = decision_checkpoint decision"
    and "case outcome of None \<Rightarrow> phase = NeedDecision \<and> events \<noteq> [] | Some oc \<Rightarrow> phase = outcome_phase oc"
  using assms by (cases decision; auto split: if_splits)+

lemma op_ok_continue:
  assumes ok: "op_ok C r bs ch" and ph: "o_phase r = ''need_decision''"
    and cp: "checkpoint_from_json C cpj = Some cp" "row_manifest C r = Some M"
      "schema_version cp = checkpoint_schema_version M"
  shows "op_ok C (decided NeedDecision cpj None r) bs ch"
proof -
  have man: "row_manifest C (decided NeedDecision cpj None r) = row_manifest C r"
    by (rule row_manifest_eq) (simp add: decided_def)
  have none: "o_outcome_json r = None"
    using active_no_outcome [OF ok] ph by (simp add: active_phase_def)
  show ?thesis
    using ok ph cp none unfolding op_ok_def batches_ok_def outcome_ok_def checkpoint_ok_def
      pointers_match_def man
    by (simp add: decided_def)
qed

text \<open>An operation in the decision phase that continues, with its events appended.\<close>

lemma continue_inv:
  assumes C: "codec_ok C" and inv: "kernel_inv C db"
    and r: "r \<in> set (operations db)" "o_operation_id r = to_string C oid" "o_session_id r = to_string C sid"
    and ph: "o_phase r = ''need_decision''"
    and s: "s \<in> set (sessions db)" "s_session_id s = to_string C sid"
    and rows: "rows = appended C ids sid oid (s_next_event_sequence s) events"
    and db': "db' = set_operation (to_string C oid) (decided NeedDecision cpj None) (after_append C sid rows db)"
    and schema: "schema_ok db'"
    and cp: "checkpoint_from_json C cpj = Some cp" "checkpoint_fits C oid cp db"
  shows "kernel_inv C db'"
proof -
  let ?ok = "to_string C oid" and ?sk = "to_string C sid" and ?db1 = "after_append C sid rows db"
  let ?f = "decided NeedDecision cpj None :: 'a operation_row \<Rightarrow> 'a operation_row"
  let ?g = "\<lambda>s. s\<lparr>s_next_event_sequence := s_next_event_sequence s + int (length rows)\<rparr>"
  have act: "active_phase (o_phase r)" using ph by (simp add: active_phase_def)
  have only_s: "s' = s" if "s' \<in> set (sessions db)" "s_session_id s' = ?sk" for s'
    using unique_onD [OF kernel_inv_keys(2) [OF inv]] that s by metis
  have active: "s_active_operation_id s = Some ?ok"
    using active_session [OF inv r(1) act s(1)] s(2) r(2,3) by simp
  have "children_of db' = children_of ?db1"
    unfolding db' by (rule update_operation_children) (simp add: decided_def)
  also have "\<dots> = children_of db" by (rule view_eqs) simp
  finally have child: "children_of db' = children_of db" .
  have ch: "changes ?sk ?ok ?f ?g rows [] db db'"
    unfolding changes_def child using appended_rows(1,2) [OF C] by (auto simp: db' rows)
  have bs: "batches_of db' ?ok = batches_of db ?ok"
    by (rule fun_cong [OF view_eqs(3)]) (simp add: db')
  obtain M where M: "row_manifest C r = Some M" "schema_version cp = checkpoint_schema_version M"
    using kernel_invD(10) [OF inv r(1)] ph cp(2) r
    by (auto simp: op_ok_def checkpoint_ok_def checkpoint_fits_def)
  have op: "op_ok C (?f r) (batches_of db' ?ok) (children_of db')"
    unfolding bs child
    by (rule op_ok_continue [OF _ ph cp(1) M]) (use kernel_invD(10) [OF inv r(1)] r(2) in simp)
  have seqs: "map v_sequence rows = map (\<lambda>i. s_next_event_sequence s + int i) [0..<length rows]"
    by (simp add: rows appended_sequences)
  show ?thesis
  proof (rule kernel_inv_change [OF inv schema ch r(1,2,3) _ _ _ _ _ op])
    fix s' assume "s' \<in> set (sessions db)" "s_session_id s' = ?sk"
    then have s': "s' = s" by (rule only_s)
    show "s_session_id (?g s') = ?sk \<and> s_agent_id (?g s') = s_agent_id s' \<and>
      s_next_command_position (?g s') = s_next_command_position s' \<and>
      s_next_event_sequence (?g s') = s_next_event_sequence s' + int (length rows) \<and>
      map v_sequence rows = map (\<lambda>i. s_next_event_sequence s' + int i) [0..<length rows] \<and>
      s_active_operation_id s' \<in> {None, Some ?ok} \<and>
      s_active_operation_id (?g s') = (if active_phase (o_phase (?f r)) then Some ?ok else None)"
      using seqs active s by (simp add: s' decided_def active_phase_def)
  qed (use r appended_rows(3) [OF C] rows in \<open>auto simp: decided_def\<close>)
qed

text \<open>Events are only appended for an operation of the session.\<close>

lemma appended_session:
  assumes inv: "kernel_inv C db" and con: "constraints_ok (after_append C sid (appended C ids sid oid n events) db)"
    and ev: "events \<noteq> []"
    and r: "r \<in> set (operations db)" "o_operation_id r = to_string C oid"
  shows "o_session_id r = to_string C sid"
proof -
  let ?rows = "appended C ids sid oid n events"
  obtain v where v: "v \<in> set ?rows"
    using ev length_appended [of C ids sid oid n events] by (metis length_0_conv list.set_intros(1) neq_Nil_conv)
  then have keys: "v_session_id v = to_string C sid" "v_operation_id v = to_string C oid"
    by (auto simp: appended_def event_row_of_def)
  have "references_ok (after_append C sid ?rows db)" using con by (simp add: constraints_ok_def)
  from referenced(6) [OF this, of v] v keys obtain r' where r': "r' \<in> set (operations db)"
      "o_session_id r' = to_string C sid" "o_operation_id r' = to_string C oid"
    by auto
  then have "r' = r" using unique_onD [OF kernel_inv_keys(4) [OF inv]] r by metis
  then show ?thesis using r' by simp
qed

lemma update_sessions_active:
  "s \<in> set (sessions (after_append C sid rows db)) \<Longrightarrow>
   \<exists>s0 \<in> set (sessions db). s_session_id s0 = s_session_id s \<and> s_active_operation_id s0 = s_active_operation_id s"
  by (auto simp: update_where_mem)

lemma commit_decision_inv:
  assumes C: "codec_ok C" and inv: "kernel_inv C db"
    and ok: "commit_decision C ids session_id operation_id tv decision db = Inr (committed, db')"
    and fits: "checkpoint_fits C operation_id (decision_checkpoint decision) db"
  shows "kernel_inv C db'"
  using ok kernel_invD(2) [OF inv]
proof (cases rule: commit_decision_cases)
  case pending
  then show ?thesis using inv by simp
next
  case (decision checkpoint events phase outcome cpj ocj s db1 r)
  note parts = decision_parts_outcome [OF decision(1)]
  have cp: "checkpoint_from_json C cpj = Some (decision_checkpoint decision)"
    using round_trip_dec [OF codec_okD(4) [OF C] decision(7)] parts(1) by simp
  show ?thesis
  proof (cases outcome)
    case None
    then have ph: "phase = NeedDecision" "events \<noteq> []" "ocj = None" using parts(2) decision(8) by auto
    have sess: "o_session_id r = to_string C session_id"
      by (rule appended_session [OF inv _ ph(2) decision(9,10)]) (use decision(5,6) in simp)
    have db': "db' = set_operation (to_string C operation_id) (decided NeedDecision cpj None) db1"
      using decision(13) None ph by simp
    have "schema_ok db'" using decision(14,15) None ph by (simp add: schema_ok_def db')
    then show ?thesis
      by (rule continue_inv [OF C inv decision(9,10) sess decision(11) decision(3,4) refl
          db' [unfolded decision(5)] _ cp fits])
  next
    case (Some oc)
    then have ph: "phase = outcome_phase oc" using parts(2) by simp
    obtain t where t: "ocj = Some t" "outcome_to_json C oc = Some t"
      using decision(8) Some by (auto simp: result_eq)
    let ?db2 = "set_operation (to_string C operation_id) (decided phase cpj ocj) db1"
    have clear: "clear_active C session_id operation_id ''terminal operation did not own its session'' ?db2 = Inr db'"
      using decision(13) Some by simp
    obtain s2 where s2: "s2 \<in> set (sessions ?db2)" "s_session_id s2 = to_string C session_id"
        "s_active_operation_id s2 = Some (to_string C operation_id)"
      and db': "db' = ?db2\<lparr>sessions := update_where (\<lambda>s. s_session_id s = to_string C session_id)
        (\<lambda>s. s\<lparr>s_active_operation_id := None\<rparr>) (sessions ?db2)\<rparr>" and con: "constraints_ok db'"
      by (rule clear_active_eq [OF clear schema_keys(2) [OF decision(14)]])
    obtain s0 where s0: "s0 \<in> set (sessions db)" "s_session_id s0 = to_string C session_id"
        "s_active_operation_id s0 = Some (to_string C operation_id)"
      using update_sessions_active s2 unfolding decision(5) by (metis set_operation_tables(2))
    have sess: "o_session_id r = to_string C session_id"
      using pointed_operation(1) [OF inv s0(1,3) decision(9,10)] s0(2) by simp
    have schema: "schema_ok db'" using con decision(15) by (simp add: schema_ok_def)
    have act: "active_phase (o_phase r)" "o_phase r \<noteq> ''effect_dispatched''"
      using decision(11) by (simp_all add: active_phase_def)
    have cur: "o_current_effect_batch_id r = None"
      using kernel_invD(10) [OF inv decision(9)] decision(11) by (simp add: op_ok_def pointers_match_def)
    show ?thesis
      by (rule finish_inv [OF C inv decision(9,10) sess act decision(3,4) refl _ schema,
            where f = "decided phase cpj ocj" and oc = oc and cpj = cpj and cp = "decision_checkpoint decision"
            and ocj = t])
        (use fits cp t ph cur db' decision(5) round_trip_dec [OF codec_okD(5) [OF C] t(2)] in
          \<open>simp_all add: decided_def Let_def\<close>)
  qed
qed

end
