(* ===== verification/Kernel_Effects.thy ===== *)
theory Kernel_Effects
  imports Kernel_Decisions
begin

section \<open>Effect batches\<close>

text \<open>
  \<open>effect_store.rs\<close> with its modules \<open>dispatch.rs\<close> and \<open>projection.rs\<close>: the atomic admission of
  an ordered batch of effect intents, the marking of every ready child before any adapter runs,
  the settlement of each child, the transition of the operation when its batch is terminal, and
  the loop-visible projections of a batch.
\<close>

record 'v PendingEffect =
  pe_batch_id :: EffectBatchId
  pe_effect_id :: EffectId
  pe_binding :: string
  pe_binding_revision :: string
  pe_request :: 'v
  pe_recovery :: EffectRecovery
  pe_dispatch_count :: u64
  pe_transition_version :: i64

record 'v PendingEffectBatch =
  pb_batch_id :: EffectBatchId
  pb_effects :: "'v PendingEffect list"

record 'v NewEffectIntent =
  ni_binding :: string
  ni_binding_revision :: string
  ni_request :: 'v
  ni_recovery :: EffectRecovery

record 'v NewEffectBatchIntent =
  nb_checkpoint :: "'v Checkpoint"
  nb_effects :: "'v NewEffectIntent list"

record 'v PreparedEffect =
  pr_effect_id :: EffectId
  pr_binding :: string
  pr_binding_revision :: string
  pr_recovery :: EffectRecovery
  pr_request :: 'v
  pr_status :: EffectStatus
  pr_dispatch_count :: u64

datatype 'v EffectBatchStart =
    Invoke "'v PendingEffectBatch" | StartSettled | StartBlocked | StartCancellationPending

datatype EffectBatchFinish =
    Retry | FinishSettled | FinishBlocked | FinishCancellationPending

datatype EffectIntentCommit = IntentsCommitted | IntentCancellationPending

definition into_invocation :: "'v PendingEffect \<Rightarrow> RuntimeManifest \<Rightarrow> 'v EffectInvocation" where
  "into_invocation effect manifest =
     \<lparr>inv_batch_id = pe_batch_id effect, inv_effect_id = pe_effect_id effect,
      inv_binding = pe_binding effect, inv_binding_revision = pe_binding_revision effect,
      inv_runtime_manifest = manifest, inv_request = pe_request effect\<rparr>"

subsection \<open>Reading a batch\<close>

text \<open>The children of a batch that an operation owns, in declaration order.\<close>

definition batch_children :: "('t, 'v) codec \<Rightarrow> OperationId \<Rightarrow> EffectBatchId \<Rightarrow> 't db \<Rightarrow>
    't effect_row list" where
  "batch_children C operation_id batch_id db =
     order_by e_position
       [e. b \<leftarrow> effect_batches db, b_operation_id b = to_string C operation_id,
           b_batch_id b = to_string C batch_id,
           e \<leftarrow> effects db, e_batch_id e = b_batch_id b]"

text \<open>The check every reader of a batch makes of each child: positions count from 0 without a gap.\<close>

definition require_child_position :: "nat \<Rightarrow> 't effect_row \<Rightarrow> unit kernel_result" where
  "require_child_position expected_position e =
     and_then (from_sql_integer (e_position e) ''effect position'') (\<lambda>position.
     if position \<noteq> int expected_position
     then Inl (Corrupt ''effect batch child positions are not gapless'') else Inr ())"

definition require_children :: "'a list \<Rightarrow> 'a list kernel_result" where
  "require_children children =
     (if children = [] then Inl (Corrupt ''effect batch contains no children'') else Inr children)"

definition load_batch_statuses ::
    "('t, 'v) codec \<Rightarrow> OperationId \<Rightarrow> EffectBatchId \<Rightarrow> 't db \<Rightarrow> EffectStatus list kernel_result" where
  "load_batch_statuses C operation_id batch_id db =
     and_then (try_map (\<lambda>(expected_position, e).
         and_then (require_child_position expected_position e) (\<lambda>_. parse_status (e_status e)))
       (enumerate 0 (batch_children C operation_id batch_id db)))
     require_children"

definition prepared_effect ::
    "('t, 'v) codec \<Rightarrow> nat \<times> 't effect_row \<Rightarrow> 'v PreparedEffect kernel_result" where
  "prepared_effect C entry =
     (case entry of (expected_position, e) \<Rightarrow>
       and_then (ok_or (e_request_json e) sqlite_error) (\<lambda>request_json.
       and_then (require_child_position expected_position e) (\<lambda>_.
       and_then (parse_effect_id C (e_effect_id e)) (\<lambda>effect_id.
       and_then (parse_recovery (e_recovery e)) (\<lambda>recovery.
       and_then (decode (value_from_json C) request_json) (\<lambda>request.
       and_then (parse_status (e_status e)) (\<lambda>status.
       and_then (from_sql_integer (e_dispatch_count e) ''effect dispatch count'') (\<lambda>count.
       Inr \<lparr>pr_effect_id = effect_id, pr_binding = e_binding e,
            pr_binding_revision = e_binding_revision e, pr_recovery = recovery,
            pr_request = request, pr_status = status, pr_dispatch_count = count\<rparr>))))))))"

definition load_prepared_effects ::
    "('t, 'v) codec \<Rightarrow> OperationId \<Rightarrow> EffectBatchId \<Rightarrow> 't db \<Rightarrow>
     'v PreparedEffect list kernel_result" where
  "load_prepared_effects C operation_id batch_id db =
     and_then (try_map (prepared_effect C)
       (enumerate 0 (batch_children C operation_id batch_id db)))
     require_children"

subsection \<open>Writing a batch\<close>

definition require_dispatched_batch ::
    "('t, 'v) codec \<Rightarrow> OperationId \<Rightarrow> EffectBatchId \<Rightarrow> i64 \<Rightarrow> 't db \<Rightarrow> unit kernel_result" where
  "require_dispatched_batch C operation_id batch_id expected_transition db =
     require (exists_row (\<lambda>r. o_operation_id r = to_string C operation_id \<and>
         o_phase r = ''effect_dispatched'' \<and> o_transition_version r = expected_transition \<and>
         o_current_effect_batch_id r = Some (to_string C batch_id)) (operations db))
       (Corrupt ''effect batch changed before child settlement'')"

definition transition_finished_batch ::
    "('t, 'v) codec \<Rightarrow> OperationId \<Rightarrow> EffectBatchId \<Rightarrow> i64 \<Rightarrow> bool \<Rightarrow> 't db \<Rightarrow> 't db kernel_result" where
  "transition_finished_batch C operation_id batch_id expected_transition blocked db =
     (let (phase, current_batch, input_batch) =
        (if blocked then (''outcome_unknown'', Some (to_string C batch_id), None)
         else (''need_decision'', None, Some (to_string C batch_id)));
        selected = (\<lambda>r. o_operation_id r = to_string C operation_id \<and>
          o_phase r = ''effect_dispatched'' \<and> o_transition_version r = expected_transition \<and>
          o_current_effect_batch_id r = Some (to_string C batch_id)) in
      and_then (update_operations selected
        (\<lambda>r. r\<lparr>o_phase := phase, o_current_effect_batch_id := current_batch,
                o_input_effect_batch_id := input_batch,
                o_transition_version := o_transition_version r + 1\<rparr>) db) (\<lambda>db'.
      and_then (require (changed selected (operations db) = 1)
        (Corrupt ''effect batch completion compare-and-set failed'')) (\<lambda>_.
      Inr db')))"

definition update_effect_status ::
    "('t, 'v) codec \<Rightarrow> EffectId \<Rightarrow> EffectStatus \<Rightarrow> EffectStatus \<Rightarrow> 't db \<Rightarrow> 't db kernel_result" where
  "update_effect_status C effect_id expected new_status db =
     (let selected = (\<lambda>e. e_effect_id e = to_string C effect_id \<and>
          e_status e = status_name expected) in
      and_then (update_effects selected (\<lambda>e. e\<lparr>e_status := status_name new_status\<rparr>) db) (\<lambda>db'.
      and_then (require (changed selected (effects db) = 1)
        (Corrupt ''effect status compare-and-set failed'')) (\<lambda>_. Inr db')))"

text \<open>\<open>None\<close>: a child is still in flight; otherwise whether the finished batch is blocked.\<close>

definition transition_batch_if_terminal ::
    "('t, 'v) codec \<Rightarrow> OperationId \<Rightarrow> EffectBatchId \<Rightarrow> i64 \<Rightarrow> 't db \<Rightarrow>
     (bool option \<times> 't db) kernel_result" where
  "transition_batch_if_terminal C operation_id batch_id expected_transition db =
     and_then (load_batch_statuses C operation_id batch_id db) (\<lambda>statuses.
     if IntentCommitted \<in> set statuses
     then Inl (Corrupt ''dispatched effect batch contains an unmarked child'')
     else if DispatchStarted \<in> set statuses then Inr (None, db)
     else let blocked = EffectOutcomeUnknown \<in> set statuses in
     and_then (transition_finished_batch C operation_id batch_id expected_transition blocked db)
       (\<lambda>db. Inr (Some blocked, db)))"

definition settle_batch_effect ::
    "('t, 'v) codec \<Rightarrow> OperationId \<Rightarrow> EffectBatchId \<Rightarrow> EffectId \<Rightarrow> i64 \<Rightarrow> 'v EffectOutcome \<Rightarrow>
     't db \<Rightarrow> (bool \<times> 't db) kernel_result" where
  "settle_batch_effect C operation_id batch_id effect_id expected_transition outcome db =
     and_then (encode (effect_outcome_to_json C) outcome) (\<lambda>outcome_json.
     and_then (require_dispatched_batch C operation_id batch_id expected_transition db) (\<lambda>_.
     let selected = (\<lambda>e. e_effect_id e = to_string C effect_id \<and>
       e_batch_id e = to_string C batch_id \<and> e_status e = ''dispatch_started'') in
     and_then (update_effects selected
       (\<lambda>e. e\<lparr>e_status := ''settled'', e_outcome_json := Some outcome_json\<rparr>) db) (\<lambda>db'.
     and_then (require (changed selected (effects db) = 1)
       (Corrupt ''effect settlement compare-and-set failed'')) (\<lambda>_.
     and_then (transition_batch_if_terminal C operation_id batch_id expected_transition db')
       (\<lambda>(terminal, db).
     and_then (commit db) (\<lambda>db. Inr (terminal \<noteq> None, db)))))))"

definition record_batch_effect_unknown ::
    "('t, 'v) codec \<Rightarrow> OperationId \<Rightarrow> EffectBatchId \<Rightarrow> EffectId \<Rightarrow> i64 \<Rightarrow> 't db \<Rightarrow>
     (bool \<times> 't db) kernel_result" where
  "record_batch_effect_unknown C operation_id batch_id effect_id expected_transition db =
     and_then (require_dispatched_batch C operation_id batch_id expected_transition db) (\<lambda>_.
     and_then (update_effect_status C effect_id DispatchStarted EffectOutcomeUnknown db) (\<lambda>db.
     and_then (transition_batch_if_terminal C operation_id batch_id expected_transition db)
       (\<lambda>(terminal, db).
     and_then (commit db) (\<lambda>db. Inr (terminal \<noteq> None, db)))))"

definition finish_effect_batch_attempt ::
    "('t, 'v) codec \<Rightarrow> OperationId \<Rightarrow> EffectBatchId \<Rightarrow> i64 \<Rightarrow> 't db \<Rightarrow>
     (EffectBatchFinish \<times> 't db) kernel_result" where
  "finish_effect_batch_attempt C operation_id batch_id expected_transition db =
     and_then (require_dispatched_batch C operation_id batch_id expected_transition db) (\<lambda>_.
     if cancellation_requested C operation_id db then Inr (FinishCancellationPending, db)
     else
     and_then (transition_batch_if_terminal C operation_id batch_id expected_transition db)
       (\<lambda>(terminal, db).
     and_then (commit db) (\<lambda>db.
     Inr (case terminal of None \<Rightarrow> Retry
          | Some blocked \<Rightarrow> (if blocked then FinishBlocked else FinishSettled), db))))"

definition close_dispatched_batch_for_cancellation ::
    "('t, 'v) codec \<Rightarrow> OperationId \<Rightarrow> EffectBatchId \<Rightarrow> i64 \<Rightarrow> 't db \<Rightarrow>
     (OperationPhase \<times> 't db) kernel_result" where
  "close_dispatched_batch_for_cancellation C operation_id batch_id expected_transition db =
     and_then (require_dispatched_batch C operation_id batch_id expected_transition db) (\<lambda>_.
     and_then (update_effects (\<lambda>e. e_batch_id e = to_string C batch_id \<and>
         e_status e = ''dispatch_started'') (\<lambda>e. e\<lparr>e_status := ''outcome_unknown''\<rparr>) db) (\<lambda>db.
     and_then (load_batch_statuses C operation_id batch_id db) (\<lambda>statuses.
     if IntentCommitted \<in> set statuses \<or> DispatchStarted \<in> set statuses
     then Inl (Corrupt ''cancellation could not close every dispatched child'')
     else let blocked = EffectOutcomeUnknown \<in> set statuses in
     and_then (transition_finished_batch C operation_id batch_id expected_transition blocked db)
       (\<lambda>db. Inr (if blocked then OutcomeUnknown else NeedDecision, db)))))"

subsection \<open>Committing the intents of a batch\<close>

text \<open>The insertion of one child; \<open>new_id\<close> gives the identity \<open>EffectId::new()\<close> draws for it.\<close>

definition insert_effect ::
    "('t, 'v) codec \<Rightarrow> (nat \<Rightarrow> EffectId) \<Rightarrow> EffectBatchId \<Rightarrow> nat \<times> 'v NewEffectIntent \<times> 't \<Rightarrow>
     't db \<Rightarrow> 't db kernel_result" where
  "insert_effect C new_id batch_id entry db =
     (case entry of (position, effect, request_json) \<Rightarrow>
       and_then (require (in_i64 (int position)) (Corrupt ''effect position exceeds i64'')) (\<lambda>_.
       execute (db\<lparr>effects := effects db @
         [\<lparr>e_effect_id = to_string C (new_id position), e_batch_id = to_string C batch_id,
           e_position = int position, e_binding = ni_binding effect,
           e_binding_revision = ni_binding_revision effect,
           e_recovery = recovery_as_str (ni_recovery effect), e_request_json = Some request_json,
           e_status = ''intent_committed'', e_dispatch_count = 0, e_outcome_json = None\<rparr>]\<rparr>)))"

definition commit_effect_batch_intent ::
    "('t, 'v) codec \<Rightarrow> EffectBatchId \<Rightarrow> (nat \<Rightarrow> EffectId) \<Rightarrow> OperationId \<Rightarrow> i64 \<Rightarrow>
     'v NewEffectBatchIntent \<Rightarrow> 't db \<Rightarrow> (EffectIntentCommit \<times> 't db) kernel_result" where
  "commit_effect_batch_intent C batch_id new_id operation_id expected_transition intent db =
     (if nb_effects intent = []
      then Inl (InvalidDecision ''an effect batch must contain at least one effect'')
      else
     and_then (encode (checkpoint_to_json C) (nb_checkpoint intent)) (\<lambda>checkpoint_json.
     and_then (try_map (\<lambda>effect. encode (value_to_json C) (ni_request effect)) (nb_effects intent))
       (\<lambda>requests.
     if cancellation_requested C operation_id db then Inr (IntentCancellationPending, db)
     else
     let selected = (\<lambda>r. o_operation_id r = to_string C operation_id \<and>
       o_phase r = ''need_decision'' \<and> o_transition_version r = expected_transition) in
     and_then (ok_or (find selected (operations db))
       (Corrupt ''effect batch intent compare-and-set failed'')) (\<lambda>operation.
     and_then (execute (db\<lparr>effect_batches := effect_batches db @
       [\<lparr>b_batch_id = to_string C batch_id, b_operation_id = to_string C operation_id,
         b_position = o_next_effect_batch_position operation\<rparr>]\<rparr>)) (\<lambda>db.
     and_then (try_fold (insert_effect C new_id batch_id)
       (enumerate 0 (zip (nb_effects intent) requests)) db) (\<lambda>db.
     and_then (update_operations selected
       (\<lambda>r. r\<lparr>o_phase := ''effect_intent'', o_checkpoint_json := Some checkpoint_json,
               o_current_effect_batch_id := Some (to_string C batch_id),
               o_input_effect_batch_id := None,
               o_next_effect_batch_position := o_next_effect_batch_position r + 1,
               o_transition_version := o_transition_version r + 1\<rparr>) db) (\<lambda>db'.
     and_then (require (changed selected (operations db) = 1)
       (Corrupt ''effect batch intent state update failed'')) (\<lambda>_.
     and_then (commit db') (\<lambda>db.
     Inr (IntentsCommitted, db))))))))))"

subsection \<open>Dispatch\<close>

definition load_active_batch ::
    "('t, 'v) codec \<Rightarrow> OperationId \<Rightarrow> i64 \<Rightarrow> string \<Rightarrow> 't db \<Rightarrow>
     (OperationPhase \<times> EffectBatchId) kernel_result" where
  "load_active_batch C operation_id expected_transition error db =
     and_then (ok_or (find (\<lambda>r. o_operation_id r = to_string C operation_id \<and>
         o_transition_version r = expected_transition) (operations db)) (Corrupt error)) (\<lambda>r.
     and_then (ok_or (o_current_effect_batch_id r) (Corrupt ''effect phase has no current batch''))
       (\<lambda>batch_id.
     and_then (phase_from_database (o_phase r)) (\<lambda>phase.
     and_then (parse_effect_batch_id C batch_id) (\<lambda>batch_id.
     Inr (phase, batch_id)))))"

text \<open>
  Whether a child is dispatched, and the database after a possibly started child that must not
  be replayed was marked unknown. The last case is the \<open>unreachable!\<close> of the source:
  \<open>prepare_effect_batch\<close> checks the phase first.
\<close>

definition should_dispatch ::
    "('t, 'v) codec \<Rightarrow> OperationPhase \<Rightarrow> 'v PreparedEffect \<Rightarrow> 't db \<Rightarrow>
     (bool \<times> 'v PreparedEffect \<times> 't db) kernel_result" where
  "should_dispatch C phase effect db =
     (case (phase, pr_status effect, pr_recovery effect) of
        (EffectIntent, IntentCommitted, _) \<Rightarrow> Inr (True, effect, db)
      | (EffectDispatched, DispatchStarted, SafeToReplay) \<Rightarrow> Inr (True, effect, db)
      | (EffectIntent, _, _) \<Rightarrow> Inl (Corrupt ''new effect batch contains a non-intent child'')
      | (EffectDispatched, DispatchStarted, NeverReplay) \<Rightarrow>
          and_then (update_effect_status C (pr_effect_id effect) DispatchStarted
            EffectOutcomeUnknown db) (\<lambda>db.
          Inr (False, effect\<lparr>pr_status := EffectOutcomeUnknown\<rparr>, db))
      | (EffectDispatched, Settled, _) \<Rightarrow> Inr (False, effect, db)
      | (EffectDispatched, EffectOutcomeUnknown, _) \<Rightarrow> Inr (False, effect, db)
      | (EffectDispatched, IntentCommitted, _) \<Rightarrow>
          Inl (Corrupt ''dispatched effect batch contains an unmarked child'')
      | _ \<Rightarrow> Inl (Corrupt ''phase is checked before child preparation''))"

definition prepare_child ::
    "('t, 'v) codec \<Rightarrow> OperationPhase \<Rightarrow> EffectBatchId \<Rightarrow> i64 \<Rightarrow> 'v PreparedEffect \<Rightarrow> 't db \<Rightarrow>
     ('v PendingEffect option \<times> 'v PreparedEffect \<times> 't db) kernel_result" where
  "prepare_child C phase batch_id next_transition effect db =
     and_then (should_dispatch C phase effect db) (\<lambda>(dispatch, effect, db).
     if \<not> dispatch then Inr (None, effect, db)
     else
     and_then (ok_or (checked_add_u64 (pr_dispatch_count effect) 1)
       (Corrupt ''effect dispatch count overflowed'')) (\<lambda>dispatch_count.
     and_then (require (in_i64 (pr_dispatch_count effect))
       (Corrupt ''effect dispatch count exceeds i64'')) (\<lambda>_.
     and_then (require (in_i64 dispatch_count)
       (Corrupt ''effect dispatch count exceeds i64'')) (\<lambda>_.
     let selected = (\<lambda>e. e_effect_id e = to_string C (pr_effect_id effect) \<and>
       e_status e = status_name (pr_status effect) \<and>
       e_dispatch_count e = pr_dispatch_count effect) in
     and_then (update_effects selected
       (\<lambda>e. e\<lparr>e_status := ''dispatch_started'', e_dispatch_count := dispatch_count\<rparr>) db) (\<lambda>db'.
     and_then (require (changed selected (effects db) = 1)
       (Corrupt ''effect dispatch compare-and-set failed'')) (\<lambda>_.
     Inr (Some \<lparr>pe_batch_id = batch_id, pe_effect_id = pr_effect_id effect,
                pe_binding = pr_binding effect, pe_binding_revision = pr_binding_revision effect,
                pe_request = pr_request effect, pe_recovery = pr_recovery effect,
                pe_dispatch_count = dispatch_count, pe_transition_version = next_transition\<rparr>,
          effect\<lparr>pr_status := DispatchStarted, pr_dispatch_count := dispatch_count\<rparr>,
          db')))))))"

definition finish_batch_without_invocations ::
    "('t, 'v) codec \<Rightarrow> OperationId \<Rightarrow> EffectBatchId \<Rightarrow> i64 \<Rightarrow> 'v PreparedEffect list \<Rightarrow> 't db \<Rightarrow>
     ('v EffectBatchStart \<times> 't db) kernel_result" where
  "finish_batch_without_invocations C operation_id batch_id expected_transition prepared db =
     (if list_ex (\<lambda>effect. pr_status effect = DispatchStarted) prepared
      then Inl (Corrupt ''effect batch has pending children but no dispatch'')
      else let blocked = list_ex (\<lambda>effect. pr_status effect = EffectOutcomeUnknown) prepared in
      and_then (transition_finished_batch C operation_id batch_id expected_transition blocked db)
        (\<lambda>db. Inr (if blocked then StartBlocked else StartSettled, db)))"

text \<open>The loop over the stored children: each is prepared in turn and collected when it dispatches.\<close>

fun prepare_children ::
    "('t, 'v) codec \<Rightarrow> OperationPhase \<Rightarrow> EffectBatchId \<Rightarrow> i64 \<Rightarrow> 'v PreparedEffect list \<Rightarrow> 't db \<Rightarrow>
     ('v PendingEffect list \<times> 'v PreparedEffect list \<times> 't db) kernel_result" where
  "prepare_children C phase batch_id next_transition [] db = Inr ([], [], db)"
| "prepare_children C phase batch_id next_transition (effect # stored) db =
     and_then (prepare_child C phase batch_id next_transition effect db) (\<lambda>(pending, effect, db).
     and_then (prepare_children C phase batch_id next_transition stored db)
       (\<lambda>(pendings, stored, db).
     Inr (case pending of Some p \<Rightarrow> p # pendings | None \<Rightarrow> pendings, effect # stored, db)))"

definition prepare_effect_batch ::
    "('t, 'v) codec \<Rightarrow> OperationId \<Rightarrow> i64 \<Rightarrow> 't db \<Rightarrow> ('v EffectBatchStart \<times> 't db) kernel_result" where
  "prepare_effect_batch C operation_id expected_transition db =
     and_then (ok_or (checked_add_i64 expected_transition 1)
       (Corrupt ''transition version overflowed'')) (\<lambda>next_transition.
     if cancellation_requested C operation_id db then Inr (StartCancellationPending, db)
     else
     and_then (load_active_batch C operation_id expected_transition
       ''effect state changed before batch dispatch'' db) (\<lambda>(phase, batch_id).
     if phase \<noteq> EffectIntent \<and> phase \<noteq> EffectDispatched
     then Inl (Corrupt ''cannot prepare effect batch from phase'')
     else
     and_then (load_prepared_effects C operation_id batch_id db) (\<lambda>stored.
     and_then (prepare_children C phase batch_id next_transition stored db)
       (\<lambda>(pending, stored, db).
     if pending = []
     then and_then (finish_batch_without_invocations C operation_id batch_id expected_transition
            stored db) (\<lambda>(start, db).
          and_then (commit db) (\<lambda>db. Inr (start, db)))
     else let selected = (\<lambda>r. o_operation_id r = to_string C operation_id \<and>
         o_transition_version r = expected_transition \<and> o_phase r = phase_as_str phase \<and>
         o_current_effect_batch_id r = Some (to_string C batch_id)) in
     and_then (update_operations selected
       (\<lambda>r. r\<lparr>o_phase := ''effect_dispatched'',
               o_transition_version := o_transition_version r + 1\<rparr>) db) (\<lambda>db'.
     and_then (require (changed selected (operations db) = 1)
       (Corrupt ''operation batch dispatch compare-and-set failed'')) (\<lambda>_.
     and_then (commit db') (\<lambda>db.
     Inr (Invoke \<lparr>pb_batch_id = batch_id, pb_effects = pending\<rparr>, db))))))))"

subsection \<open>Projections\<close>

definition effect_fact ::
    "('t, 'v) codec \<Rightarrow> RuntimeManifest option \<Rightarrow> nat \<times> 't effect_row \<Rightarrow> 'v EffectFact kernel_result" where
  "effect_fact C manifest entry =
     (case entry of (expected_position, e) \<Rightarrow>
       and_then (require_child_position expected_position e) (\<lambda>_.
       if (case manifest of None \<Rightarrow> False
           | Some m \<Rightarrow> btree_get (effect_bindings m) (e_binding e) \<noteq> Some (e_binding_revision e))
       then Inl (Corrupt ''effect batch child differs from the frozen manifest'')
       else
       and_then (parse_effect_id C (e_effect_id e)) (\<lambda>effect_id.
       and_then (ok_or (e_request_json e) (Corrupt ''effect batch child request was released''))
         (\<lambda>request_json.
       and_then (decode (value_from_json C) request_json) (\<lambda>request.
       let unsettled = \<lparr>ue_effect_id = effect_id, ue_binding = e_binding e,
             ue_binding_revision = e_binding_revision e, ue_request = request\<rparr> in
       and_then (parse_status (e_status e)) (\<lambda>status.
       case (status, e_outcome_json e) of
         (IntentCommitted, None) \<Rightarrow> Inr (NotDispatched unsettled)
       | (DispatchStarted, None) \<Rightarrow> Inr (FactOutcomeUnknown unsettled)
       | (EffectOutcomeUnknown, None) \<Rightarrow> Inr (FactOutcomeUnknown unsettled)
       | (Settled, Some outcome_json) \<Rightarrow>
           and_then (decode (effect_outcome_from_json C) outcome_json) (\<lambda>outcome.
           Inr (FactSettled \<lparr>se_effect_id = effect_id, se_binding = e_binding e,
             se_binding_revision = e_binding_revision e, se_request = request,
             se_outcome = outcome\<rparr>))
       | (Settled, None) \<Rightarrow> Inl (Corrupt ''settled effect has no outcome'')
       | (_, Some _) \<Rightarrow> Inl (Corrupt ''unsettled effect contains an outcome'')))))))"

definition load_effect_batch_facts ::
    "('t, 'v) codec \<Rightarrow> OperationId \<Rightarrow> EffectBatchId \<Rightarrow> RuntimeManifest option \<Rightarrow> 't db \<Rightarrow>
     'v EffectBatchFacts kernel_result" where
  "load_effect_batch_facts C operation_id batch_id manifest db =
     (if \<not> exists_row (\<lambda>b. b_batch_id b = to_string C batch_id \<and>
           b_operation_id b = to_string C operation_id) (effect_batches db)
      then Inl (Corrupt ''effect batch does not belong to the operation'')
      else
      and_then (try_map (effect_fact C manifest) (enumerate 0 (order_by e_position
        (filter (\<lambda>e. e_batch_id e = to_string C batch_id) (effects db))))) (\<lambda>facts.
      and_then (require_children facts) (\<lambda>facts.
      Inr \<lparr>bf_batch_id = batch_id, bf_effects = facts\<rparr>)))"

fun settled_effect :: "'v EffectFact \<Rightarrow> 'v SettledEffect kernel_result" where
  "settled_effect (FactSettled effect) = Inr effect"
| "settled_effect _ = Inl (Corrupt ''settled input batch contains an unsettled child'')"

definition load_settled_effect_batch ::
    "('t, 'v) codec \<Rightarrow> EffectBatchId \<Rightarrow> OperationId \<Rightarrow> 't db \<Rightarrow> 'v SettledEffectBatch kernel_result" where
  "load_settled_effect_batch C batch_id operation_id db =
     and_then (load_effect_batch_facts C operation_id batch_id None db) (\<lambda>facts.
     and_then (try_map settled_effect (bf_effects facts)) (\<lambda>settled.
     Inr \<lparr>sb_batch_id = batch_id, sb_effects = settled\<rparr>))"

end
