(* ===== verification/Kernel_Batches.thy ===== *)
theory Kernel_Batches
  imports Kernel_Effects
begin

section \<open>Settlement of effect batches\<close>

text \<open>
  What the settlement operations of \<open>effect_store.rs\<close> do to the database, and that each keeps the
  invariant: the settlement of a child, the recording of an unknown outcome, the end of an attempt,
  and the closing of a dispatched batch for a cancellation.
\<close>

subsection \<open>Reading the children of a batch\<close>

lemma batch_children_eq:
  assumes "unique_on b_batch_id (effect_batches db)" and "b \<in> set (effect_batches db)"
    and "b_batch_id b = to_string C bid" and "b_operation_id b = to_string C oid"
  shows "batch_children C oid bid db = order_by e_position (children_of db (to_string C bid))"
proof -
  have one: "filter (\<lambda>b. b_operation_id b = to_string C oid \<and> b_batch_id b = to_string C bid)
      (effect_batches db) = [b]"
    by (rule filter_unique [where k = b_batch_id]) (use assms in auto)
  then show ?thesis
    unfolding batch_children_def
    by (simp only: if_conj concat_map_guard comprehension_filter list.map concat.simps append_Nil2
        children_of_def assms(3) concat_map_singleton list.map_ident)
qed

lemma batch_children_foreign:
  assumes "\<not> (\<exists>b \<in> set (effect_batches db). b_batch_id b = to_string C bid \<and> b_operation_id b = to_string C oid)"
  shows "batch_children C oid bid db = []"
  using assms by (auto simp: batch_children_def)

lemma child_position_iff: "require_child_position n e = Inr u \<longleftrightarrow> e_position e = int n"
  by (auto simp: require_child_position_def from_sql_integer_def and_then_def)

lemma require_children_iff: "require_children xs = Inr ys \<longleftrightarrow> xs \<noteq> [] \<and> ys = xs"
  by (auto simp: require_children_def)

text \<open>A successful read of the statuses tells the status text of every child.\<close>

lemma load_batch_statuses_eq:
  assumes ok: "load_batch_statuses C oid bid db = Inr sts"
    and uniq: "unique_on b_batch_id (effect_batches db)"
  shows "map status_name sts = map e_status (order_by e_position (children_of db (to_string C bid)))"
    and "children_of db (to_string C bid) \<noteq> []"
proof -
  let ?rows = "batch_children C oid bid db"
  have all: "list_all2 (\<lambda>(i, e) st. parse_status (e_status e) = Inr st) (enumerate 0 ?rows) sts"
    and ne: "sts \<noteq> []"
    using ok
    by (auto simp: load_batch_statuses_def require_children_iff try_map_eq_Inr elim!: and_then_InrE list_all2_mono)
  have "?rows \<noteq> []" using all ne by auto
  then obtain b where "b \<in> set (effect_batches db)" "b_batch_id b = to_string C bid" "b_operation_id b = to_string C oid"
    using batch_children_foreign by blast
  then have rows: "?rows = order_by e_position (children_of db (to_string C bid))"
    using batch_children_eq [OF uniq] by blast
  have "map status_name sts = map e_status ?rows"
    using all by (auto simp: list_all2_conv_all_nth nth_enumerate_eq status_text.parse_iff intro!: nth_equalityI)
  then show "map status_name sts = map e_status (order_by e_position (children_of db (to_string C bid)))"
    by (simp only: rows)
  show "children_of db (to_string C bid) \<noteq> []" using \<open>?rows \<noteq> []\<close> rows by auto
qed

lemma batch_status_mem:
  assumes "load_batch_statuses C oid bid db = Inr sts" and "unique_on b_batch_id (effect_batches db)"
  shows "st \<in> set sts \<longleftrightarrow> (\<exists>e \<in> set (children_of db (to_string C bid)). e_status e = status_name st)"
proof -
  have "st \<in> set sts \<longleftrightarrow> status_name st \<in> set (map status_name sts)"
    by (auto simp: status_text.show_inj image_iff)
  also have "\<dots> \<longleftrightarrow> status_name st \<in> set (map e_status (order_by e_position (children_of db (to_string C bid))))"
    by (simp only: load_batch_statuses_eq(1) [OF assms])
  finally show ?thesis by (simp add: image_iff) metis
qed

subsection \<open>One operation and its current batch\<close>

text \<open>The row of an operation whose dispatched batch finished.\<close>

definition finished_row :: "'t \<Rightarrow> bool \<Rightarrow> 't operation_row \<Rightarrow> 't operation_row" where
  "finished_row bid blocked r =
     r\<lparr>o_phase := (if blocked then ''outcome_unknown'' else ''need_decision''),
        o_current_effect_batch_id := (if blocked then Some bid else None),
        o_input_effect_batch_id := (if blocked then None else Some bid),
        o_transition_version := o_transition_version r + 1\<rparr>"

lemma transition_finished_batch_eq:
  assumes ok: "transition_finished_batch C oid bid tv blocked db = Inr db'" and con: "constraints_ok db"
  shows "db' = set_operation (to_string C oid) (finished_row (to_string C bid) blocked) db"
    and "constraints_ok db'"
    and "\<exists>r \<in> set (operations db). o_operation_id r = to_string C oid \<and> o_phase r = ''effect_dispatched'' \<and>
      o_transition_version r = tv \<and> o_current_effect_batch_id r = Some (to_string C bid)"
proof -
  let ?sel = "\<lambda>r. o_operation_id r = to_string C oid \<and> o_phase r = ''effect_dispatched'' \<and>
      o_transition_version r = tv \<and> o_current_effect_batch_id r = Some (to_string C bid)"
  have upd: "update_operations ?sel (finished_row (to_string C bid) blocked) db = Inr db'"
    and one: "changed ?sel (operations db) = 1"
    using ok unfolding transition_finished_batch_def Let_def
    by (cases blocked; auto simp: require_eq_Inr finished_row_def [abs_def] elim!: and_then_InrE)+
  note u = update_operations_one [OF con upd one, of "to_string C oid"]
  show "db' = set_operation (to_string C oid) (finished_row (to_string C bid) blocked) db"
    and "constraints_ok db'" and "\<exists>r \<in> set (operations db). ?sel r"
    using u by auto
qed

text \<open>
  A step of one child: its identity, binding and request stay, and its status, dispatch count and
  outcome are again consistent.
\<close>

definition child_step :: "('t, 'v) codec \<Rightarrow> 't effect_row \<Rightarrow> 't effect_row \<Rightarrow> bool" where
  "child_step C e e' \<longleftrightarrow>
     e_effect_id e' = e_effect_id e \<and> e_batch_id e' = e_batch_id e \<and> e_position e' = e_position e \<and>
     e_binding e' = e_binding e \<and> e_binding_revision e' = e_binding_revision e \<and>
     e_recovery e' = e_recovery e \<and> e_request_json e' = e_request_json e \<and>
     (\<forall>t. e_outcome_json e' = Some t \<longrightarrow> effect_outcome_from_json C t \<noteq> None) \<and> dispatch_ok e'"

lemma child_step_refl: "effect_ok C M e \<Longrightarrow> child_step C e e"
  by (simp add: child_step_def effect_ok_def)

lemma effect_ok_step: "effect_ok C M e \<Longrightarrow> child_step C e e' \<Longrightarrow> effect_ok C M e'"
  by (simp add: effect_ok_def child_step_def)

lemma batch_ok_step:
  assumes "batch_ok C M es" and "\<And>e. e \<in> set es \<Longrightarrow> child_step C e (h e)"
  shows "batch_ok C M (map h es)"
proof -
  have "map e_position (map h es) = map e_position es"
    using assms(2) by (simp add: child_step_def)
  then show ?thesis
    using assms effect_ok_step [of C M _ "h _"] by (fastforce simp: batch_ok_def simp del: map_map)
qed

text \<open>The phases an operation with a current batch moves through, and what its children must show.\<close>

definition phase_shows :: "'t \<Rightarrow> 't operation_row \<Rightarrow> 't effect_row list \<Rightarrow> bool" where
  "phase_shows bid r es \<longleftrightarrow>
     (o_phase r = ''effect_intent'' \<and> o_current_effect_batch_id r = Some bid \<and>
        o_input_effect_batch_id r = None \<and> (\<forall>e \<in> set es. e_status e = ''intent_committed'')) \<or>
     (o_phase r = ''effect_dispatched'' \<and> o_current_effect_batch_id r = Some bid \<and>
        o_input_effect_batch_id r = None \<and> (\<forall>e \<in> set es. e_status e \<noteq> ''intent_committed'')) \<or>
     (o_phase r = ''outcome_unknown'' \<and> o_current_effect_batch_id r = Some bid \<and>
        o_input_effect_batch_id r = None \<and>
        (\<forall>e \<in> set es. e_status e \<in> {''settled'', ''outcome_unknown''}) \<and>
        (\<exists>e \<in> set es. e_status e = ''outcome_unknown'')) \<or>
     (o_phase r = ''need_decision'' \<and> o_current_effect_batch_id r = None \<and>
        o_input_effect_batch_id r = Some bid \<and> all_settled es)"

lemma phase_shows_active: "phase_shows bid r es \<Longrightarrow> active_phase (o_phase r)"
  by (auto simp: phase_shows_def active_phase_def)

lemma phase_shows_pointers:
  "phase_shows bid r (ch bid) \<Longrightarrow> pointers_match r ch"
  unfolding phase_shows_def pointers_match_def by (elim disjE) simp_all

text \<open>Only these columns of the operation change in such a step.\<close>

definition row_step :: "'t operation_row \<Rightarrow> 't operation_row \<Rightarrow> bool" where
  "row_step r r' \<longleftrightarrow>
     r' = r\<lparr>o_phase := o_phase r', o_current_effect_batch_id := o_current_effect_batch_id r',
            o_input_effect_batch_id := o_input_effect_batch_id r',
            o_transition_version := o_transition_version r'\<rparr>"

lemma row_stepD:
  assumes "row_step r r'"
  shows "o_operation_id r' = o_operation_id r" and "o_session_id r' = o_session_id r"
    and "o_command_id r' = o_command_id r" and "o_position r' = o_position r"
    and "o_state_version r' = o_state_version r" and "o_manifest_json r' = o_manifest_json r"
    and "o_checkpoint_json r' = o_checkpoint_json r" and "o_outcome_json r' = o_outcome_json r"
    and "o_next_effect_batch_position r' = o_next_effect_batch_position r"
  using arg_cong [OF assms [unfolded row_step_def], of o_operation_id]
    arg_cong [OF assms [unfolded row_step_def], of o_session_id]
    arg_cong [OF assms [unfolded row_step_def], of o_command_id]
    arg_cong [OF assms [unfolded row_step_def], of o_position]
    arg_cong [OF assms [unfolded row_step_def], of o_state_version]
    arg_cong [OF assms [unfolded row_step_def], of o_manifest_json]
    arg_cong [OF assms [unfolded row_step_def], of o_checkpoint_json]
    arg_cong [OF assms [unfolded row_step_def], of o_outcome_json]
    arg_cong [OF assms [unfolded row_step_def], of o_next_effect_batch_position]
  by simp_all

lemma op_ok_batch_step:
  assumes ok: "op_ok C r bs ch" and act: "active_phase (o_phase r)" "o_current_effect_batch_id r = Some bid"
    and step: "row_step r r'"
    and h: "\<And>e. e \<in> set (ch bid) \<Longrightarrow> child_step C e (h e)" "ch' bid = map h (ch bid)"
    and other: "\<And>b. b \<in> set bs \<Longrightarrow> b_batch_id b \<noteq> bid \<Longrightarrow> ch' (b_batch_id b) = ch (b_batch_id b)"
    and shown: "phase_shows bid r' (ch' bid)"
  shows "op_ok C r' bs ch'"
proof -
  note k = row_stepD [OF step]
  have man: "row_manifest C r' = row_manifest C r" by (rule row_manifest_eq) (rule k(6))
  have none: "o_outcome_json r = None" by (rule active_no_outcome [OF ok act(1)])
  note bo = ok [unfolded op_ok_def batches_ok_def]
  have cp: "o_phase r \<notin> {''queued'', ''need_decision''}"
    using ok act by (auto simp: op_ok_def pointers_match_def active_phase_def)
  have "batches_ok C r' bs ch'"
    unfolding batches_ok_def k(8,9) none man
  proof (intro conjI ballI impI)
    show "gapless (o_next_effect_batch_position r) (map b_position bs)" using bo by blast
    fix b assume b: "b \<in> set bs"
    show "canonical C (b_batch_id b)" using bo b by blast
    obtain M where M: "row_manifest C r = Some M" "batch_ok C M (ch (b_batch_id b))"
      using bo b by blast
    have "batch_ok C M (ch' (b_batch_id b))"
    proof (cases "b_batch_id b = bid")
      case True
      then show ?thesis using batch_ok_step [OF M(2)] h by simp
    next
      case False
      then show ?thesis using M(2) other [OF b] by simp
    qed
    then show "\<exists>M. row_manifest C r = Some M \<and> batch_ok C M (ch' (b_batch_id b))" using M(1) by blast
    have req: "e_request_json e \<noteq> None" if "e \<in> set (ch (b_batch_id b))" for e
      using bo b none that by blast
    have set0: "all_settled (ch (b_batch_id b))" if "b_batch_id b \<noteq> bid"
      using bo b none act(2) that by auto
    show "all_settled (ch' (b_batch_id b))" if "Some (b_batch_id b) \<noteq> o_current_effect_batch_id r'"
    proof (cases "b_batch_id b = bid")
      case True
      then show ?thesis using shown that by (auto simp: phase_shows_def)
    next
      case False
      then show ?thesis using set0 other [OF b] by simp
    qed
    fix e assume e: "e \<in> set (ch' (b_batch_id b))"
    have "e_request_json e \<noteq> None"
    proof (cases "b_batch_id b = bid")
      case True
      then obtain e0 where "e0 \<in> set (ch (b_batch_id b))" "e_request_json e = e_request_json e0"
        using e h by (auto simp: child_step_def)
      then show ?thesis using req by metis
    next
      case False
      then show ?thesis using req e other [OF b] by simp
    qed
    then show "(e_request_json e = None) = (None \<noteq> None \<and> all_settled (ch' (b_batch_id b)))" by simp
  qed simp_all
  moreover have "pointers_match r' ch'" using shown by (rule phase_shows_pointers)
  moreover have "outcome_ok C r'"
    using terminal_not_active phase_shows_active [OF shown] by (auto simp: outcome_ok_def k none)
  moreover have "checkpoint_ok C r'"
    using ok cp phase_shows_active [OF shown] by (auto simp: op_ok_def checkpoint_ok_def man k active_phase_def)
  ultimately show ?thesis using ok k by (simp add: op_ok_def)
qed

text \<open>The children of one batch change by \<open>h\<close> and its operation by \<open>f\<close>.\<close>

definition batch_change ::
    "'t \<Rightarrow> ('t effect_row \<Rightarrow> 't effect_row) \<Rightarrow> 't \<Rightarrow> ('t operation_row \<Rightarrow> 't operation_row) \<Rightarrow> 't db \<Rightarrow> 't db" where
  "batch_change bid h oid f db =
     db\<lparr>effects := update_where (\<lambda>e. e_batch_id e = bid) h (effects db),
        operations := update_where (\<lambda>r. o_operation_id r = oid) f (operations db)\<rparr>"

lemma batch_change_children:
  assumes "\<And>e. e \<in> set (children_of db bid) \<Longrightarrow> e_batch_id (h e) = bid"
  shows "children_of (batch_change bid h oid f db) bid' =
    (if bid' = bid then map h (children_of db bid) else children_of db bid')"
proof -
  have keep: "e_batch_id (h e) = bid" if "e \<in> set (effects db)" "e_batch_id e = bid" for e
    using assms that by (simp add: children_of_def)
  show ?thesis
  proof (cases "bid' = bid")
    case True
    have "filter (\<lambda>e. e_batch_id e = bid) (update_where (\<lambda>e. e_batch_id e = bid) h (effects db)) =
        update_where (\<lambda>e. e_batch_id e = bid) h (filter (\<lambda>e. e_batch_id e = bid) (effects db))"
      by (rule filter_update_where) (simp add: keep)
    also have "\<dots> = map h (filter (\<lambda>e. e_batch_id e = bid) (effects db))"
      by (simp add: update_where_def)
    finally show ?thesis using True by (simp add: batch_change_def children_of_def)
  next
    case False
    then show ?thesis
      by (simp add: batch_change_def children_of_def) (rule filter_update_where_other, simp add: keep)
  qed
qed

lemma batch_step_inv:
  assumes inv: "kernel_inv C db" and schema: "schema_ok (batch_change bid h oid f db)"
    and r: "r \<in> set (operations db)" "o_operation_id r = oid" "active_phase (o_phase r)"
      "o_current_effect_batch_id r = Some bid"
    and step: "row_step r (f r)"
    and h: "\<And>e. e \<in> set (children_of db bid) \<Longrightarrow> child_step C e (h e)"
    and shown: "phase_shows bid (f r) (map h (children_of db bid))"
  shows "kernel_inv C (batch_change bid h oid f db)"
proof -
  let ?db' = "batch_change bid h oid f db"
  note k = row_stepD [OF step]
  have keep: "e_batch_id (h e) = bid" if "e \<in> set (children_of db bid)" for e
    using h [OF that] that by (simp add: child_step_def children_of_def)
  note child = batch_change_children [of db bid h oid f, OF keep]
  have own: "bid \<in> b_batch_id ` set (batches_of db oid)"
    using batch_pointers_owned(1) [OF kernel_invD(3) [OF inv] r(1,4)] r(2) by simp
  have not_own: "b_batch_id b \<noteq> bid" if "b \<in> set (effect_batches db)" "b_operation_id b \<noteq> oid" for b
  proof
    assume "b_batch_id b = bid"
    then obtain b' where b': "b' \<in> set (batches_of db oid)" "b_batch_id b' = b_batch_id b" using own by auto
    have "b \<in> set (batches_of db (b_operation_id b))" using that(1) by (simp add: batches_of_def)
    from batch_owner_unique [OF inv this b'(1)] b'(2) that(2) show False by simp
  qed
  have bs: "batches_of ?db' oid = batches_of db oid"
    by (rule fun_cong [OF view_eqs(3)]) (simp add: batch_change_def)
  have ch: "changes (o_session_id r) oid f (\<lambda>s. s) [] [] db ?db'"
    unfolding changes_def using not_own by (auto simp: child) (simp_all add: batch_change_def update_where_def)
  have op: "op_ok C (f r) (batches_of ?db' oid) (children_of ?db')"
    unfolding bs
    by (rule op_ok_batch_step [OF _ r(3,4) step h])
      (use kernel_invD(10) [OF inv r(1)] r(2) shown in \<open>simp_all add: child\<close>)
  show ?thesis
  proof (rule kernel_inv_change [OF inv schema ch r(1,2) refl _ _ _ _ _ op])
    fix s assume s: "s \<in> set (sessions db)" "s_session_id s = o_session_id r"
    show "s_session_id s = o_session_id r \<and> s_agent_id s = s_agent_id s \<and>
      s_next_command_position s = s_next_command_position s \<and>
      s_next_event_sequence s = s_next_event_sequence s + int (length []) \<and>
      map v_sequence [] = map (\<lambda>i. s_next_event_sequence s + int i) [0..<length []] \<and>
      s_active_operation_id s \<in> {None, Some oid} \<and>
      s_active_operation_id s = (if active_phase (o_phase (f r)) then Some oid else None)"
      using active_session [OF inv r(1,3) s] s(2) r(2) phase_shows_active [OF shown] by simp
  qed (use k r in simp_all)
qed

subsection \<open>Settlement of children\<close>

lemma transition_batch_if_terminal_cases:
  assumes ok: "transition_batch_if_terminal C oid bid tv db = Inr (terminal, db')"
    and con: "constraints_ok db"
  obtains
    (pending) "terminal = None" and "db' = db"
      and "\<And>e. e \<in> set (children_of db (to_string C bid)) \<Longrightarrow> e_status e \<noteq> ''intent_committed''"
  | (finished) blocked where "terminal = Some blocked"
      and "db' = set_operation (to_string C oid) (finished_row (to_string C bid) blocked) db"
      and "constraints_ok db'"
      and "\<And>e. e \<in> set (children_of db (to_string C bid)) \<Longrightarrow>
        e_status e \<noteq> ''intent_committed'' \<and> e_status e \<noteq> ''dispatch_started''"
      and "blocked = (\<exists>e \<in> set (children_of db (to_string C bid)). e_status e = ''outcome_unknown'')"
proof -
  obtain sts where sts: "load_batch_statuses C oid bid db = Inr sts"
    using ok by (auto simp: transition_batch_if_terminal_def elim!: and_then_InrE)
  note mem = batch_status_mem [OF sts schema_keys(9) [OF con]]
  note ok' = ok [unfolded transition_batch_if_terminal_def sts and_then_simps]
  have intent: "IntentCommitted \<notin> set sts" using ok' by (auto split: if_splits)
  have no_intent: "e_status e \<noteq> ''intent_committed''" if "e \<in> set (children_of db (to_string C bid))" for e
    using mem [of IntentCommitted] intent that by auto
  show thesis
  proof (cases "DispatchStarted \<in> set sts")
    case True
    show thesis by (rule pending) (use ok' intent True no_intent in simp_all)
  next
    case False
    let ?blocked = "EffectOutcomeUnknown \<in> set sts"
    have t: "transition_finished_batch C oid bid tv ?blocked db = Inr db'" "terminal = Some ?blocked"
      using ok' intent False by (auto simp: Let_def elim!: and_then_InrE)
    note tf = transition_finished_batch_eq [OF t(1) con]
    show thesis
    proof (rule finished [OF t(2) tf(1,2)])
      show "e_status e \<noteq> ''intent_committed'' \<and> e_status e \<noteq> ''dispatch_started''"
        if "e \<in> set (children_of db (to_string C bid))" for e
        using no_intent mem [of DispatchStarted] False that by auto
      show "?blocked = (\<exists>e \<in> set (children_of db (to_string C bid)). e_status e = ''outcome_unknown'')"
        using mem [of EffectOutcomeUnknown] by simp
    qed
  qed
qed

lemma require_dispatched_batch_ex:
  assumes "require_dispatched_batch C oid bid tv db = Inr u"
  obtains r where "r \<in> set (operations db)" and "o_operation_id r = to_string C oid"
    and "o_phase r = ''effect_dispatched''" and "o_transition_version r = tv"
    and "o_current_effect_batch_id r = Some (to_string C bid)"
  using assms by (auto simp: require_dispatched_batch_def require_eq_Inr)

lemma status_cases:
  assumes "constraints_ok db" and "e \<in> set (effects db)"
  shows "e_status e \<in> {''intent_committed'', ''dispatch_started'', ''settled'', ''outcome_unknown''}"
  using assms by (auto simp: constraints_ok_def list_all_iff effect_checks_def)

lemma set_operation_keeps:
  assumes "kernel_inv C db" and "r \<in> set (operations db)" and "active_phase (o_phase r)"
    and "operations db1 = operations db" and "row_step r (f r)"
  shows "set_operation (o_operation_id r) f db1 =
    db1\<lparr>operations := update_where (\<lambda>x. o_operation_id x = o_operation_id r) f (operations db1)\<rparr>"
proof (rule set_operation_no_release)
  fix x assume "x \<in> set (operations db1)" "o_operation_id x = o_operation_id r"
  then have "x = r" using unique_onD [OF kernel_inv_keys(4) [OF assms(1)]] assms(2,4) by simp
  then show "o_operation_id (f x) = o_operation_id r \<and> o_outcome_json (f x) = None"
    using row_stepD [OF assms(5)] active_no_outcome [OF kernel_invD(10) [OF assms(1,2)] assms(3)] by simp
qed

lemma finished_row_step: "row_step r (finished_row bid blocked r)"
  by (simp add: row_step_def finished_row_def)

text \<open>
  The end of every transaction on a dispatched batch: its children stepped by \<open>h\<close>, and the
  operation moved on when no child is in flight.
\<close>

lemma settle_step_inv:
  assumes inv: "kernel_inv C db"
    and r: "r \<in> set (operations db)" "o_operation_id r = to_string C oid"
      "o_phase r = ''effect_dispatched''" "o_current_effect_batch_id r = Some (to_string C bid)"
    and db1: "db1 = db\<lparr>effects := update_where (\<lambda>e. e_batch_id e = to_string C bid) h (effects db)\<rparr>"
    and con: "constraints_ok db1"
    and h: "\<And>e. e \<in> set (children_of db (to_string C bid)) \<Longrightarrow> child_step C e (h e)"
    and ok: "transition_batch_if_terminal C oid bid tv db1 = Inr (terminal, db2)"
    and ptr: "pointers_ok db2"
  shows "kernel_inv C db2"
proof -
  let ?b = "to_string C bid" and ?o = "to_string C oid"
  have act: "active_phase (o_phase r)" using r(3) by (simp add: active_phase_def)
  have inp: "o_input_effect_batch_id r = None"
    using kernel_invD(10) [OF inv r(1)] r(3) by (auto simp: op_ok_def pointers_match_def)
  have keep: "e_batch_id (h e) = ?b" if "e \<in> set (children_of db ?b)" for e
    using h [OF that] that by (simp add: child_step_def children_of_def)
  have same: "operations db1 = operations db" by (simp add: db1)
  have id: "db1 = batch_change ?b h ?o (\<lambda>r. r) db"
    by (simp add: db1 batch_change_def update_where_def)
  have es: "children_of db1 ?b = map h (children_of db ?b)"
    unfolding id using batch_change_children [of db ?b h ?o "\<lambda>r. r", OF keep] by simp
  from ok con show ?thesis
  proof (cases rule: transition_batch_if_terminal_cases)
    case pending
    have "schema_ok db1" using con ptr pending by (simp add: schema_ok_def)
    then have "kernel_inv C (batch_change ?b h ?o (\<lambda>r. r) db)"
      unfolding id
      by (rule batch_step_inv [where f = "\<lambda>r. r" and h = h, OF inv _ r(1,2) act r(4) _ h])
        (use pending(3) r inp es in \<open>auto simp: row_step_def phase_shows_def\<close>)
    then show ?thesis using pending(2) id by simp
  next
    case (finished blocked)
    have db2: "db2 = batch_change ?b h ?o (finished_row ?b blocked) db"
      using set_operation_keeps [where f = "finished_row ?b blocked", OF inv r(1) act same finished_row_step]
        finished(2) r(2) by (simp add: db1 batch_change_def)
    have st: "e_status e \<in> {''settled'', ''outcome_unknown''}" if "e \<in> set (map h (children_of db ?b))" for e
      using finished(4) [of e] status_cases [OF con, of e] that
      unfolding es [symmetric] by (auto simp: children_of_def)
    have shown: "phase_shows ?b (finished_row ?b blocked r) (map h (children_of db ?b))"
      using st finished(5) unfolding es
      by (cases blocked) (auto simp: phase_shows_def finished_row_def all_settled_def)
    have "schema_ok db2" using finished(3) ptr by (simp add: schema_ok_def)
    then show ?thesis
      unfolding db2
      by (rule batch_step_inv [where f = "finished_row ?b blocked" and h = h,
            OF inv _ r(1,2) act r(4) finished_row_step h shown])
  qed
qed

text \<open>The update of one child, found by its identity.\<close>

lemma update_effects_one:
  assumes ok: "update_effects P f db = Inr db'" and one: "changed P (effects db) = 1"
    and uniq: "unique_on e_effect_id (effects db)"
    and key: "\<And>e. P e \<Longrightarrow> e_effect_id e = eid"
  obtains e where "e \<in> set (effects db)" and "P e"
    and "db' = db\<lparr>effects := update_where (\<lambda>x. e_effect_id x = eid) f (effects db)\<rparr>"
    and "constraints_ok db'"
proof -
  have db': "db' = db\<lparr>effects := update_where P f (effects db)\<rparr>" and con: "constraints_ok db'"
    using ok by (auto simp: update_effects_def execute_eq_Inr)
  obtain e where e: "e \<in> set (effects db)" "P e" using changed_oneD [OF one] by metis
  have "P x \<longleftrightarrow> e_effect_id x = eid" if "x \<in> set (effects db)" for x
    using unique_onD [OF uniq that e(1)] key e(2) by metis
  then have "update_where P f (effects db) = update_where (\<lambda>x. e_effect_id x = eid) f (effects db)"
    by (simp add: update_where_def)
  then show thesis using that e db' con by simp
qed

text \<open>The same update seen on the batch of the child.\<close>

lemma update_child_of_batch:
  assumes "unique_on e_effect_id (effects db)" and "e \<in> set (effects db)"
    and "e_effect_id e = eid" and "e_batch_id e = bid"
  shows "update_where (\<lambda>x. e_effect_id x = eid) f (effects db) =
    update_where (\<lambda>x. e_batch_id x = bid) (\<lambda>x. if e_effect_id x = eid then f x else x) (effects db)"
proof -
  have "e_batch_id x = bid" if "x \<in> set (effects db)" "e_effect_id x = eid" for x
    using unique_onD [OF assms(1) that(1) assms(2)] that(2) assms(3,4) by simp
  then show ?thesis by (auto simp: update_where_def)
qed

lemma child_effect_ok:
  assumes "kernel_inv C db" and "r \<in> set (operations db)"
    and "bid \<in> b_batch_id ` set (batches_of db (o_operation_id r))" and "e \<in> set (children_of db bid)"
  shows "\<exists>M. row_manifest C r = Some M \<and> effect_ok C M e"
  using kernel_invD(10) [OF assms(1,2)] assms(3,4) by (fastforce simp: op_ok_def batches_ok_def batch_ok_def)

lemma settle_batch_effect_inv:
  assumes C: "codec_ok C" and inv: "kernel_inv C db"
    and ok: "settle_batch_effect C oid bid eid tv outcome db = Inr (finished, db')"
  shows "kernel_inv C db'"
proof -
  let ?P = "\<lambda>e. e_effect_id e = to_string C eid \<and> e_batch_id e = to_string C bid \<and>
    e_status e = ''dispatch_started''"
  obtain t db1 terminal u u' where t: "encode (effect_outcome_to_json C) outcome = Inr t"
    and disp: "require_dispatched_batch C oid bid tv db = Inr u"
    and upd: "update_effects ?P (\<lambda>e. e\<lparr>e_status := ''settled'', e_outcome_json := Some t\<rparr>) db = Inr db1"
    and one: "require (changed ?P (effects db) = 1) (Corrupt ''effect settlement compare-and-set failed'') = Inr u'"
    and tr: "transition_batch_if_terminal C oid bid tv db1 = Inr (terminal, db')"
    and ptr: "pointers_ok db'"
    using ok unfolding settle_batch_effect_def Let_def
    by (elim and_then_InrE) (auto simp: commit_eq_Inr elim!: and_then_InrE)
  have one': "changed ?P (effects db) = 1" using one by (simp only: require_eq_Inr)
  obtain e where e: "e \<in> set (effects db)" "?P e"
    and db1: "db1 = db\<lparr>effects := update_where (\<lambda>x. e_effect_id x = to_string C eid)
      (\<lambda>e. e\<lparr>e_status := ''settled'', e_outcome_json := Some t\<rparr>) (effects db)\<rparr>"
    and con: "constraints_ok db1"
    by (rule update_effects_one [OF upd one' kernel_inv_keys(8) [OF inv], of "to_string C eid"]) auto
  obtain r where r: "r \<in> set (operations db)" "o_operation_id r = to_string C oid"
      "o_phase r = ''effect_dispatched''" "o_transition_version r = tv"
      "o_current_effect_batch_id r = Some (to_string C bid)"
    by (rule require_dispatched_batch_ex [OF disp])
  note own = batch_pointers_owned(1) [OF kernel_invD(3) [OF inv] r(1) r(5)]
  have dec: "effect_outcome_from_json C t = Some outcome"
    using round_trip_dec [OF codec_okD(6) [OF C]] t by (simp only: ok_or_eq_Inr)
  let ?h = "\<lambda>x. if e_effect_id x = to_string C eid then x\<lparr>e_status := ''settled'', e_outcome_json := Some t\<rparr> else x"
  have h: "child_step C x (?h x)" if x: "x \<in> set (children_of db (to_string C bid))" for x
  proof (cases "e_effect_id x = to_string C eid")
    case True
    then have "x = e" using unique_onD [OF kernel_inv_keys(8) [OF inv]] x e by (simp add: children_of_def)
    then have "dispatch_ok x" "e_status x = ''dispatch_started''"
      using child_effect_ok [OF inv r(1) own x] e(2) by (auto simp: effect_ok_def)
    then show ?thesis using True dec by (simp add: child_step_def dispatch_ok_def)
  next
    case False
    then show ?thesis using child_effect_ok [OF inv r(1) own x] child_step_refl by auto
  qed
  show ?thesis
    by (rule settle_step_inv [OF inv r(1,2,3,5) _ con h tr ptr])
      (use update_child_of_batch [OF kernel_inv_keys(8) [OF inv] e(1)] e(2) db1 in simp)
qed

text \<open>The operation that owns a child, and the phase a started child puts it in.\<close>

lemma child_owner:
  assumes inv: "kernel_inv C db" and e: "e \<in> set (effects db)"
  obtains r b where "r \<in> set (operations db)" and "b \<in> set (batches_of db (o_operation_id r))"
    and "b_batch_id b = e_batch_id e"
proof -
  obtain b where b: "b \<in> set (effect_batches db)" "b_batch_id b = e_batch_id e"
    using referenced(4) [OF kernel_invD(4) [OF inv] e] by blast
  obtain r where "r \<in> set (operations db)" "o_operation_id r = b_operation_id b"
    using referenced(3) [OF kernel_invD(4) [OF inv] b(1)] by blast
  then show thesis using that b by (simp add: batches_of_def)
qed

lemma started_owner:
  assumes inv: "kernel_inv C db" and e: "e \<in> set (effects db)" "e_status e = ''dispatch_started''"
  obtains r where "r \<in> set (operations db)" and "o_phase r = ''effect_dispatched''"
    and "o_current_effect_batch_id r = Some (e_batch_id e)"
proof -
  obtain r b where r: "r \<in> set (operations db)" and b: "b \<in> set (batches_of db (o_operation_id r))"
    and bid: "b_batch_id b = e_batch_id e" by (rule child_owner [OF inv e(1)])
  note op = kernel_invD(10) [OF inv r, unfolded op_ok_def]
  have mem: "e \<in> set (children_of db (b_batch_id b))" using e(1) bid by (simp add: children_of_def)
  then have not: "\<not> all_settled (children_of db (b_batch_id b))" using e(2) by (force simp: all_settled_def)
  have bo: "batches_ok C r (batches_of db (o_operation_id r)) (children_of db)" using op by blast
  have none: "o_outcome_json r = None" using bo b mem e(2) unfolding batches_ok_def by metis
  have cur: "o_current_effect_batch_id r = Some (b_batch_id b)"
    using bo b not none unfolding batches_ok_def by metis
  have "o_phase r = ''effect_dispatched''"
    using op cur mem e(2) unfolding pointers_match_def by fastforce
  then show thesis using that r cur bid by simp
qed

lemma update_effect_status_eq:
  assumes ok: "update_effect_status C eid st st' db = Inr db'" and uniq: "unique_on e_effect_id (effects db)"
  obtains e where "e \<in> set (effects db)" and "e_effect_id e = to_string C eid" and "e_status e = status_name st"
    and "db' = db\<lparr>effects := update_where (\<lambda>x. e_effect_id x = to_string C eid)
      (\<lambda>x. x\<lparr>e_status := status_name st'\<rparr>) (effects db)\<rparr>"
    and "constraints_ok db'"
proof -
  let ?P = "\<lambda>e. e_effect_id e = to_string C eid \<and> e_status e = status_name st"
  obtain u where upd: "update_effects ?P (\<lambda>e. e\<lparr>e_status := status_name st'\<rparr>) db = Inr db'"
    and one: "require (changed ?P (effects db) = 1) (Corrupt ''effect status compare-and-set failed'') = Inr u"
    using ok unfolding update_effect_status_def Let_def by (auto elim!: and_then_InrE)
  have one': "changed ?P (effects db) = 1" using one by (simp only: require_eq_Inr)
  show thesis
    by (rule update_effects_one [OF upd one' uniq, of "to_string C eid"]) (use that in auto)
qed

lemma mark_unknown_inv:
  assumes inv: "kernel_inv C db"
    and ok: "update_effect_status C eid DispatchStarted EffectOutcomeUnknown db = Inr db'"
  shows "kernel_inv C db'"
proof -
  obtain e where e: "e \<in> set (effects db)" "e_effect_id e = to_string C eid" "e_status e = status_name DispatchStarted"
    and db': "db' = db\<lparr>effects := update_where (\<lambda>x. e_effect_id x = to_string C eid)
      (\<lambda>x. x\<lparr>e_status := status_name EffectOutcomeUnknown\<rparr>) (effects db)\<rparr>"
    and con: "constraints_ok db'"
    by (rule update_effect_status_eq [OF ok kernel_inv_keys(8) [OF inv]])
  obtain r where r: "r \<in> set (operations db)" "o_phase r = ''effect_dispatched''"
      "o_current_effect_batch_id r = Some (e_batch_id e)"
    by (rule started_owner [OF inv e(1)]) (use e(3) in simp)
  note own = batch_pointers_owned(1) [OF kernel_invD(3) [OF inv] r(1) r(3)]
  have act: "active_phase (o_phase r)" using r(2) by (simp add: active_phase_def)
  let ?h = "\<lambda>x. if e_effect_id x = to_string C eid then x\<lparr>e_status := ''outcome_unknown''\<rparr> else x"
  have bc: "db' = batch_change (e_batch_id e) ?h (o_operation_id r) (\<lambda>r. r) db"
    using update_child_of_batch [OF kernel_inv_keys(8) [OF inv] e(1,2) refl] db'
    by (simp add: batch_change_def update_where_def)
  have h: "child_step C x (?h x)" if x: "x \<in> set (children_of db (e_batch_id e))" for x
  proof (cases "e_effect_id x = to_string C eid")
    case True
    then have "x = e" using unique_onD [OF kernel_inv_keys(8) [OF inv]] x e by (simp add: children_of_def)
    then show ?thesis
      using child_effect_ok [OF inv r(1) own x] True e(3) by (auto simp: effect_ok_def child_step_def dispatch_ok_def)
  next
    case False
    then show ?thesis using child_effect_ok [OF inv r(1) own x] child_step_refl by auto
  qed
  have op: "pointers_match r (children_of db)" using kernel_invD(10) [OF inv r(1)] by (simp add: op_ok_def)
  have shown: "phase_shows (e_batch_id e) r (map ?h (children_of db (e_batch_id e)))"
    using op r(2,3) by (auto simp: phase_shows_def pointers_match_def)
  have "pointers_ok db'" using kernel_invD(3) [OF inv] by (simp add: db' pointers_ok_iff)
  then have "schema_ok db'" using con by (simp add: schema_ok_def)
  then show ?thesis
    unfolding bc
    by (rule batch_step_inv [where f = "\<lambda>r. r" and h = ?h, OF inv _ r(1) refl act r(3) _ h shown])
      (simp add: row_step_def)
qed

lemma transition_inv:
  assumes inv: "kernel_inv C db" and disp: "require_dispatched_batch C oid bid tv db = Inr u"
    and tr: "transition_batch_if_terminal C oid bid tv db = Inr (terminal, db')" and ptr: "pointers_ok db'"
  shows "kernel_inv C db'"
proof -
  obtain r where r: "r \<in> set (operations db)" "o_operation_id r = to_string C oid"
      "o_phase r = ''effect_dispatched''" "o_transition_version r = tv"
      "o_current_effect_batch_id r = Some (to_string C bid)"
    by (rule require_dispatched_batch_ex [OF disp])
  note own = batch_pointers_owned(1) [OF kernel_invD(3) [OF inv] r(1) r(5)]
  show ?thesis
  proof (rule settle_step_inv [where h = "\<lambda>e. e", OF inv r(1,2,3,5) _ kernel_invD(2) [OF inv] _ tr ptr])
    show "child_step C e e" if "e \<in> set (children_of db (to_string C bid))" for e
      using child_effect_ok [OF inv r(1) own that] child_step_refl by blast
  qed (simp add: update_where_def)
qed

lemma record_batch_effect_unknown_inv:
  assumes inv: "kernel_inv C db"
    and ok: "record_batch_effect_unknown C oid bid eid tv db = Inr (finished, db')"
  shows "kernel_inv C db'"
proof -
  obtain u db1 terminal where disp: "require_dispatched_batch C oid bid tv db = Inr u"
    and upd: "update_effect_status C eid DispatchStarted EffectOutcomeUnknown db = Inr db1"
    and tr: "transition_batch_if_terminal C oid bid tv db1 = Inr (terminal, db')" and ptr: "pointers_ok db'"
    using ok unfolding record_batch_effect_unknown_def
    by (elim and_then_InrE) (auto simp: commit_eq_Inr elim!: and_then_InrE)
  have "operations db1 = operations db"
    by (rule update_effect_status_eq [OF upd kernel_inv_keys(8) [OF inv]]) simp
  then have "require_dispatched_batch C oid bid tv db1 = Inr u"
    using disp by (simp add: require_dispatched_batch_def)
  then show ?thesis by (rule transition_inv [OF mark_unknown_inv [OF inv upd] _ tr ptr])
qed

lemma finish_effect_batch_attempt_inv:
  assumes inv: "kernel_inv C db"
    and ok: "finish_effect_batch_attempt C oid bid tv db = Inr (finish, db')"
  shows "kernel_inv C db'"
proof (cases "cancellation_requested C oid db")
  case True
  then show ?thesis using ok inv by (auto simp: finish_effect_batch_attempt_def elim!: and_then_InrE)
next
  case False
  obtain u terminal where disp: "require_dispatched_batch C oid bid tv db = Inr u"
    and tr: "transition_batch_if_terminal C oid bid tv db = Inr (terminal, db')" and ptr: "pointers_ok db'"
    using ok unfolding finish_effect_batch_attempt_def if_not_P [OF False]
    by (elim and_then_InrE) (auto simp: commit_eq_Inr elim!: and_then_InrE)
  show ?thesis by (rule transition_inv [OF inv disp tr ptr])
qed

lemma close_dispatched_batch_inv:
  assumes inv: "kernel_inv C db"
    and ok: "close_dispatched_batch_for_cancellation C oid bid tv db = Inr (phase, db')" and ptr: "pointers_ok db'"
  shows "kernel_inv C db'"
proof -
  let ?b = "to_string C bid"
  let ?P = "\<lambda>e. e_batch_id e = ?b \<and> e_status e = ''dispatch_started''"
  let ?h = "\<lambda>e. if e_status e = ''dispatch_started'' then e\<lparr>e_status := ''outcome_unknown''\<rparr> else e"
  obtain u db1 sts where disp: "require_dispatched_batch C oid bid tv db = Inr u"
    and upd: "update_effects ?P (\<lambda>e. e\<lparr>e_status := ''outcome_unknown''\<rparr>) db = Inr db1"
    and sts: "load_batch_statuses C oid bid db1 = Inr sts"
    and no: "IntentCommitted \<notin> set sts" "DispatchStarted \<notin> set sts"
    and tr: "transition_finished_batch C oid bid tv (EffectOutcomeUnknown \<in> set sts) db1 = Inr db'"
    using ok unfolding close_dispatched_batch_for_cancellation_def Let_def
    by (elim and_then_InrE) (auto elim!: and_then_InrE split: if_splits)
  have terminal: "transition_batch_if_terminal C oid bid tv db1 = Inr (Some (EffectOutcomeUnknown \<in> set sts), db')"
    using sts no tr by (simp add: transition_batch_if_terminal_def)
  have "update_where ?P (\<lambda>e. e\<lparr>e_status := ''outcome_unknown''\<rparr>) (effects db) =
      update_where (\<lambda>e. e_batch_id e = ?b) ?h (effects db)"
    by (simp add: update_where_def)
  then have db1: "db1 = db\<lparr>effects := update_where (\<lambda>e. e_batch_id e = ?b) ?h (effects db)\<rparr>"
    and con: "constraints_ok db1"
    using upd by (auto simp: update_effects_def execute_eq_Inr)
  obtain r where r: "r \<in> set (operations db)" "o_operation_id r = to_string C oid"
      "o_phase r = ''effect_dispatched''" "o_transition_version r = tv"
      "o_current_effect_batch_id r = Some ?b"
    by (rule require_dispatched_batch_ex [OF disp])
  note own = batch_pointers_owned(1) [OF kernel_invD(3) [OF inv] r(1) r(5)]
  have "child_step C e (?h e)" if "e \<in> set (children_of db ?b)" for e
    using child_effect_ok [OF inv r(1) own that] by (auto simp: effect_ok_def child_step_def dispatch_ok_def)
  then show ?thesis
    by (rule settle_step_inv [where h = ?h, OF inv r(1,2,3,5) db1 con _ terminal ptr])
qed

text \<open>A reader of the children of a well-formed batch that reads every row returns them all in order.\<close>

lemma read_children:
  assumes ok: "batch_ok C M es"
    and total: "\<And>i e. e \<in> set es \<Longrightarrow> e_position e = int i \<Longrightarrow> \<exists>y. f (i, e) = Inr y \<and> R e y"
  shows "\<exists>ys. and_then (try_map f (enumerate 0 (order_by e_position es))) require_children = Inr ys \<and>
    list_all2 R (order_by e_position es) ys"
proof -
  have "gapless (int (length es)) (map e_position es)" using ok by (simp add: batch_ok_def)
  from try_map_enumerate [where k = e_position and f = f and R = R, OF this total] obtain ys
    where ys: "try_map f (enumerate 0 (order_by e_position es)) = Inr ys"
      "list_all2 R (order_by e_position es) ys" by blast
  have "order_by e_position es \<noteq> []" using ok by (simp add: batch_ok_def)
  then have "ys \<noteq> []" using ys(2) by auto
  then show ?thesis using ys by (simp add: require_children_def)
qed

lemma child_position_ok: "e_position e = int i \<Longrightarrow> require_child_position i e = Inr ()"
  by (simp add: require_child_position_def from_sql_integer_def)

text \<open>The columns of a child that satisfies the checks decode.\<close>

lemma effect_columns:
  assumes "effect_checks e"
  shows "\<exists>rec. e_recovery e = recovery_as_str rec" and "\<exists>st. e_status e = status_name st"
    and "from_sql_integer (e_dispatch_count e) d = Inr (e_dispatch_count e)"
proof -
  show "\<exists>rec. e_recovery e = recovery_as_str rec"
  proof -
    have "e_recovery e = recovery_as_str SafeToReplay \<or> e_recovery e = recovery_as_str NeverReplay"
      using assms by (auto simp: effect_checks_def)
    then show ?thesis by blast
  qed
  show "\<exists>st. e_status e = status_name st"
  proof -
    have "e_status e = status_name IntentCommitted \<or> e_status e = status_name DispatchStarted \<or>
        e_status e = status_name Settled \<or> e_status e = status_name EffectOutcomeUnknown"
      using assms by (auto simp: effect_checks_def)
    then show ?thesis by blast
  qed
  show "from_sql_integer (e_dispatch_count e) d = Inr (e_dispatch_count e)"
    using assms by (simp add: effect_checks_def from_sql_integer_def)
qed

text \<open>What the invariant says of a batch of an operation.\<close>

lemma owned_batch:
  assumes inv: "kernel_inv C db" and r: "r \<in> set (operations db)"
    and b: "b \<in> set (batches_of db (o_operation_id r))"
  shows "\<exists>M. row_manifest C r = Some M \<and> batch_ok C M (children_of db (b_batch_id b))"
    and "\<And>e. e \<in> set (children_of db (b_batch_id b)) \<Longrightarrow>
      (e_request_json e = None) = (o_outcome_json r \<noteq> None \<and> all_settled (children_of db (b_batch_id b)))"
    and "\<And>e. e \<in> set (children_of db (b_batch_id b)) \<Longrightarrow> effect_checks e"
    and "canonical C (b_batch_id b)"
proof -
  have ok: "batches_ok C r (batches_of db (o_operation_id r)) (children_of db)"
    using kernel_invD(10) [OF inv r] by (simp add: op_ok_def)
  then show "\<exists>M. row_manifest C r = Some M \<and> batch_ok C M (children_of db (b_batch_id b))"
    and "\<And>e. e \<in> set (children_of db (b_batch_id b)) \<Longrightarrow>
      (e_request_json e = None) = (o_outcome_json r \<noteq> None \<and> all_settled (children_of db (b_batch_id b)))"
    and "canonical C (b_batch_id b)"
    using b unfolding batches_ok_def by blast+
  show "effect_checks e" if "e \<in> set (children_of db (b_batch_id b))" for e
    using that constraints_okD(5) [OF kernel_invD(2) [OF inv]] by (simp add: list_all_iff children_of_def)
qed

lemma children_by_id:
  assumes uniq: "unique_on e_effect_id (effects db)"
  shows "update_where (\<lambda>x. e_effect_id x \<in> e_effect_id ` set (order_by e_position (children_of db bid))) f (effects db) =
    update_where (\<lambda>x. e_batch_id x = bid) f (effects db)"
  unfolding update_where_def
proof (rule map_cong [OF refl])
  fix x assume x: "x \<in> set (effects db)"
  have "e_effect_id x \<in> e_effect_id ` set (children_of db bid) \<longleftrightarrow> e_batch_id x = bid"
  proof
    assume "e_effect_id x \<in> e_effect_id ` set (children_of db bid)"
    then obtain y where "y \<in> set (children_of db bid)" "e_effect_id x = e_effect_id y" by auto
    then show "e_batch_id x = bid" using unique_onD [OF uniq x, of y] by (auto simp: children_of_def)
  qed (use x in \<open>auto simp: children_of_def\<close>)
  then show "(if e_effect_id x \<in> e_effect_id ` set (order_by e_position (children_of db bid)) then f x else x) =
      (if e_batch_id x = bid then f x else x)" by simp
qed

lemma distinct_children:
  assumes "unique_on e_effect_id (effects db)"
  shows "distinct (map e_effect_id (order_by e_position (children_of db bid)))"
proof -
  have "unique_on e_effect_id (children_of db bid)"
    unfolding children_of_def by (rule unique_on_filter [OF assms])
  moreover have "mset (map e_effect_id (order_by e_position (children_of db bid))) =
      mset (map e_effect_id (children_of db bid))"
    by (simp add: order_by_def)
  ultimately show ?thesis by (metis mset_eq_imp_distinct_iff unique_on_def)
qed

end
