(* ===== verification/Kernel_Dispatch.thy ===== *)
theory Kernel_Dispatch
  imports Kernel_Batches
begin

section \<open>Intents and dispatch\<close>

text \<open>
  What \<open>effect_store/dispatch.rs\<close> does to the database, and that it keeps the invariant: the
  commit of a batch of intents and the marking of every child before an adapter runs.
\<close>

subsection \<open>Intents\<close>

definition effect_row_of ::
    "('t, 'v) codec \<Rightarrow> (nat \<Rightarrow> EffectId) \<Rightarrow> EffectBatchId \<Rightarrow> nat \<times> 'v NewEffectIntent \<times> 't \<Rightarrow> 't effect_row" where
  "effect_row_of C new_id batch_id entry =
     \<lparr>e_effect_id = to_string C (new_id (fst entry)), e_batch_id = to_string C batch_id,
      e_position = int (fst entry), e_binding = ni_binding (fst (snd entry)),
      e_binding_revision = ni_binding_revision (fst (snd entry)),
      e_recovery = recovery_as_str (ni_recovery (fst (snd entry))),
      e_request_json = Some (snd (snd entry)),
      e_status = ''intent_committed'', e_dispatch_count = 0, e_outcome_json = None\<rparr>"

lemma insert_effects_eq:
  assumes "try_fold (insert_effect C new_id batch_id) entries db = Inr db'"
  shows "db' = db\<lparr>effects := effects db @ map (effect_row_of C new_id batch_id) entries\<rparr>"
  using assms
proof (induction entries arbitrary: db)
  case (Cons entry entries)
  then obtain db1 where db1: "insert_effect C new_id batch_id entry db = Inr db1"
    and rest: "try_fold (insert_effect C new_id batch_id) entries db1 = Inr db'"
    by (auto elim!: and_then_InrE)
  have "db1 = db\<lparr>effects := effects db @ [effect_row_of C new_id batch_id entry]\<rparr>"
    using db1 by (cases entry) (auto simp: insert_effect_def effect_row_of_def result_eq elim!: and_then_InrE)
  then show ?case using Cons.IH [OF rest] by simp
qed simp

definition intended :: "'t \<Rightarrow> 't \<Rightarrow> 't operation_row \<Rightarrow> 't operation_row" where
  "intended cpj bid r =
     r\<lparr>o_phase := ''effect_intent'', o_checkpoint_json := Some cpj,
        o_current_effect_batch_id := Some bid, o_input_effect_batch_id := None,
        o_next_effect_batch_position := o_next_effect_batch_position r + 1,
        o_transition_version := o_transition_version r + 1\<rparr>"

text \<open>The bindings of the intents are those of the operation's frozen manifest.\<close>

definition intents_fit :: "('t, 'v) codec \<Rightarrow> OperationId \<Rightarrow> 'v NewEffectIntent list \<Rightarrow> 't db \<Rightarrow> bool" where
  "intents_fit C operation_id intents db \<longleftrightarrow>
     (\<forall>r \<in> set (operations db). o_operation_id r = to_string C operation_id \<longrightarrow>
        (\<forall>M. row_manifest C r = Some M \<longrightarrow> (\<forall>n \<in> set intents.
           btree_get (effect_bindings M) (ni_binding n) = Some (ni_binding_revision n))))"

lemma commit_effect_batch_intent_cases:
  assumes ok: "commit_effect_batch_intent C bid ids oid tv intent db = Inr (res, db')"
    and con: "constraints_ok db"
  obtains
    (pending) "cancellation_requested C oid db" and "db' = db" and "res = IntentCancellationPending"
  | (committed) cpj requests r rows
    where "\<not> cancellation_requested C oid db" and "res = IntentsCommitted"
      and "nb_effects intent \<noteq> []" and "checkpoint_to_json C (nb_checkpoint intent) = Some cpj"
      and "list_all2 (\<lambda>n t. value_to_json C (ni_request n) = Some t) (nb_effects intent) requests"
      and "r \<in> set (operations db)" and "o_operation_id r = to_string C oid"
      and "o_phase r = ''need_decision''" and "o_transition_version r = tv"
      and "rows = map (effect_row_of C ids bid) (enumerate 0 (zip (nb_effects intent) requests))"
      and "db' = set_operation (to_string C oid) (intended cpj (to_string C bid))
        (db\<lparr>effect_batches := effect_batches db @ [\<lparr>b_batch_id = to_string C bid,
           b_operation_id = to_string C oid, b_position = o_next_effect_batch_position r\<rparr>],
           effects := effects db @ rows\<rparr>)"
      and "constraints_ok db'" and "pointers_ok db'"
proof -
  have ne: "nb_effects intent \<noteq> []"
    using ok by (auto simp: commit_effect_batch_intent_def)
  let ?sel = "\<lambda>r. o_operation_id r = to_string C oid \<and> o_phase r = ''need_decision'' \<and> o_transition_version r = tv"
  obtain cpj requests where cpj: "encode (checkpoint_to_json C) (nb_checkpoint intent) = Inr cpj"
    and req: "try_map (\<lambda>n. encode (value_to_json C) (ni_request n)) (nb_effects intent) = Inr requests"
    using ok ne unfolding commit_effect_batch_intent_def by (auto elim!: and_then_InrE)
  note ok' = ok [unfolded commit_effect_batch_intent_def if_not_P [OF ne] cpj req and_then_simps]
  show thesis
  proof (cases "cancellation_requested C oid db")
    case True
    show thesis by (rule pending [OF True]) (use ok' True in simp_all)
  next
    case False
    obtain r db1 db2 u where r: "ok_or (find ?sel (operations db)) (Corrupt ''effect batch intent compare-and-set failed'') = Inr r"
      and b: "execute (db\<lparr>effect_batches := effect_batches db @ [\<lparr>b_batch_id = to_string C bid,
           b_operation_id = to_string C oid, b_position = o_next_effect_batch_position r\<rparr>]\<rparr>) = Inr db1"
      and e: "try_fold (insert_effect C ids bid) (enumerate 0 (zip (nb_effects intent) requests)) db1 = Inr db2"
      and upd: "update_operations ?sel (intended cpj (to_string C bid)) db2 = Inr db'"
      and one: "require (changed ?sel (operations db2) = 1) (Corrupt ''effect batch intent state update failed'') = Inr u"
      and ptr: "pointers_ok db'" and res: "res = IntentsCommitted"
      using ok' unfolding if_not_P [OF False] Let_def
      by (elim and_then_InrE) (auto simp: commit_eq_Inr intended_def [abs_def])
    let ?rows = "map (effect_row_of C ids bid) (enumerate 0 (zip (nb_effects intent) requests))"
    have db2: "db2 = db\<lparr>effect_batches := effect_batches db @ [\<lparr>b_batch_id = to_string C bid,
           b_operation_id = to_string C oid, b_position = o_next_effect_batch_position r\<rparr>],
           effects := effects db @ ?rows\<rparr>"
      using insert_effects_eq [OF e] b by (simp add: execute_eq_Inr)
    have con1: "constraints_ok db1" using b by (auto simp: execute_eq_Inr)
    have con2: "constraints_ok db2"
      by (rule try_fold_invariant [where I = constraints_ok, OF e con1])
        (auto simp: insert_effect_def execute_eq_Inr elim!: and_then_InrE)
    have "find ?sel (operations db) = Some r" using r by (simp only: ok_or_eq_Inr)
    from find_SomeD [OF this] have mem: "r \<in> set (operations db)" "?sel r" by simp_all
    have one': "changed ?sel (operations db2) = 1" using one by (simp only: require_eq_Inr)
    note u = update_operations_one [OF con2 upd one', of "to_string C oid"]
    show thesis
    proof (rule committed [OF False res ne _ _ mem(1) _ _ _ refl])
      show "checkpoint_to_json C (nb_checkpoint intent) = Some cpj" using cpj by (simp only: ok_or_eq_Inr)
      show "list_all2 (\<lambda>n t. value_to_json C (ni_request n) = Some t) (nb_effects intent) requests"
        using req by (simp add: try_map_eq_Inr ok_or_eq_Inr)
      show "db' = set_operation (to_string C oid) (intended cpj (to_string C bid))
        (db\<lparr>effect_batches := effect_batches db @ [\<lparr>b_batch_id = to_string C bid,
           b_operation_id = to_string C oid, b_position = o_next_effect_batch_position r\<rparr>],
           effects := effects db @ ?rows\<rparr>)" using u(1) by (simp add: db2)
      show "constraints_ok db'" using u(2) by blast
    qed (use mem(2) ptr in simp_all)
  qed
qed

lemma new_batch_ok:
  assumes C: "codec_ok C" and ne: "intents \<noteq> []"
    and req: "list_all2 (\<lambda>n t. value_to_json C (ni_request n) = Some t) intents requests"
    and fit: "\<forall>n \<in> set intents. btree_get (effect_bindings M) (ni_binding n) = Some (ni_binding_revision n)"
    and rows: "rows = map (effect_row_of C ids bid) (enumerate 0 (zip intents requests))"
  shows "batch_ok C M rows"
proof -
  let ?zs = "zip intents requests"
  have len: "length requests = length intents" using req by (simp add: list_all2_lengthD)
  have "map e_position rows = map int [0..<length intents]"
    by (rule nth_equalityI) (simp_all add: rows len effect_row_of_def nth_enumerate_eq)
  then have gap: "gapless (int (length rows)) (map e_position rows)"
    using gapless_upt [of "length intents"] by (simp add: rows len)
  have "effect_ok C M e" if e: "e \<in> set rows" for e
  proof -
    obtain i where i: "i < length ?zs" "e = effect_row_of C ids bid (i, ?zs ! i)"
      using e by (auto simp: rows in_set_conv_nth nth_enumerate_eq)
    let ?n = "intents ! i" and ?t = "requests ! i"
    have n: "?n \<in> set intents" and t: "value_to_json C (ni_request ?n) = Some ?t"
      using i(1) list_all2_nthD [OF req] by simp_all
    have "value_from_json C ?t = Some (ni_request ?n)"
      by (rule round_trip_dec [OF codec_okD(7) [OF C] t])
    then show ?thesis
      using fit n i by (auto simp: effect_row_of_def effect_ok_def canonical_def dispatch_ok_def)
  qed
  moreover have "length rows = length intents" by (simp add: rows len)
  then have "rows \<noteq> []" using ne by auto
  ultimately show ?thesis using gap by (simp add: batch_ok_def)
qed

lemma op_ok_intend:
  assumes ok: "op_ok C r bs ch" and ph: "o_phase r = ''need_decision''"
    and cp: "checkpoint_from_json C cpj = Some cp" "row_manifest C r = Some M"
      "schema_version cp = checkpoint_schema_version M"
    and b: "b_batch_id b = bid" "b_position b = o_next_effect_batch_position r" "canonical C bid"
    and old: "\<And>x. x \<in> set bs \<Longrightarrow> b_batch_id x \<noteq> bid \<and> ch' (b_batch_id x) = ch (b_batch_id x)"
    and new: "batch_ok C M (ch' bid)"
      "\<And>e. e \<in> set (ch' bid) \<Longrightarrow> e_status e = ''intent_committed'' \<and> e_request_json e \<noteq> None"
  shows "op_ok C (intended cpj bid r) (bs @ [b]) ch'"
proof -
  let ?r = "intended cpj bid r"
  have man: "row_manifest C ?r = row_manifest C r" by (rule row_manifest_eq) (simp add: intended_def)
  have none: "o_outcome_json r = None" using active_no_outcome [OF ok] ph by (simp add: active_phase_def)
  note bo = ok [unfolded op_ok_def batches_ok_def]
  have cur: "o_current_effect_batch_id r = None" using ok ph by (simp add: op_ok_def pointers_match_def)
  have settled: "all_settled (ch (b_batch_id x))" if "x \<in> set bs" for x using bo that none cur by simp
  have req: "e_request_json e \<noteq> None" if "x \<in> set bs" "e \<in> set (ch (b_batch_id x))" for x e
    using bo that none by blast
  have man0: "\<exists>M. row_manifest C r = Some M \<and> batch_ok C M (ch (b_batch_id x))" if "x \<in> set bs" for x
    using bo that by blast
  have "gapless (o_next_effect_batch_position r + 1) (map b_position bs @ [o_next_effect_batch_position r])"
    using bo by (intro gapless_snoc) blast
  then have "batches_ok C ?r (bs @ [b]) ch'"
    unfolding batches_ok_def man
    using bo b old new cp(2) settled req man0 none by (auto simp: intended_def)
  moreover have "pointers_match ?r ch'"
    using new by (simp add: pointers_match_def intended_def)
  moreover have "checkpoint_ok C ?r"
    unfolding checkpoint_ok_def man using cp by (auto simp: intended_def)
  moreover have "outcome_ok C ?r" using none by (simp add: outcome_ok_def intended_def terminal_phase_def)
  ultimately show ?thesis using ok by (simp add: op_ok_def intended_def)
qed

lemma commit_effect_batch_intent_inv:
  assumes C: "codec_ok C" and inv: "kernel_inv C db"
    and ok: "commit_effect_batch_intent C bid ids oid tv intent db = Inr (res, db')"
    and fits: "checkpoint_fits C oid (nb_checkpoint intent) db" "intents_fit C oid (nb_effects intent) db"
  shows "kernel_inv C db'"
  using ok kernel_invD(2) [OF inv]
proof (cases rule: commit_effect_batch_intent_cases)
  case pending
  then show ?thesis using inv by simp
next
  case (committed cpj requests r rows)
  let ?b = "\<lparr>b_batch_id = to_string C bid, b_operation_id = to_string C oid,
    b_position = o_next_effect_batch_position r\<rparr>"
  let ?db2 = "db\<lparr>effect_batches := effect_batches db @ [?b], effects := effects db @ rows\<rparr>"
  let ?f = "intended cpj (to_string C bid) :: 'a operation_row \<Rightarrow> 'a operation_row"
  have act: "active_phase (o_phase r)" using committed(8) by (simp add: active_phase_def)
  have none: "o_outcome_json x = None" if "x \<in> set (operations db)" "o_operation_id x = to_string C oid" for x
  proof -
    have "x = r" using unique_onD [OF kernel_inv_keys(4) [OF inv]] that committed(6,7) by metis
    then show ?thesis using active_no_outcome [OF kernel_invD(10) [OF inv committed(6)] act] by simp
  qed
  have db': "db' = ?db2\<lparr>operations := update_where (\<lambda>r. o_operation_id r = to_string C oid) ?f (operations ?db2)\<rparr>"
    unfolding committed(11) by (rule set_operation_no_release) (use none in \<open>simp add: intended_def\<close>)
  have "unique_on b_batch_id (effect_batches db')" using committed(12) by (simp add: constraints_ok_def keys_ok_def)
  then have fresh: "b_batch_id x \<noteq> to_string C bid" if "x \<in> set (effect_batches db)" for x
    using that by (force simp: db' unique_on_def)
  have no_child: "filter (\<lambda>e. e_batch_id e = to_string C bid) (effects db) = []"
    using fresh referenced(4) [OF kernel_invD(4) [OF inv]] by (fastforce simp: filter_empty_conv)
  have row_bid: "e_batch_id e = to_string C bid" "e_status e = ''intent_committed''" "e_request_json e \<noteq> None"
    if "e \<in> set rows" for e
    using that by (auto simp: committed(10) effect_row_of_def)
  have new: "children_of db' (to_string C bid) = rows"
    using no_child row_bid(1) by (simp add: db' children_of_def)
  have old: "children_of db' x = children_of db x" if "x \<noteq> to_string C bid" for x
    using that row_bid(1) by (auto simp: db' children_of_def filter_empty_conv)
  have ch: "changes (o_session_id r) (to_string C oid) ?f (\<lambda>s. s) [] [?b] db db'"
    unfolding changes_def using fresh old by (simp add: db' update_where_def)
  have bs: "batches_of db' (to_string C oid) = batches_of db (to_string C oid) @ [?b]"
    by (simp add: db' batches_of_def)
  obtain M where M: "row_manifest C r = Some M" "schema_version (nb_checkpoint intent) = checkpoint_schema_version M"
    using kernel_invD(10) [OF inv committed(6)] committed(6-8) fits(1)
    by (auto simp: op_ok_def checkpoint_ok_def checkpoint_fits_def)
  have fit: "\<forall>n \<in> set (nb_effects intent). btree_get (effect_bindings M) (ni_binding n) = Some (ni_binding_revision n)"
    using fits(2) committed(6,7) M(1) by (simp add: intents_fit_def)
  have op: "op_ok C (?f r) (batches_of db' (to_string C oid)) (children_of db')"
    unfolding bs
  proof (rule op_ok_intend [OF _ committed(8) _ M])
    show "op_ok C r (batches_of db (to_string C oid)) (children_of db)"
      using kernel_invD(10) [OF inv committed(6)] committed(7) by simp
    show "checkpoint_from_json C cpj = Some (nb_checkpoint intent)"
      by (rule round_trip_dec [OF codec_okD(4) [OF C] committed(4)])
    show "batch_ok C M (children_of db' (to_string C bid))"
      unfolding new by (rule new_batch_ok [OF C committed(3,5) fit committed(10)])
  qed (use fresh old new row_bid in \<open>auto simp: batches_of_def canonical_def\<close>)
  have schema: "schema_ok db'" using committed(12,13) by (simp add: schema_ok_def)
  show ?thesis
  proof (rule kernel_inv_change [OF inv schema ch committed(6,7) refl _ _ _ _ _ op])
    fix s assume s: "s \<in> set (sessions db)" "s_session_id s = o_session_id r"
    show "s_session_id s = o_session_id r \<and> s_agent_id s = s_agent_id s \<and>
      s_next_command_position s = s_next_command_position s \<and>
      s_next_event_sequence s = s_next_event_sequence s + int (length []) \<and>
      map v_sequence [] = map (\<lambda>i. s_next_event_sequence s + int i) [0..<length []] \<and>
      s_active_operation_id s \<in> {None, Some (to_string C oid)} \<and>
      s_active_operation_id s = (if active_phase (o_phase (?f r)) then Some (to_string C oid) else None)"
      using active_session [OF inv committed(6) act s] s(2) committed(7)
      by (simp add: intended_def active_phase_def)
  qed (use committed(7) in \<open>simp_all add: intended_def\<close>)
qed

subsection \<open>Dispatch of a batch\<close>

text \<open>What preparing a batch does to a child: it is dispatched, or marked unknown, or left alone.\<close>

definition dispatches :: "OperationPhase \<Rightarrow> 't effect_row \<Rightarrow> bool" where
  "dispatches phase e \<longleftrightarrow>
     phase = EffectIntent \<or> (e_status e = ''dispatch_started'' \<and> e_recovery e = ''safe_to_replay'')"

definition dispatched :: "OperationPhase \<Rightarrow> 't effect_row \<Rightarrow> 't effect_row" where
  "dispatched phase e =
     (if dispatches phase e
      then e\<lparr>e_status := ''dispatch_started'', e_dispatch_count := e_dispatch_count e + 1\<rparr>
      else if e_status e = ''dispatch_started'' then e\<lparr>e_status := ''outcome_unknown''\<rparr>
      else e)"

text \<open>The statuses a batch may hold when it is prepared.\<close>

definition preparable :: "OperationPhase \<Rightarrow> 't effect_row \<Rightarrow> bool" where
  "preparable phase e \<longleftrightarrow>
     (phase = EffectIntent \<and> e_status e = ''intent_committed'') \<or>
     (phase = EffectDispatched \<and> e_status e \<noteq> ''intent_committed'')"

definition prepared_shows :: "('t, 'v) codec \<Rightarrow> 't effect_row \<Rightarrow> 'v PreparedEffect \<Rightarrow> bool" where
  "prepared_shows C e p \<longleftrightarrow>
     e_effect_id e = to_string C (pr_effect_id p) \<and> e_binding e = pr_binding p \<and>
     e_binding_revision e = pr_binding_revision p \<and> e_recovery e = recovery_as_str (pr_recovery p) \<and>
     (\<exists>t. e_request_json e = Some t \<and> value_from_json C t = Some (pr_request p)) \<and>
     e_status e = status_name (pr_status p) \<and> e_dispatch_count e = pr_dispatch_count p"

definition pending_of ::
    "EffectBatchId \<Rightarrow> i64 \<Rightarrow> 'v PreparedEffect \<Rightarrow> 'v PendingEffect" where
  "pending_of bid tv p =
     \<lparr>pe_batch_id = bid, pe_effect_id = pr_effect_id p, pe_binding = pr_binding p,
      pe_binding_revision = pr_binding_revision p, pe_request = pr_request p,
      pe_recovery = pr_recovery p, pe_dispatch_count = pr_dispatch_count p,
      pe_transition_version = tv\<rparr>"

lemma dispatched_keys [simp]:
  "e_effect_id (dispatched phase e) = e_effect_id e"
  "e_batch_id (dispatched phase e) = e_batch_id e"
  "e_position (dispatched phase e) = e_position e"
  "e_binding (dispatched phase e) = e_binding e"
  "e_binding_revision (dispatched phase e) = e_binding_revision e"
  "e_recovery (dispatched phase e) = e_recovery e"
  "e_request_json (dispatched phase e) = e_request_json e"
  "e_outcome_json (dispatched phase e) = e_outcome_json e"
  by (simp_all add: dispatched_def)

lemma should_dispatch_cases:
  assumes "should_dispatch C phase p db = Inr (dispatch, p', db')"
  obtains
    (dispatch) "dispatch" and "p' = p" and "db' = db"
      and "(phase = EffectIntent \<and> pr_status p = IntentCommitted) \<or>
        (phase = EffectDispatched \<and> pr_status p = DispatchStarted \<and> pr_recovery p = SafeToReplay)"
  | (unknown) "\<not> dispatch" and "p' = p\<lparr>pr_status := EffectOutcomeUnknown\<rparr>"
      and "phase = EffectDispatched" and "pr_status p = DispatchStarted" and "pr_recovery p = NeverReplay"
      and "update_effect_status C (pr_effect_id p) DispatchStarted EffectOutcomeUnknown db = Inr db'"
  | (skip) "\<not> dispatch" and "p' = p" and "db' = db" and "phase = EffectDispatched"
      and "pr_status p = Settled \<or> pr_status p = EffectOutcomeUnknown"
proof -
  have p: "phase = EffectIntent \<or> phase = EffectDispatched"
    using assms by (cases phase) (simp_all add: should_dispatch_def)
  note eq = assms [unfolded should_dispatch_def]
  from p show thesis
  proof
    assume i: "phase = EffectIntent"
    then have st: "pr_status p = IntentCommitted" using eq by (cases "pr_status p") simp_all
    show thesis by (rule dispatch) (use eq i st in simp_all)
  next
    assume d: "phase = EffectDispatched"
    show thesis
    proof (cases "pr_status p")
      case IntentCommitted
      then show thesis using eq d by simp
    next
      case DispatchStarted
      show thesis
      proof (cases "pr_recovery p")
        case SafeToReplay
        show thesis by (rule dispatch) (use eq d DispatchStarted SafeToReplay in simp_all)
      next
        case NeverReplay
        have u: "update_effect_status C (pr_effect_id p) DispatchStarted EffectOutcomeUnknown db = Inr db'"
            "\<not> dispatch" "p' = p\<lparr>pr_status := EffectOutcomeUnknown\<rparr>"
          using eq d DispatchStarted NeverReplay by (auto elim!: and_then_InrE)
        show thesis by (rule unknown [OF u(2,3) d DispatchStarted NeverReplay u(1)])
      qed
    next
      case Settled
      show thesis by (rule skip) (use eq d Settled in simp_all)
    next
      case EffectOutcomeUnknown
      show thesis by (rule skip) (use eq d EffectOutcomeUnknown in simp_all)
    qed
  qed
qed

lemma prepare_child_eq:
  assumes ok: "prepare_child C phase bid tv p db = Inr (pend, p', db')"
    and con: "constraints_ok db" and e: "e \<in> set (effects db)" "prepared_shows C e p"
  shows "db' = db\<lparr>effects := update_where (\<lambda>x. e_effect_id x = e_effect_id e) (dispatched phase) (effects db)\<rparr>"
    and "constraints_ok db'" and "prepared_shows C (dispatched phase e) p'" and "preparable phase e"
    and "pend = (if dispatches phase e then Some (pending_of bid tv p') else None)"
proof -
  note uniq = schema_keys(11) [OF con]
  note sh = e(2) [unfolded prepared_shows_def]
  obtain dispatch p1 db1 where sd: "should_dispatch C phase p db = Inr (dispatch, p1, db1)"
    and rest: "(if \<not> dispatch then Inr (None, p1, db1)
     else
     and_then (ok_or (checked_add_u64 (pr_dispatch_count p1) 1)
       (Corrupt ''effect dispatch count overflowed'')) (\<lambda>dispatch_count.
     and_then (require (in_i64 (pr_dispatch_count p1))
       (Corrupt ''effect dispatch count exceeds i64'')) (\<lambda>_.
     and_then (require (in_i64 dispatch_count)
       (Corrupt ''effect dispatch count exceeds i64'')) (\<lambda>_.
     let selected = (\<lambda>e. e_effect_id e = to_string C (pr_effect_id p1) \<and>
       e_status e = status_name (pr_status p1) \<and>
       e_dispatch_count e = pr_dispatch_count p1) in
     and_then (update_effects selected
       (\<lambda>e. e\<lparr>e_status := ''dispatch_started'', e_dispatch_count := dispatch_count\<rparr>) db1) (\<lambda>db'.
     and_then (require (changed selected (effects db1) = 1)
       (Corrupt ''effect dispatch compare-and-set failed'')) (\<lambda>_.
     Inr (Some \<lparr>pe_batch_id = bid, pe_effect_id = pr_effect_id p1,
                pe_binding = pr_binding p1, pe_binding_revision = pr_binding_revision p1,
                pe_request = pr_request p1, pe_recovery = pr_recovery p1,
                pe_dispatch_count = dispatch_count, pe_transition_version = tv\<rparr>,
          p1\<lparr>pr_status := DispatchStarted, pr_dispatch_count := dispatch_count\<rparr>,
          db'))))))) = Inr (pend, p', db')"
    using ok unfolding prepare_child_def by (auto elim!: and_then_InrE)
  have all: "db' = db\<lparr>effects := update_where (\<lambda>x. e_effect_id x = e_effect_id e) (dispatched phase) (effects db)\<rparr> \<and>
     constraints_ok db' \<and> prepared_shows C (dispatched phase e) p' \<and> preparable phase e \<and>
     pend = (if dispatches phase e then Some (pending_of bid tv p') else None)"
    using sd
  proof (cases rule: should_dispatch_cases)
    case dispatch
    let ?P = "\<lambda>e. e_effect_id e = to_string C (pr_effect_id p) \<and>
       e_status e = status_name (pr_status p) \<and> e_dispatch_count e = pr_dispatch_count p"
    obtain n u where n: "ok_or (checked_add_u64 (pr_dispatch_count p) 1) (Corrupt ''effect dispatch count overflowed'') = Inr n"
      and upd: "update_effects ?P (\<lambda>e. e\<lparr>e_status := ''dispatch_started'', e_dispatch_count := n\<rparr>) db = Inr db'"
      and one: "require (changed ?P (effects db) = 1) (Corrupt ''effect dispatch compare-and-set failed'') = Inr u"
      and res: "pend = Some \<lparr>pe_batch_id = bid, pe_effect_id = pr_effect_id p,
                pe_binding = pr_binding p, pe_binding_revision = pr_binding_revision p,
                pe_request = pr_request p, pe_recovery = pr_recovery p,
                pe_dispatch_count = n, pe_transition_version = tv\<rparr>"
        "p' = p\<lparr>pr_status := DispatchStarted, pr_dispatch_count := n\<rparr>"
      using rest dispatch(1) unfolding dispatch(2,3) Let_def by (auto elim!: and_then_InrE)
    have n': "n = pr_dispatch_count p + 1" using n by (simp add: ok_or_eq_Inr checked_add_u64_eq_Some)
    have d: "dispatches phase e" using dispatch(4) sh by (auto simp: dispatches_def)
    have one': "changed ?P (effects db) = 1" using one by (simp only: require_eq_Inr)
    have "db' = db\<lparr>effects := update_where (\<lambda>x. e_effect_id x = e_effect_id e)
        (\<lambda>e. e\<lparr>e_status := ''dispatch_started'', e_dispatch_count := n\<rparr>) (effects db)\<rparr> \<and> constraints_ok db'"
      by (rule update_effects_one [OF upd one' uniq, of "e_effect_id e"]) (use sh in auto)
    moreover have "update_where (\<lambda>x. e_effect_id x = e_effect_id e)
        (\<lambda>e. e\<lparr>e_status := ''dispatch_started'', e_dispatch_count := n\<rparr>) (effects db) =
      update_where (\<lambda>x. e_effect_id x = e_effect_id e) (dispatched phase) (effects db)"
      by (rule update_where_eq_on [OF uniq e(1)]) (use d n' sh in \<open>simp add: dispatched_def\<close>)
    moreover have "prepared_shows C (dispatched phase e) p'"
      using sh d n' by (simp add: prepared_shows_def dispatched_def res)
    moreover have "preparable phase e" using dispatch(4) sh by (auto simp: preparable_def)
    ultimately show ?thesis using d by (auto simp: res pending_of_def)
  next
    case unknown
    have nd: "\<not> dispatches phase e" using unknown sh by (simp add: dispatches_def)
    have "db1 = db\<lparr>effects := update_where (\<lambda>x. e_effect_id x = e_effect_id e)
        (\<lambda>x. x\<lparr>e_status := status_name EffectOutcomeUnknown\<rparr>) (effects db)\<rparr> \<and> constraints_ok db1"
      by (rule update_effect_status_eq [OF unknown(6) uniq]) (use sh in auto)
    moreover have "update_where (\<lambda>x. e_effect_id x = e_effect_id e)
        (\<lambda>x. x\<lparr>e_status := status_name EffectOutcomeUnknown\<rparr>) (effects db) =
      update_where (\<lambda>x. e_effect_id x = e_effect_id e) (dispatched phase) (effects db)"
      by (rule update_where_eq_on [OF uniq e(1)]) (use nd unknown sh in \<open>simp add: dispatched_def\<close>)
    moreover have "prepared_shows C (dispatched phase e) p1"
      using sh nd unknown by (simp add: prepared_shows_def dispatched_def)
    ultimately show ?thesis using rest nd unknown(1,3,4) sh by (auto simp: preparable_def)
  next
    case skip
    have nd: "\<not> dispatches phase e" "e_status e \<noteq> ''dispatch_started''" "e_status e \<noteq> ''intent_committed''"
      using skip sh by (auto simp: dispatches_def)
    then have id: "dispatched phase e = e" by (simp add: dispatched_def)
    then show ?thesis
      using rest skip nd con e(2) update_where_fixed [where f = "dispatched phase", OF uniq e(1) id] by (simp add: preparable_def)
  qed
  then show "db' = db\<lparr>effects := update_where (\<lambda>x. e_effect_id x = e_effect_id e) (dispatched phase) (effects db)\<rparr>"
    and "constraints_ok db'" and "prepared_shows C (dispatched phase e) p'" and "preparable phase e"
    and "pend = (if dispatches phase e then Some (pending_of bid tv p') else None)" by blast+
qed

lemma prepare_children_eq:
  assumes "prepare_children C phase bid tv stored db = Inr (pendings, stored', db')"
    and "constraints_ok db" and "list_all2 (prepared_shows C) es stored"
    and "set es \<subseteq> set (effects db)" and "distinct (map e_effect_id es)"
  shows "db' = db\<lparr>effects := update_where (\<lambda>x. e_effect_id x \<in> e_effect_id ` set es) (dispatched phase) (effects db)\<rparr>
    \<and> constraints_ok db' \<and> list_all2 (prepared_shows C) (map (dispatched phase) es) stored'
    \<and> (\<forall>e \<in> set es. preparable phase e)
    \<and> pendings = map (pending_of bid tv) (map snd (filter (\<lambda>(e, p). dispatches phase e) (zip es stored')))"
  using assms
proof (induction stored arbitrary: db es pendings stored' db')
  case Nil
  then show ?case by (simp add: update_where_def)
next
  case (Cons p stored)
  obtain e es' where es: "es = e # es'" and e: "prepared_shows C e p" and rest: "list_all2 (prepared_shows C) es' stored"
    using Cons.prems(3) by (auto simp: list_all2_Cons2)
  obtain pend p' db1 pendings1 stored1 where
      child: "prepare_child C phase bid tv p db = Inr (pend, p', db1)"
    and more: "prepare_children C phase bid tv stored db1 = Inr (pendings1, stored1, db')"
    and res: "pendings = (case pend of Some q \<Rightarrow> q # pendings1 | None \<Rightarrow> pendings1)" "stored' = p' # stored1"
    using Cons.prems(1) by (auto elim!: and_then_InrE)
  have mem: "e \<in> set (effects db)" "set es' \<subseteq> set (effects db)" using Cons.prems(4) es by auto
  note c = prepare_child_eq [OF child Cons.prems(2) mem(1) e]
  have ids: "e_effect_id e \<notin> e_effect_id ` set es'" "distinct (map e_effect_id es')"
    using Cons.prems(5) es by auto
  have "x \<in> set (effects db1)" if "x \<in> set es'" for x
  proof -
    have "e_effect_id x \<noteq> e_effect_id e" using ids(1) that by (metis image_eqI)
    then show ?thesis using mem(2) that by (force simp: c(1) update_where_mem)
  qed
  then have sub: "set es' \<subseteq> set (effects db1)" by blast
  note IH = Cons.IH [OF more c(2) rest sub ids(2)]
  have "update_where (\<lambda>x. e_effect_id x \<in> e_effect_id ` set es') (dispatched phase) (effects db1) =
      update_where (\<lambda>x. e_effect_id x \<in> e_effect_id ` set es) (dispatched phase) (effects db)"
    using update_where_insert [of e_effect_id "dispatched phase" "e_effect_id e" "e_effect_id ` set es'" "effects db"] ids(1)
    by (simp add: c(1) es)
  then have "db' = db\<lparr>effects := update_where (\<lambda>x. e_effect_id x \<in> e_effect_id ` set es) (dispatched phase) (effects db)\<rparr>"
    using IH c(1) by simp
  moreover have "pendings = map (pending_of bid tv) (map snd (filter (\<lambda>(e, p). dispatches phase e) (zip es stored')))"
    using IH c(5) by (auto simp: res es)
  ultimately show ?case using IH c(3,4) by (auto simp: res(2) es)
qed

lemma prepared_effect_shows:
  assumes C: "codec_ok C" and ok: "effect_ok C M e" and chk: "effect_checks e"
    and req: "e_request_json e \<noteq> None" and pos: "e_position e = int i"
  shows "\<exists>p. prepared_effect C (i, e) = Inr p \<and> prepared_shows C e p"
proof -
  obtain t v where t: "e_request_json e = Some t" "value_from_json C t = Some v"
    using ok req by (auto simp: effect_ok_def)
  obtain u where u: "e_effect_id e = to_string C u" using ok by (auto simp: effect_ok_def canonical_def)
  obtain rec st where cols: "e_recovery e = recovery_as_str rec" "e_status e = status_name st"
    using effect_columns(1,2) [OF chk] by blast
  show ?thesis
    by (simp add: prepared_effect_def t u cols child_position_ok [OF pos] parse_to_string [OF C]
        column_text effect_columns(3) [OF chk] prepared_shows_def)
qed

text \<open>The children of the current batch of an active operation can always be prepared.\<close>

lemma load_prepared_shows:
  assumes C: "codec_ok C" and inv: "kernel_inv C db"
    and r: "r \<in> set (operations db)" "o_operation_id r = to_string C oid" "active_phase (o_phase r)"
      "o_current_effect_batch_id r = Some (to_string C bid)"
  shows "\<exists>stored. load_prepared_effects C oid bid db = Inr stored \<and>
    list_all2 (prepared_shows C) (order_by e_position (children_of db (to_string C bid))) stored"
proof -
  let ?es = "children_of db (to_string C bid)"
  obtain b where b: "b \<in> set (batches_of db (o_operation_id r))" "b_batch_id b = to_string C bid"
    using batch_pointers_owned(1) [OF kernel_invD(3) [OF inv] r(1,4)] by auto
  have rows: "batch_children C oid bid db = order_by e_position ?es"
    by (rule batch_children_eq [OF kernel_inv_keys(7) [OF inv]]) (use b r(2) in \<open>auto simp: batches_of_def\<close>)
  have none: "o_outcome_json r = None" by (rule active_no_outcome [OF kernel_invD(10) [OF inv r(1)] r(3)])
  note own = owned_batch [OF inv r(1) b(1), unfolded b(2)]
  obtain M where M: "batch_ok C M ?es" using own(1) by blast
  show ?thesis
    unfolding load_prepared_effects_def rows
  proof (rule read_children [OF M])
    fix i e assume e: "e \<in> set ?es" and pos: "e_position e = int i"
    have "effect_ok C M e" using M e by (simp add: batch_ok_def)
    then show "\<exists>p. prepared_effect C (i, e) = Inr p \<and> prepared_shows C e p"
      by (rule prepared_effect_shows [OF C _ own(3) [OF e] _ pos]) (use own(2) [OF e] none in simp)
  qed
qed

lemma load_active_batch_row:
  assumes ok: "load_active_batch C oid tv msg db = Inr (phase, bid)"
    and C: "codec_ok C" and inv: "kernel_inv C db"
  obtains r where "r \<in> set (operations db)" and "o_operation_id r = to_string C oid"
    and "o_transition_version r = tv" and "o_phase r = phase_as_str phase"
    and "o_current_effect_batch_id r = Some (to_string C bid)"
proof -
  obtain r t where r: "find (\<lambda>r. o_operation_id r = to_string C oid \<and> o_transition_version r = tv)
        (operations db) = Some r"
    and t: "o_current_effect_batch_id r = Some t" "phase_from_database (o_phase r) = Inr phase"
      "parse_effect_batch_id C t = Inr bid"
    using ok unfolding load_active_batch_def by (auto simp: ok_or_eq_Inr elim!: and_then_InrE)
  note mem = find_SomeD [OF r]
  obtain u where u: "t = to_string C u"
    using pointer_canonical [OF inv _ disjI1 [OF t(1)]] mem by (auto simp: canonical_def)
  then have "u = bid" using t(3) parse_to_string(5) [OF C] by simp
  moreover have "o_phase r = phase_as_str phase" using t(2) phase_text.parse_iff by simp
  ultimately show thesis using that mem t(1) u by blast
qed

text \<open>What an invocation tells of the child it was made from.\<close>

definition pending_shows :: "('t, 'v) codec \<Rightarrow> EffectBatchId \<Rightarrow> i64 \<Rightarrow> 't effect_row \<Rightarrow> 'v PendingEffect \<Rightarrow> bool" where
  "pending_shows C bid tv e p \<longleftrightarrow>
     pe_batch_id p = bid \<and> pe_transition_version p = tv \<and>
     e_effect_id e = to_string C (pe_effect_id p) \<and> e_binding e = pe_binding p \<and>
     e_binding_revision e = pe_binding_revision p \<and> e_recovery e = recovery_as_str (pe_recovery p) \<and>
     (\<exists>t. e_request_json e = Some t \<and> value_from_json C t = Some (pe_request p)) \<and>
     e_dispatch_count e = pe_dispatch_count p"

lemma started_iff_dispatches:
  assumes "preparable phase e"
  shows "e_status (dispatched phase e) = ''dispatch_started'' \<longleftrightarrow> dispatches phase e"
  using assms by (auto simp: dispatched_def dispatches_def preparable_def)

text \<open>The invocations are the children marked as started, in order.\<close>

lemma pendings_show:
  assumes "list_all2 (prepared_shows C) (map (dispatched phase) es) stored"
    and "\<forall>e \<in> set es. preparable phase e"
  shows "list_all2 (pending_shows C bid tv)
      (filter (\<lambda>e. e_status e = ''dispatch_started'') (map (dispatched phase) es))
      (map (pending_of bid tv) (map snd (filter (\<lambda>(e, p). dispatches phase e) (zip es stored))))"
  using assms
proof (induction es arbitrary: stored)
  case (Cons e es)
  then obtain p ps where s: "stored = p # ps" "prepared_shows C (dispatched phase e) p"
      "list_all2 (prepared_shows C) (map (dispatched phase) es) ps"
    by (auto simp: list_all2_Cons1)
  have "pending_shows C bid tv (dispatched phase e) (pending_of bid tv p)"
    using s(2) by (simp add: pending_shows_def pending_of_def prepared_shows_def)
  then show ?case
    using Cons.IH [OF s(3)] Cons.prems(2) started_iff_dispatches [of phase e] by (simp add: s(1))
qed simp

lemma dispatched_step:
  assumes ok: "effect_ok C M e" and pre: "preparable phase e"
    and rec: "e_recovery e \<in> {''safe_to_replay'', ''never_replay''}" "0 \<le> e_dispatch_count e"
  shows "child_step C e (dispatched phase e)"
proof -
  have "dispatch_ok (dispatched phase e)"
    using ok pre rec by (auto simp: effect_ok_def dispatch_ok_def dispatched_def dispatches_def preparable_def)
  then show ?thesis using ok by (simp add: child_step_def effect_ok_def)
qed

lemma dispatched_not_intent: "preparable phase e \<Longrightarrow> e_status (dispatched phase e) \<noteq> ''intent_committed''"
  by (auto simp: dispatched_def dispatches_def preparable_def)

text \<open>What a successful preparation did.\<close>

definition started_row :: "'t operation_row \<Rightarrow> 't operation_row" where
  "started_row r = r\<lparr>o_phase := ''effect_dispatched'', o_transition_version := o_transition_version r + 1\<rparr>"

lemma prepare_effect_batch_cases:
  assumes ok: "prepare_effect_batch C oid tv db = Inr (start, db')" and C: "codec_ok C" and inv: "kernel_inv C db"
  obtains
    (cancelled) "cancellation_requested C oid db" and "start = StartCancellationPending" and "db' = db"
  | (prepared) r bid phase pendings stored db1 where "\<not> cancellation_requested C oid db"
      and "r \<in> set (operations db)" and "o_operation_id r = to_string C oid"
      and "o_transition_version r = tv" and "o_phase r = phase_as_str phase"
      and "o_current_effect_batch_id r = Some (to_string C bid)"
      and "phase = EffectIntent \<or> phase = EffectDispatched"
      and "db1 = db\<lparr>effects := update_where (\<lambda>x. e_batch_id x = to_string C bid) (dispatched phase) (effects db)\<rparr>"
      and "constraints_ok db1"
      and "\<And>e. e \<in> set (children_of db (to_string C bid)) \<Longrightarrow> preparable phase e"
      and "list_all2 (prepared_shows C)
        (map (dispatched phase) (order_by e_position (children_of db (to_string C bid)))) stored"
      and "list_all2 (pending_shows C bid (tv + 1)) (filter (\<lambda>e. e_status e = ''dispatch_started'')
        (map (dispatched phase) (order_by e_position (children_of db (to_string C bid))))) pendings"
      and "if pendings = []
        then finish_batch_without_invocations C oid bid tv stored db1 = Inr (start, db')
        else start = Invoke \<lparr>pb_batch_id = bid, pb_effects = pendings\<rparr> \<and>
          db' = set_operation (to_string C oid) started_row db1 \<and> constraints_ok db'"
      and "pointers_ok db'"
proof -
  obtain nt where nt: "checked_add_i64 tv 1 = Some nt" using ok
    by (auto simp: prepare_effect_batch_def ok_or_eq_Inr elim!: and_then_InrE)
  then have nt': "nt = tv + 1" by (simp add: checked_add_i64_eq_Some)
  note ok1 = ok [unfolded prepare_effect_batch_def nt ok_or_simps and_then_simps nt']
  show thesis
  proof (cases "cancellation_requested C oid db")
    case True
    show thesis by (rule cancelled [OF True]) (use ok1 True in simp_all)
  next
    case False
    obtain phase bid where act: "load_active_batch C oid tv ''effect state changed before batch dispatch'' db = Inr (phase, bid)"
      using ok1 [unfolded if_not_P [OF False]] by (auto elim!: and_then_InrE)
    note ok2 = ok1 [unfolded if_not_P [OF False] act and_then_simps prod.case]
    have ph: "phase = EffectIntent \<or> phase = EffectDispatched" using ok2 by (auto split: if_splits)
    then have ph': "\<not> (phase \<noteq> EffectIntent \<and> phase \<noteq> EffectDispatched)" by blast
    obtain r where r: "r \<in> set (operations db)" "o_operation_id r = to_string C oid"
        "o_transition_version r = tv" "o_phase r = phase_as_str phase"
        "o_current_effect_batch_id r = Some (to_string C bid)"
      by (rule load_active_batch_row [OF act C inv])
    have active: "active_phase (o_phase r)" using ph by (auto simp: r(4) active_phase_def)
    let ?es = "order_by e_position (children_of db (to_string C bid))"
    obtain stored0 where st0: "load_prepared_effects C oid bid db = Inr stored0"
        "list_all2 (prepared_shows C) ?es stored0"
      using load_prepared_shows [OF C inv r(1,2) active r(5)] by blast
    note ok3 = ok2 [unfolded if_not_P [OF ph'] st0(1) and_then_simps]
    obtain pendings stored db1 where pc: "prepare_children C phase bid (tv + 1) stored0 db = Inr (pendings, stored, db1)"
      using ok3 by (auto elim!: and_then_InrE)
    note ok4 = ok3 [unfolded pc and_then_simps prod.case]
    have sub: "set ?es \<subseteq> set (effects db)" by (auto simp: children_of_def)
    note eq = prepare_children_eq [OF pc kernel_invD(2) [OF inv] st0(2) sub
        distinct_children [OF kernel_inv_keys(8) [OF inv]]]
    have db1: "db1 = db\<lparr>effects := update_where (\<lambda>x. e_batch_id x = to_string C bid) (dispatched phase) (effects db)\<rparr>"
      using eq children_by_id [OF kernel_inv_keys(8) [OF inv]] by simp
    have con1: "constraints_ok db1" and sh: "list_all2 (prepared_shows C) (map (dispatched phase) ?es) stored"
      and pre: "\<forall>e \<in> set ?es. preparable phase e"
      and pend: "pendings = map (pending_of bid (tv + 1)) (map snd (filter (\<lambda>(e, p). dispatches phase e) (zip ?es stored)))"
      using eq by blast+
    have fin: "(if pendings = []
        then finish_batch_without_invocations C oid bid tv stored db1 = Inr (start, db')
        else start = Invoke \<lparr>pb_batch_id = bid, pb_effects = pendings\<rparr> \<and>
          db' = set_operation (to_string C oid) started_row db1 \<and> constraints_ok db') \<and> pointers_ok db'"
    proof (cases "pendings = []")
      case True
      show ?thesis using ok4 [unfolded if_P [OF True]] True
        by (auto simp: commit_eq_Inr elim!: and_then_InrE)
    next
      case False
      let ?sel = "\<lambda>r. o_operation_id r = to_string C oid \<and> o_transition_version r = tv \<and>
        o_phase r = phase_as_str phase \<and> o_current_effect_batch_id r = Some (to_string C bid)"
      obtain db2 u where upd: "update_operations ?sel started_row db1 = Inr db2"
        and one: "require (changed ?sel (operations db1) = 1)
          (Corrupt ''operation batch dispatch compare-and-set failed'') = Inr u"
        and fin: "pointers_ok db2" "db' = db2" "start = Invoke \<lparr>pb_batch_id = bid, pb_effects = pendings\<rparr>"
        using ok4 [unfolded if_not_P [OF False] Let_def]
        by (auto simp: commit_eq_Inr started_row_def [abs_def] elim!: and_then_InrE)
      have one': "changed ?sel (operations db1) = 1" using one by (simp only: require_eq_Inr)
      show ?thesis using update_operations_one [OF con1 upd one', of "to_string C oid"] fin False by auto
    qed
    have psh: "list_all2 (pending_shows C bid (tv + 1)) (filter (\<lambda>e. e_status e = ''dispatch_started'')
        (map (dispatched phase) ?es)) pendings"
      unfolding pend by (rule pendings_show [OF sh pre])
    show thesis
      by (rule prepared [OF False r ph db1 con1 _ sh psh conjunct1 [OF fin] conjunct2 [OF fin]]) (use pre in simp)
  qed
qed

lemma finish_without_invocations_eq:
  assumes ok: "finish_batch_without_invocations C oid bid tv stored db = Inr (start, db')"
    and con: "constraints_ok db" and sh: "list_all2 (prepared_shows C) es stored"
  obtains blocked where "blocked = (\<exists>e \<in> set es. e_status e = ''outcome_unknown'')"
    and "\<And>e. e \<in> set es \<Longrightarrow> e_status e \<noteq> ''dispatch_started''"
    and "start = (if blocked then StartBlocked else StartSettled)"
    and "db' = set_operation (to_string C oid) (finished_row (to_string C bid) blocked) db"
    and "constraints_ok db'"
    and "\<exists>r \<in> set (operations db). o_operation_id r = to_string C oid \<and> o_phase r = ''effect_dispatched''"
proof -
  have status: "(\<exists>p \<in> set stored. pr_status p = st) \<longleftrightarrow> (\<exists>e \<in> set es. e_status e = status_name st)" for st
    using sh
  proof (induction rule: list_all2_induct)
    case (Cons e es p ps)
    then show ?case using status_text.show_inj by (auto simp: prepared_shows_def)
  qed simp
  let ?blocked = "list_ex (\<lambda>effect. pr_status effect = EffectOutcomeUnknown) stored"
  have no: "\<not> list_ex (\<lambda>effect. pr_status effect = DispatchStarted) stored"
    using ok by (auto simp: finish_batch_without_invocations_def)
  have t: "transition_finished_batch C oid bid tv ?blocked db = Inr db'"
      "start = (if ?blocked then StartBlocked else StartSettled)"
    using ok [unfolded finish_batch_without_invocations_def if_not_P [OF no] Let_def]
    by (auto elim!: and_then_InrE)
  note f = transition_finished_batch_eq [OF t(1) con]
  show thesis
  proof (rule that [OF _ _ t(2) f(1,2)])
    show "?blocked = (\<exists>e \<in> set es. e_status e = ''outcome_unknown'')"
      using status [of EffectOutcomeUnknown] by (simp add: list_ex_iff)
    show "e_status e \<noteq> ''dispatch_started''" if "e \<in> set es" for e
      using status [of DispatchStarted] no that by (auto simp: list_ex_iff)
  qed (use f(3) in blast)
qed

lemma started_row_step: "row_step r (started_row r)"
  by (simp add: row_step_def started_row_def)

lemma prepare_effect_batch_inv:
  assumes C: "codec_ok C" and inv: "kernel_inv C db"
    and ok: "prepare_effect_batch C oid tv db = Inr (start, db')"
  shows "kernel_inv C db'"
  using ok C inv
proof (cases rule: prepare_effect_batch_cases)
  case cancelled
  then show ?thesis using inv by simp
next
  case (prepared r bid phase pendings stored db1)
  let ?b = "to_string C bid" and ?o = "to_string C oid" and ?h = "dispatched phase"
  let ?es = "children_of db ?b"
  have act: "active_phase (o_phase r)" using prepared(5,7) by (auto simp: active_phase_def)
  note own = batch_pointers_owned(1) [OF kernel_invD(3) [OF inv] prepared(2,6)]
  have chk: "effect_checks e" if "e \<in> set ?es" for e
    using that constraints_okD(5) [OF kernel_invD(2) [OF inv]] by (simp add: list_all_iff children_of_def)
  have h: "child_step C e (?h e)" if e: "e \<in> set ?es" for e
    using child_effect_ok [OF inv prepared(2) own e] dispatched_step [OF _ prepared(10) [OF e], of C]
      chk [OF e] by (auto simp: effect_checks_def)
  have same: "operations db1 = operations db" by (simp add: prepared(8))
  have inp: "o_input_effect_batch_id r = None"
    using kernel_invD(10) [OF inv prepared(2)] prepared(5,7) by (auto simp: op_ok_def pointers_match_def)
  have keep: "set_operation ?o f db1 = batch_change ?b ?h ?o f db" if "row_step r (f r)" for f
    using set_operation_keeps [where f = f, OF inv prepared(2) act same that] prepared(3)
    by (simp add: prepared(8) batch_change_def)
  have step: "kernel_inv C (batch_change ?b ?h ?o f db)"
    if "schema_ok (batch_change ?b ?h ?o f db)" "row_step r (f r)" "phase_shows ?b (f r) (map ?h ?es)" for f
    by (rule batch_step_inv [where f = f and h = ?h, OF inv that(1) prepared(2,3) act prepared(6) that(2) h that(3)])
  show ?thesis
  proof (cases "pendings = []")
    case True
    have fin: "finish_batch_without_invocations C oid bid tv stored db1 = Inr (start, db')"
      using prepared(13) True by simp
    obtain blocked where bl: "blocked = (\<exists>e \<in> set (map ?h (order_by e_position ?es)). e_status e = ''outcome_unknown'')"
      "\<And>e. e \<in> set (map ?h (order_by e_position ?es)) \<Longrightarrow> e_status e \<noteq> ''dispatch_started''"
      "start = (if blocked then StartBlocked else StartSettled)"
      "db' = set_operation ?o (finished_row ?b blocked) db1" "constraints_ok db'"
      by (rule finish_without_invocations_eq [OF fin prepared(9,11)]) blast
    have db': "db' = batch_change ?b ?h ?o (finished_row ?b blocked) db"
      using bl(4) keep [of "finished_row ?b blocked", OF finished_row_step] by simp
    have st: "e_status e \<in> {''settled'', ''outcome_unknown''}" if mem: "e \<in> set (map ?h ?es)" for e
    proof -
      obtain e0 where e0: "e0 \<in> set ?es" "e = ?h e0" using mem by auto
      have "?h e0 \<in> set (effects db1)" using e0(1) by (auto simp: prepared(8) update_where_mem children_of_def)
      then show ?thesis
        using status_cases [OF prepared(9)] bl(2) [of e] dispatched_not_intent [OF prepared(10) [OF e0(1)]] e0
        by auto
    qed
    have "phase_shows ?b (finished_row ?b blocked r) (map ?h ?es)"
      using st bl(1) by (cases blocked) (auto simp: phase_shows_def finished_row_def all_settled_def)
    then show ?thesis
      using step [of "finished_row ?b blocked", OF _ finished_row_step] bl(5) prepared(14) by (simp add: db' schema_ok_def)
  next
    case False
    have db': "db' = batch_change ?b ?h ?o started_row db" "constraints_ok db'"
      using prepared(13) False keep [of started_row, OF started_row_step] by auto
    have "phase_shows ?b (started_row r) (map ?h ?es)"
      using dispatched_not_intent [OF prepared(10)] inp prepared(6) by (auto simp: phase_shows_def started_row_def)
    then show ?thesis
      using step [of started_row, OF _ started_row_step] db' prepared(14) by (simp add: schema_ok_def)
  qed
qed

end
