(* ===== verification/Kernel_Cancellation.thy ===== *)
theory Kernel_Cancellation
  imports Kernel_Dispatch
begin

section \<open>Cancellation\<close>

text \<open>
  \<open>cancellation.rs\<close> and \<open>cancellation/store.rs\<close>: the durable request to cancel one exact
  operation, the load that closes its dispatched batch and hands the loop what it needs to close
  its own state, and the transaction that settles the cancellation. The result of
  \<open>request_cancellation_tx\<close> says whether the running operation is signalled after the commit.
\<close>

record 'v PendingCancellation =
  pc_input :: "'v CancellationInput"
  pc_manifest :: RuntimeManifest
  pc_transition_version :: i64
  pc_event_high_water :: u64

definition request_cancellation_tx ::
    "('t, 'v) codec \<Rightarrow> SessionId \<Rightarrow> OperationId \<Rightarrow> CancellationId \<Rightarrow> 't db \<Rightarrow>
     (bool \<times> 't db) kernel_result" where
  "request_cancellation_tx C session_id operation_id cancellation_id db =
     (let session_key = to_string C session_id; operation_key = to_string C operation_id in
      case find (\<lambda>x. x_cancellation_id x = to_string C cancellation_id)
             (cancellation_requests db) of
        Some x \<Rightarrow>
          if x_session_id x \<noteq> session_key \<or> x_operation_id x \<noteq> operation_key
          then and_then (parse_operation_id C (x_operation_id x)) (\<lambda>stored_operation.
            Inl (CancellationConflict cancellation_id stored_operation))
          else
          and_then (ok_or (find (\<lambda>s. s_session_id s = session_key) (sessions db))
            (SessionNotFound session_id)) (\<lambda>s.
          Inr (s_active_operation_id s = Some operation_key, db))
      | None \<Rightarrow>
          (case first_row [(r, s). r \<leftarrow> operations db, o_session_id r = session_key,
              o_operation_id r = operation_key,
              s \<leftarrow> sessions db, s_session_id s = o_session_id r] of
             None \<Rightarrow> Inl (OperationNotCancellable operation_id)
           | Some (r, s) \<Rightarrow>
               and_then (phase_from_database (o_phase r)) (\<lambda>phase.
               if phase \<noteq> Queued \<and>
                  (s_active_operation_id s \<noteq> Some operation_key \<or> \<not> is_cancellable phase)
               then Inl (OperationNotCancellable operation_id)
               else
               and_then (execute (db\<lparr>cancellation_requests := cancellation_requests db @
                 [\<lparr>x_cancellation_id = to_string C cancellation_id, x_session_id = session_key,
                   x_operation_id = operation_key\<rparr>]\<rparr>)) (\<lambda>db.
               and_then (commit db) (\<lambda>db. Inr (True, db))))))"

subsection \<open>The batch a cancelled operation was in\<close>

fun is_settled :: "'v EffectFact \<Rightarrow> bool" where
  "is_settled (FactSettled _) = True"
| "is_settled _ = False"

fun is_not_dispatched :: "'v EffectFact \<Rightarrow> bool" where
  "is_not_dispatched (NotDispatched _) = True"
| "is_not_dispatched _ = False"

fun is_outcome_unknown :: "'v EffectFact \<Rightarrow> bool" where
  "is_outcome_unknown (FactOutcomeUnknown _) = True"
| "is_outcome_unknown _ = False"

text \<open>An unknown batch: some child is unknown, and every child is settled or unknown.\<close>

definition unknown_batch :: "'v EffectFact list \<Rightarrow> bool" where
  "unknown_batch facts \<longleftrightarrow>
     list_ex is_outcome_unknown facts \<and>
     list_all (\<lambda>fact. is_settled fact \<or> is_outcome_unknown fact) facts"

definition cancellation_batch_id ::
    "OperationPhase \<Rightarrow> EffectBatchId option \<Rightarrow> EffectBatchId option \<Rightarrow>
     EffectBatchId option kernel_result" where
  "cancellation_batch_id phase current_batch_id input_batch_id =
     (if phase = NeedDecision then
        (case input_batch_id of
           None \<Rightarrow>
             if current_batch_id \<noteq> None
             then Inl (Corrupt ''decision phase contains a current effect batch'')
             else Inr None
         | Some batch_id \<Rightarrow>
             if current_batch_id \<noteq> None
             then Inl (Corrupt ''decision phase contains both current and input effect batches'')
             else Inr (Some batch_id))
      else if phase = EffectIntent \<or> phase = OutcomeUnknown then
        (if input_batch_id \<noteq> None
         then Inl (Corrupt ''active effect phase contains settled batch input'')
         else and_then (ok_or current_batch_id (Corrupt ''active effect batch identity is missing''))
           (\<lambda>batch_id. Inr (Some batch_id)))
      else Inl (Corrupt ''phase cannot be closed by cancellation''))"

definition load_cancellation_effect_batch ::
    "('t, 'v) codec \<Rightarrow> OperationId \<Rightarrow> OperationPhase \<Rightarrow> EffectBatchId option \<Rightarrow>
     EffectBatchId option \<Rightarrow> RuntimeManifest \<Rightarrow> 't db \<Rightarrow> 'v EffectBatchFacts option kernel_result" where
  "load_cancellation_effect_batch C operation_id phase current_batch_id input_batch_id manifest db =
     and_then (cancellation_batch_id phase current_batch_id input_batch_id) (\<lambda>selected.
     case selected of
       None \<Rightarrow> Inr None
     | Some batch_id \<Rightarrow>
         and_then (load_effect_batch_facts C operation_id batch_id (Some manifest) db) (\<lambda>facts.
         let valid = (case phase of
             NeedDecision \<Rightarrow> list_all is_settled (bf_effects facts)
           | EffectIntent \<Rightarrow> list_all is_not_dispatched (bf_effects facts)
           | OutcomeUnknown \<Rightarrow> unknown_batch (bf_effects facts)
           | _ \<Rightarrow> False) in
         if \<not> valid
         then Inl (Corrupt ''cancellation effect batch differs from durable operation state'')
         else Inr (Some facts)))"

subsection \<open>Loading and settling a requested cancellation\<close>

text \<open>
  A dispatched batch is closed in the same transaction: its started children become unknown, and
  the operation moves to the phase its children now call for.
\<close>

definition close_stored_batch ::
    "('t, 'v) codec \<Rightarrow> OperationId \<Rightarrow> 'v StoredOperation \<Rightarrow> 't db \<Rightarrow>
     ('v StoredOperation \<times> 't db) kernel_result" where
  "close_stored_batch C operation_id stored db =
     (if so_phase stored \<noteq> EffectDispatched then Inr (stored, db)
      else
      and_then (ok_or (so_current_effect_batch_id stored)
        (Corrupt ''dispatched operation has no current effect batch'')) (\<lambda>batch_id.
      and_then (close_dispatched_batch_for_cancellation C operation_id batch_id
        (so_transition_version stored) db) (\<lambda>(phase, db).
      and_then (ok_or (checked_add_i64 (so_transition_version stored) 1)
        (Corrupt ''transition version overflowed'')) (\<lambda>next_version.
      let stored = stored\<lparr>so_phase := phase, so_transition_version := next_version\<rparr> in
      Inr (if phase = NeedDecision
           then stored\<lparr>so_current_effect_batch_id := None,
                       so_input_effect_batch_id := Some batch_id\<rparr>
           else stored, db)))))"

definition load_requested_cancellation ::
    "('t, 'v) codec \<Rightarrow> SessionId \<Rightarrow> OperationId \<Rightarrow> 't db \<Rightarrow>
     ('v PendingCancellation option \<times> 't db) kernel_result" where
  "load_requested_cancellation C session_id operation_id db =
     (if \<not> cancellation_requested C operation_id db then Inr (None, db)
      else
      and_then (ok_or (find (\<lambda>s. s_session_id s = to_string C session_id) (sessions db))
        (SessionNotFound session_id)) (\<lambda>session.
      if s_active_operation_id session \<noteq> Some (to_string C operation_id)
      then Inl (Corrupt ''cancelled operation no longer owns its session'')
      else
      and_then (load_operation C session_id operation_id db) (\<lambda>loaded.
      and_then (ok_or loaded (Corrupt ''cancelled operation is missing'')) (\<lambda>stored.
      if \<not> is_cancellable (so_phase stored) \<or> so_outcome stored \<noteq> None
      then Inl (Corrupt ''cancellation request targets a non-cancellable operation'')
      else
      and_then (close_stored_batch C operation_id stored db) (\<lambda>(stored, db).
      and_then (ok_or (so_manifest stored) (Corrupt ''cancelled operation has no manifest''))
        (\<lambda>manifest.
      and_then (load_cancellation_effect_batch C operation_id (so_phase stored)
        (so_current_effect_batch_id stored) (so_input_effect_batch_id stored) manifest db)
        (\<lambda>effect_batch.
      and_then (load_event_page C session_id EventCursor_START db) (\<lambda>page.
      and_then (parse_agent_id C (s_agent_id session)) (\<lambda>agent_id.
      and_then (commit db) (\<lambda>db.
      Inr (Some \<lparr>pc_input = \<lparr>ci_agent_id = agent_id, ci_session_id = session_id,
                   ci_operation_id = operation_id, ci_command = so_command stored,
                   ci_events = page_events page, ci_checkpoint = so_checkpoint stored,
                   ci_effect_batch = effect_batch\<rparr>,
                 pc_manifest = manifest,
                 pc_transition_version = so_transition_version stored,
                 pc_event_high_water = next_cursor page\<rparr>, db)))))))))))"

definition commit_cancellation ::
    "('t, 'v) codec \<Rightarrow> (nat \<Rightarrow> EventId) \<Rightarrow> SessionId \<Rightarrow> OperationId \<Rightarrow> i64 \<Rightarrow> u64 \<Rightarrow>
     'v CancellationTransition \<Rightarrow> 't db \<Rightarrow> (unit \<times> 't db) kernel_result" where
  "commit_cancellation C new_id session_id operation_id expected_transition
     expected_event_high_water transition db =
     and_then (ok_or (find (\<lambda>s. s_session_id s = to_string C session_id \<and>
         s_active_operation_id s = Some (to_string C operation_id)) (sessions db))
       (Corrupt ''cancelled operation lost ownership'')) (\<lambda>session.
     and_then (from_sql_integer (s_next_event_sequence session) ''event high-water mark'')
       (\<lambda>event_high_water.
     if event_high_water \<noteq> expected_event_high_water
     then Inl (Corrupt ''semantic history changed during cancellation'')
     else if \<not> cancellation_requested C operation_id db
     then Inl (Corrupt ''cancellation request disappeared before settlement'')
     else
     and_then (ok_or (find (\<lambda>r. o_session_id r = to_string C session_id \<and>
         o_operation_id r = to_string C operation_id \<and>
         o_transition_version r = expected_transition \<and> o_outcome_json r = None)
         (operations db)) (Corrupt ''cancelled operation changed'')) (\<lambda>operation.
     and_then (phase_from_database (o_phase operation)) (\<lambda>phase.
     if \<not> is_cancellable phase
     then Inl (Corrupt ''cancelled operation reached a terminal phase'')
     else
     and_then (append_events C new_id session_id operation_id (ct_events transition) db) (\<lambda>db.
     and_then (encode (checkpoint_to_json C) (ct_checkpoint transition)) (\<lambda>checkpoint_json.
     and_then (encode (outcome_to_json C) OutcomeCancelled) (\<lambda>outcome_json.
     let selected = (\<lambda>r. o_session_id r = to_string C session_id \<and>
       o_operation_id r = to_string C operation_id \<and>
       o_transition_version r = expected_transition \<and> o_phase r = o_phase operation) in
     and_then (update_operations selected
       (\<lambda>r. r\<lparr>o_phase := ''cancelled'', o_checkpoint_json := Some checkpoint_json,
               o_current_effect_batch_id := None, o_input_effect_batch_id := None,
               o_outcome_json := Some outcome_json,
               o_transition_version := o_transition_version r + 1\<rparr>) db) (\<lambda>db'.
     and_then (require (changed selected (operations db) = 1)
       (Corrupt ''cancellation compare-and-set failed'')) (\<lambda>_.
     and_then (clear_active C session_id operation_id
       ''cancelled operation did not own its session'' db') (\<lambda>db.
     and_then (commit db) (\<lambda>db.
     Inr ((), db))))))))))))"

subsection \<open>Requests keep the invariant\<close>

lemma request_cancellation_cases:
  assumes ok: "request_cancellation_tx C session_id operation_id cancellation_id db = Inr (signal, db')"
  obtains
    (repeated) x where "x \<in> set (cancellation_requests db)"
      and "x_cancellation_id x = to_string C cancellation_id"
      and "x_session_id x = to_string C session_id" and "x_operation_id x = to_string C operation_id"
      and "db' = db"
  | (requested) r s phase where "r \<in> set (operations db)" and "o_session_id r = to_string C session_id"
      and "o_operation_id r = to_string C operation_id"
      and "s \<in> set (sessions db)" and "s_session_id s = to_string C session_id"
      and "o_phase r = phase_as_str phase"
      and "phase = Queued \<or> (s_active_operation_id s = Some (to_string C operation_id) \<and> is_cancellable phase)"
      and "db' = db\<lparr>cancellation_requests := cancellation_requests db @
        [\<lparr>x_cancellation_id = to_string C cancellation_id, x_session_id = to_string C session_id,
          x_operation_id = to_string C operation_id\<rparr>]\<rparr>"
      and "schema_ok db'" and "signal"
proof (cases "find (\<lambda>x. x_cancellation_id x = to_string C cancellation_id) (cancellation_requests db)")
  case (Some x)
  note mem = find_SomeD [OF Some]
  have k: "x_session_id x = to_string C session_id" "x_operation_id x = to_string C operation_id" "db' = db"
    using ok Some by (auto simp: request_cancellation_tx_def Let_def elim!: and_then_InrE split: if_splits)
  show thesis by (rule repeated [of x]) (use mem k in simp_all)
next
  case None
  let ?rows = "[(r, s). r \<leftarrow> operations db, o_session_id r = to_string C session_id,
     o_operation_id r = to_string C operation_id, s \<leftarrow> sessions db, s_session_id s = o_session_id r]"
  note ok1 = ok [unfolded request_cancellation_tx_def Let_def None option.case]
  obtain row where row0: "first_row ?rows = Some row"
    using ok1 by (cases "first_row ?rows") (simp_all only: option.case sum.distinct)
  obtain r s where rs: "row = (r, s)" by force
  note row = row0 [unfolded rs]
  have mem: "r \<in> set (operations db)" "o_session_id r = to_string C session_id"
    "o_operation_id r = to_string C operation_id" "s \<in> set (sessions db)" "s_session_id s = to_string C session_id"
    using first_row_Some_mem [OF row] by auto
  note ok2 = ok1 [unfolded row option.case prod.case]
  obtain phase where ph: "phase_from_database (o_phase r) = Inr phase"
    using ok2 by (auto elim: and_then_InrE)
  note ok3 = ok2 [unfolded ph and_then_simps]
  have guard: "\<not> (phase \<noteq> Queued \<and> (s_active_operation_id s \<noteq> Some (to_string C operation_id) \<or> \<not> is_cancellable phase))"
    using ok3 by (auto split: if_splits)
  have fin: "db' = db\<lparr>cancellation_requests := cancellation_requests db @
        [\<lparr>x_cancellation_id = to_string C cancellation_id, x_session_id = to_string C session_id,
          x_operation_id = to_string C operation_id\<rparr>]\<rparr> \<and> schema_ok db' \<and> signal"
    using ok3 [unfolded if_not_P [OF guard]]
    by (auto simp: execute_eq_Inr commit_eq_Inr schema_ok_def elim!: and_then_InrE)
  show thesis
    by (rule requested [OF mem]) (use ph phase_text.parse_iff guard fin in auto)
qed

lemma request_cancellation_inv:
  assumes inv: "kernel_inv C db"
    and ok: "request_cancellation_tx C session_id operation_id cancellation_id db = Inr (signal, db')"
  shows "kernel_inv C db'"
  using ok
proof (cases rule: request_cancellation_cases)
  case (requested r s phase)
  have "ops_of db' = ops_of db" "events_of db' = events_of db"
      "batches_of db' = batches_of db" "children_of db' = children_of db"
    by (rule view_eqs, simp add: requested(8))+
  then show ?thesis using inv requested(9) unfolding kernel_inv_def by (simp add: requested(8))
qed (use inv in simp)

subsection \<open>The loads of a requested cancellation\<close>

lemma load_requested_cancellation_cases:
  assumes ok: "load_requested_cancellation C session_id operation_id db = Inr (loaded, db')"
    and C: "codec_ok C" and inv: "kernel_inv C db"
  obtains
    (none) "\<not> cancellation_requested C operation_id db" and "loaded = None" and "db' = db"
  | (pending) s r stored stored' p where "cancellation_requested C operation_id db"
      and "s \<in> set (sessions db)" and "s_session_id s = to_string C session_id"
      and "s_active_operation_id s = Some (to_string C operation_id)"
      and "r \<in> set (operations db)" and "o_operation_id r = to_string C operation_id"
      and "o_session_id r = to_string C session_id" and "stored_shows C r stored"
      and "close_stored_batch C operation_id stored db = Inr (stored', db')"
      and "pointers_ok db'" and "loaded = Some p"
      and "so_manifest stored' = Some (pc_manifest p)"
      and "pc_transition_version p = so_transition_version stored'"
      and "so_phase stored' \<noteq> EffectDispatched"
proof (cases "cancellation_requested C operation_id db")
  case False
  show thesis by (rule none [OF False]) (use ok False in \<open>simp_all add: load_requested_cancellation_def\<close>)
next
  case True
  then have nT: "\<not> \<not> cancellation_requested C operation_id db" by simp
  note ok1 = ok [unfolded load_requested_cancellation_def if_not_P [OF nT]]
  obtain s where fs: "find (\<lambda>s. s_session_id s = to_string C session_id) (sessions db) = Some s"
    using ok1 by (auto simp: ok_or_eq_Inr elim!: and_then_InrE)
  note s = find_SomeD [OF fs]
  note ok2 = ok1 [unfolded fs ok_or_simps and_then_simps]
  have active: "s_active_operation_id s = Some (to_string C operation_id)"
    using ok2 by (auto split: if_splits)
  then have nA: "\<not> s_active_operation_id s \<noteq> Some (to_string C operation_id)" by simp
  obtain r where r: "r \<in> set (operations db)" "o_session_id r = s_session_id s" "o_operation_id r = to_string C operation_id"
    using kernel_invD(3) [OF inv] s active unfolding pointers_ok_iff by blast
  obtain stored where st: "load_operation C session_id operation_id db = Inr (Some stored)" "stored_shows C r stored"
    using load_operation_shows [OF C inv r(1) _ r(3)] r(2) s by auto
  note ok3 = ok2 [unfolded if_not_P [OF nA] st(1) ok_or_simps and_then_simps]
  obtain stored' db1 p where close: "close_stored_batch C operation_id stored db = Inr (stored', db1)"
    and rest: "db' = db1" "pointers_ok db1" "loaded = Some p" "so_manifest stored' = Some (pc_manifest p)"
      "pc_transition_version p = so_transition_version stored'"
    and batch: "\<exists>b. cancellation_batch_id (so_phase stored') (so_current_effect_batch_id stored')
        (so_input_effect_batch_id stored') = Inr b"
    using ok3
    by (auto simp: commit_eq_Inr ok_or_eq_Inr load_cancellation_effect_batch_def
        elim!: and_then_InrE split: if_splits)
  have "so_phase stored' \<noteq> EffectDispatched" using batch by (auto simp: cancellation_batch_id_def)
  then show thesis
    using pending [OF True _ _ active r(1,3) _ st(2), of stored'] close rest s r(2) by auto
qed

lemma load_requested_cancellation_inv:
  assumes C: "codec_ok C" and inv: "kernel_inv C db"
    and ok: "load_requested_cancellation C session_id operation_id db = Inr (loaded, db')"
  shows "kernel_inv C db'"
  using ok C inv
proof (cases rule: load_requested_cancellation_cases)
  case (pending s r stored stored' p)
  show ?thesis
  proof (cases "so_phase stored = EffectDispatched")
    case False
    then show ?thesis using pending(9) inv by (auto simp: close_stored_batch_def)
  next
    case True
    then obtain bid phase where
      "close_dispatched_batch_for_cancellation C operation_id bid (so_transition_version stored) db = Inr (phase, db')"
      using pending(9) by (auto simp: close_stored_batch_def Let_def elim!: and_then_InrE)
    then show ?thesis using close_dispatched_batch_inv [OF inv] pending(10) by blast
  qed
qed (use inv in simp)

text \<open>The row of an operation that a cancellation or an abandonment closed.\<close>

definition closed_row :: "string \<Rightarrow> 't \<Rightarrow> 't \<Rightarrow> 't operation_row \<Rightarrow> 't operation_row" where
  "closed_row phase checkpoint_json outcome_json r =
     r\<lparr>o_phase := phase, o_checkpoint_json := Some checkpoint_json,
        o_current_effect_batch_id := None, o_input_effect_batch_id := None,
        o_outcome_json := Some outcome_json, o_transition_version := o_transition_version r + 1\<rparr>"

text \<open>The end both closures share: append, close the row by compare-and-set, release the session.\<close>

lemma close_operation_eq:
  assumes con: "constraints_ok db"
    and app: "append_events C ids session_id operation_id events db = Inr db1"
    and upd: "update_operations P (closed_row phase cpj ocj) db1 = Inr db2"
    and one: "changed P (operations db1) = 1"
    and key: "\<And>r. P r \<Longrightarrow> o_operation_id r = to_string C operation_id"
    and clear: "clear_active C session_id operation_id message db2 = Inr db'" and ptr: "pointers_ok db'"
  obtains s r where "s \<in> set (sessions db)" and "s_session_id s = to_string C session_id"
    and "s_active_operation_id s = Some (to_string C operation_id)"
    and "r \<in> set (operations db)" and "P r"
    and "db' = (let db2 = set_operation (to_string C operation_id) (closed_row phase cpj ocj)
        (after_append C session_id (appended C ids session_id operation_id (s_next_event_sequence s) events) db) in
      db2\<lparr>sessions := update_where (\<lambda>s. s_session_id s = to_string C session_id)
        (\<lambda>s. s\<lparr>s_active_operation_id := None\<rparr>) (sessions db2)\<rparr>)"
    and "schema_ok db'"
proof -
  obtain s where s: "s \<in> set (sessions db)" "s_session_id s = to_string C session_id"
    and db1: "db1 = after_append C session_id
      (appended C ids session_id operation_id (s_next_event_sequence s) events) db"
    and con1: "constraints_ok db1"
    by (rule append_events_eq [OF app schema_keys(2) [OF con]])
  note u = update_operations_one [OF con1 upd one key]
  obtain r where r: "r \<in> set (operations db)" "P r" using u(3) by (auto simp: db1)
  obtain s2 where s2: "s2 \<in> set (sessions db2)" "s_session_id s2 = to_string C session_id"
      "s_active_operation_id s2 = Some (to_string C operation_id)"
    and db': "db' = db2\<lparr>sessions := update_where (\<lambda>s. s_session_id s = to_string C session_id)
        (\<lambda>s. s\<lparr>s_active_operation_id := None\<rparr>) (sessions db2)\<rparr>" and con': "constraints_ok db'"
    by (rule clear_active_eq [OF clear schema_keys(2) [OF u(2)]])
  have "sessions db2 = sessions db1" using u(1) by simp
  then obtain s0 where s0: "s0 \<in> set (sessions db)" "s_session_id s0 = to_string C session_id"
      "s_active_operation_id s0 = Some (to_string C operation_id)"
    using update_sessions_active s2 unfolding db1 by metis
  have "s0 = s" using unique_onD [OF schema_keys(2) [OF con] s0(1) s(1)] s0(2) s(2) by simp
  then show thesis
    using that [OF s _ r] s0(3) db' u(1) db1 con' ptr by (simp add: Let_def schema_ok_def)
qed

lemma commit_cancellation_cases:
  assumes ok: "commit_cancellation C ids session_id operation_id tv hw transition db = Inr (u, db')"
    and con: "constraints_ok db"
  obtains s r phase cpj ocj where "cancellation_requested C operation_id db"
    and "s \<in> set (sessions db)" and "s_session_id s = to_string C session_id"
    and "s_active_operation_id s = Some (to_string C operation_id)"
    and "r \<in> set (operations db)" and "o_operation_id r = to_string C operation_id"
    and "o_session_id r = to_string C session_id" and "o_transition_version r = tv"
    and "o_phase r = phase_as_str phase" and "is_cancellable phase"
    and "checkpoint_to_json C (ct_checkpoint transition) = Some cpj"
    and "outcome_to_json C OutcomeCancelled = Some ocj"
    and "db' = (let db2 = set_operation (to_string C operation_id) (closed_row ''cancelled'' cpj ocj)
        (after_append C session_id
          (appended C ids session_id operation_id (s_next_event_sequence s) (ct_events transition)) db) in
      db2\<lparr>sessions := update_where (\<lambda>s. s_session_id s = to_string C session_id)
        (\<lambda>s. s\<lparr>s_active_operation_id := None\<rparr>) (sessions db2)\<rparr>)"
    and "schema_ok db'"
proof -
  obtain s0 hw' r0 phase where
    fs: "find (\<lambda>s. s_session_id s = to_string C session_id \<and>
         s_active_operation_id s = Some (to_string C operation_id)) (sessions db) = Some s0"
    and hw: "from_sql_integer (s_next_event_sequence s0) ''event high-water mark'' = Inr hw'" "hw' = hw"
    and req: "cancellation_requested C operation_id db"
    and fr: "find (\<lambda>r. o_session_id r = to_string C session_id \<and>
         o_operation_id r = to_string C operation_id \<and>
         o_transition_version r = tv \<and> o_outcome_json r = None) (operations db) = Some r0"
    and ph: "phase_from_database (o_phase r0) = Inr phase" "is_cancellable phase"
    using ok unfolding commit_cancellation_def
    by (auto simp: ok_or_eq_Inr elim!: and_then_InrE split: if_splits)
  note ok1 = ok [unfolded commit_cancellation_def fs hw fr ph(1) ok_or_simps and_then_simps]
  let ?sel = "\<lambda>r. o_session_id r = to_string C session_id \<and>
       o_operation_id r = to_string C operation_id \<and>
       o_transition_version r = tv \<and> o_phase r = o_phase r0"
  obtain db1 cpj ocj db2 where
    app: "append_events C ids session_id operation_id (ct_events transition) db = Inr db1"
    and cpj: "checkpoint_to_json C (ct_checkpoint transition) = Some cpj"
    and ocj: "outcome_to_json C OutcomeCancelled = Some ocj"
    and upd: "update_operations ?sel (closed_row ''cancelled'' cpj ocj) db1 = Inr db2"
    and one: "changed ?sel (operations db1) = 1"
    and clear: "clear_active C session_id operation_id ''cancelled operation did not own its session'' db2 = Inr db'"
    and ptr: "pointers_ok db'"
    using ok1 req ph(2)
    by (auto simp: ok_or_eq_Inr require_eq_Inr commit_eq_Inr closed_row_def [abs_def] Let_def elim!: and_then_InrE)
  obtain s r where sr: "s \<in> set (sessions db)" "s_session_id s = to_string C session_id"
    "s_active_operation_id s = Some (to_string C operation_id)"
    "r \<in> set (operations db)" "?sel r"
    "db' = (let db2 = set_operation (to_string C operation_id) (closed_row ''cancelled'' cpj ocj)
        (after_append C session_id
          (appended C ids session_id operation_id (s_next_event_sequence s) (ct_events transition)) db) in
      db2\<lparr>sessions := update_where (\<lambda>s. s_session_id s = to_string C session_id)
        (\<lambda>s. s\<lparr>s_active_operation_id := None\<rparr>) (sessions db2)\<rparr>)"
    "schema_ok db'"
    by (rule close_operation_eq [OF con app upd one _ clear ptr]) auto
  have phr: "o_phase r0 = phase_as_str phase" using ph(1) phase_text.parse_iff by simp
  show thesis
    by (rule that [OF req sr(1-4) _ _ _ _ ph(2) cpj ocj sr(6,7)]) (use sr(5) phr in simp_all)
qed

text \<open>The version a pending cancellation was loaded at is not that of a dispatched batch.\<close>

definition batch_closed :: "('t, 'v) codec \<Rightarrow> OperationId \<Rightarrow> i64 \<Rightarrow> 't db \<Rightarrow> bool" where
  "batch_closed C operation_id version db \<longleftrightarrow>
     (\<forall>r \<in> set (operations db). o_operation_id r = to_string C operation_id \<longrightarrow>
        o_transition_version r = version \<longrightarrow> o_phase r \<noteq> ''effect_dispatched'')"

lemma cancellable_active: "is_cancellable phase \<longleftrightarrow> active_phase (phase_as_str phase)"
  by (cases phase) (simp_all add: active_phase_def)

lemma commit_cancellation_inv:
  assumes C: "codec_ok C" and inv: "kernel_inv C db"
    and ok: "commit_cancellation C ids session_id operation_id tv hw transition db = Inr (u, db')"
    and fits: "checkpoint_fits C operation_id (ct_checkpoint transition) db"
    and closed: "batch_closed C operation_id tv db"
  shows "kernel_inv C db'"
  using ok kernel_invD(2) [OF inv]
proof (cases rule: commit_cancellation_cases)
  case (1 s r phase cpj ocj)
  have act: "active_phase (o_phase r)" "o_phase r \<noteq> ''effect_dispatched''"
    using 1 closed by (auto simp: cancellable_active batch_closed_def)
  show ?thesis
    by (rule finish_inv [OF C inv 1(5,6,7) act 1(2,3) refl 1(13,14), where oc = OutcomeCancelled and
          cp = "ct_checkpoint transition" and cpj = cpj and ocj = ocj])
      (use fits round_trip_dec [OF codec_okD(4) [OF C] 1(11)] round_trip_dec [OF codec_okD(5) [OF C] 1(12)]
        in \<open>simp_all add: closed_row_def\<close>)
qed

end
