(* ===== verification/Kernel_Abandonment.thy ===== *)
theory Kernel_Abandonment
  imports Kernel_Cancellation
begin

section \<open>Abandonment of an unknown effect\<close>

text \<open>
  \<open>unknown_effect.rs\<close>: the explicit closure of an operation whose batch has a child with an
  unknown outcome, and the recognition of a closure that was committed before.
\<close>

definition ABANDONED_REASON :: string where
  "ABANDONED_REASON = ''effect outcome is unknown; operation was abandoned''"

definition abandoned_outcome :: OperationOutcome where
  "abandoned_outcome = OutcomeFailed ABANDONED_REASON"

record 'v PendingAbandonment =
  pa_input :: "'v UnknownEffectInput"
  pa_manifest :: RuntimeManifest
  pa_transition_version :: i64
  pa_event_high_water :: u64

datatype 'v UnknownEffectState =
    Pending "'v PendingAbandonment"
  | AlreadyAbandoned RuntimeManifest OperationOutcome

definition require_runtime :: "RuntimeManifest \<Rightarrow> ('v, 'a) Runtime \<Rightarrow> unit kernel_result" where
  "require_runtime manifest runtime =
     (if manifest = rt_manifest runtime then Inr () else Inl RuntimeMismatch)"

definition load_pending_abandonment ::
    "('t, 'v) codec \<Rightarrow> AgentId \<Rightarrow> SessionId \<Rightarrow> OperationId \<Rightarrow> 't option \<Rightarrow> 'v StoredOperation \<Rightarrow>
     't db \<Rightarrow> 'v UnknownEffectState kernel_result" where
  "load_pending_abandonment C agent_id session_id operation_id active_operation_id stored db =
     and_then (transpose_map (parse_operation_id C) active_operation_id) (\<lambda>active.
     if active \<noteq> Some operation_id
     then Inl (Corrupt ''unknown-effect operation is not the session's active operation'')
     else if so_input_effect_batch_id stored \<noteq> None \<or> so_outcome stored \<noteq> None
     then Inl (Corrupt
       ''unknown-effect operation contains settled input or a terminal outcome'')
     else
     and_then (ok_or (so_manifest stored) (Corrupt ''unknown-effect operation has no manifest''))
       (\<lambda>manifest.
     and_then (ok_or (so_checkpoint stored)
       (Corrupt ''unknown-effect operation has no checkpoint'')) (\<lambda>checkpoint.
     and_then (ok_or (so_current_effect_batch_id stored)
       (Corrupt ''unknown-effect operation has no current effect batch'')) (\<lambda>batch_id.
     and_then (load_effect_batch_facts C operation_id batch_id (Some manifest) db)
       (\<lambda>effect_batch.
     if \<not> unknown_batch (bf_effects effect_batch)
     then Inl (Corrupt ''unknown operation and effect batch states disagree'')
     else
     and_then (load_event_page C session_id EventCursor_START db) (\<lambda>page.
     Inr (Pending \<lparr>pa_input = \<lparr>ui_agent_id = agent_id, ui_session_id = session_id,
                      ui_operation_id = operation_id, ui_command = so_command stored,
                      ui_events = page_events page, ui_checkpoint = checkpoint,
                      ui_effect_batch = effect_batch\<rparr>,
                    pa_manifest = manifest,
                    pa_transition_version = so_transition_version stored,
                    pa_event_high_water = next_cursor page\<rparr>)))))))"

text \<open>The batches of an operation that hold an unknown child, without duplicates, in order.\<close>

definition unknown_batches :: "('t, 'v) codec \<Rightarrow> OperationId \<Rightarrow> 't db \<Rightarrow> 't batch_row list" where
  "unknown_batches C operation_id db =
     order_by b_position (filter (\<lambda>b. b_operation_id b = to_string C operation_id \<and>
       exists_row (\<lambda>e. e_batch_id e = b_batch_id b \<and> e_status e = ''outcome_unknown'')
         (effects db)) (effect_batches db))"

definition load_prior_abandonment ::
    "('t, 'v) codec \<Rightarrow> SessionId \<Rightarrow> OperationId \<Rightarrow> 't option \<Rightarrow> 'v StoredOperation \<Rightarrow>
     't db \<Rightarrow> 'v UnknownEffectState kernel_result" where
  "load_prior_abandonment C session_id operation_id active_operation_id stored db =
     (case unknown_batches C operation_id db of
        [] \<Rightarrow> Inl (NoUnknownEffect operation_id)
      | _ # _ # _ \<Rightarrow>
          Inl (Corrupt ''abandoned operation has more than one unknown effect batch'')
      | [batch] \<Rightarrow>
     and_then (transpose_map (parse_operation_id C) active_operation_id) (\<lambda>active.
     if active = Some operation_id \<or> so_current_effect_batch_id stored \<noteq> None \<or>
        so_input_effect_batch_id stored \<noteq> None
     then Inl (Corrupt ''abandoned operation still owns active execution state'')
     else
     and_then (ok_or (so_manifest stored) (Corrupt ''unknown-effect operation has no manifest''))
       (\<lambda>manifest.
     and_then (parse_effect_batch_id C (b_batch_id batch)) (\<lambda>batch_id.
     and_then (load_effect_batch_facts C operation_id batch_id (Some manifest) db) (\<lambda>facts.
     if \<not> unknown_batch (bf_effects facts)
     then Inl (Corrupt ''abandoned unknown effect batch has invalid child state'')
     else
     and_then (ok_or (so_checkpoint stored)
       (Corrupt ''unknown-effect operation has no checkpoint'')) (\<lambda>_.
     and_then (ok_or (so_outcome stored) (Corrupt ''abandoned operation has no outcome''))
       (\<lambda>outcome.
     if \<not> (case outcome of OutcomeFailed _ \<Rightarrow> True | _ \<Rightarrow> False)
     then Inl (Corrupt ''unknown effect was released without the abandonment outcome'')
     else
     and_then (load_event_page C session_id EventCursor_START db) (\<lambda>_.
     Inr (AlreadyAbandoned manifest outcome)))))))))"

definition load_unknown_effect_state ::
    "('t, 'v) codec \<Rightarrow> SessionId \<Rightarrow> OperationId \<Rightarrow> 't db \<Rightarrow> 'v UnknownEffectState kernel_result" where
  "load_unknown_effect_state C session_id operation_id db =
     and_then (ok_or (find (\<lambda>s. s_session_id s = to_string C session_id) (sessions db))
       (SessionNotFound session_id)) (\<lambda>session.
     and_then (load_operation C session_id operation_id db) (\<lambda>loaded.
     and_then (ok_or loaded (NoUnknownEffect operation_id)) (\<lambda>stored.
     if so_phase stored = OutcomeUnknown then
       and_then (parse_agent_id C (s_agent_id session)) (\<lambda>agent_id.
       load_pending_abandonment C agent_id session_id operation_id
         (s_active_operation_id session) stored db)
     else if so_phase stored = Failed then
       load_prior_abandonment C session_id operation_id (s_active_operation_id session) stored db
     else Inl (NoUnknownEffect operation_id))))"

definition require_unknown_batch_unchanged ::
    "('t, 'v) codec \<Rightarrow> SessionId \<Rightarrow> OperationId \<Rightarrow> i64 \<Rightarrow> 't db \<Rightarrow> unit kernel_result" where
  "require_unknown_batch_unchanged C session_id operation_id expected_transition db =
     require (exists_row (\<lambda>r. o_session_id r = to_string C session_id \<and>
         o_operation_id r = to_string C operation_id \<and> o_phase r = ''outcome_unknown'' \<and>
         o_transition_version r = expected_transition \<and> o_input_effect_batch_id r = None \<and>
         o_outcome_json r = None \<and>
         exists_row (\<lambda>b. b_operation_id b = o_operation_id r \<and>
             Some (b_batch_id b) = o_current_effect_batch_id r \<and>
             exists_row (\<lambda>e. e_batch_id e = b_batch_id b \<and> e_status e = ''outcome_unknown'' \<and>
               e_outcome_json e = None) (effects db) \<and>
             \<not> exists_row (\<lambda>e. e_batch_id e = b_batch_id b \<and>
               e_status e \<notin> set [''settled'', ''outcome_unknown'']) (effects db))
           (effect_batches db)) (operations db))
       (Corrupt ''unknown effect batch changed before abandonment'')"

definition commit_unknown_effect_abandonment ::
    "('t, 'v) codec \<Rightarrow> (nat \<Rightarrow> EventId) \<Rightarrow> SessionId \<Rightarrow> OperationId \<Rightarrow> i64 \<Rightarrow> u64 \<Rightarrow>
     'v UnknownEffectAbandonment \<Rightarrow> 't db \<Rightarrow> (OperationOutcome \<times> 't db) kernel_result" where
  "commit_unknown_effect_abandonment C new_id session_id operation_id expected_transition
     expected_event_high_water abandonment db =
     (if cancellation_requested C operation_id db then Inl (CancellationPending operation_id)
      else
     and_then (ok_or (find (\<lambda>s. s_session_id s = to_string C session_id \<and>
         s_active_operation_id s = Some (to_string C operation_id)) (sessions db))
       (Corrupt ''unknown-effect operation no longer owns its session'')) (\<lambda>session.
     and_then (from_sql_integer (s_next_event_sequence session) ''event high-water mark'')
       (\<lambda>event_high_water.
     if event_high_water \<noteq> expected_event_high_water
     then Inl (Corrupt ''semantic history changed during unknown-effect abandonment'')
     else
     and_then (require_unknown_batch_unchanged C session_id operation_id expected_transition db)
       (\<lambda>_.
     and_then (append_events C new_id session_id operation_id (ab_events abandonment) db) (\<lambda>db.
     and_then (encode (checkpoint_to_json C) (ab_checkpoint abandonment)) (\<lambda>checkpoint_json.
     and_then (encode (outcome_to_json C) abandoned_outcome) (\<lambda>outcome_json.
     let selected = (\<lambda>r. o_session_id r = to_string C session_id \<and>
       o_operation_id r = to_string C operation_id \<and> o_phase r = ''outcome_unknown'' \<and>
       o_transition_version r = expected_transition) in
     and_then (update_operations selected
       (\<lambda>r. r\<lparr>o_phase := ''failed'', o_checkpoint_json := Some checkpoint_json,
               o_current_effect_batch_id := None, o_input_effect_batch_id := None,
               o_outcome_json := Some outcome_json,
               o_transition_version := o_transition_version r + 1\<rparr>) db) (\<lambda>db'.
     and_then (require (changed selected (operations db) = 1)
       (Corrupt ''unknown-effect abandonment compare-and-set failed'')) (\<lambda>_.
     and_then (clear_active C session_id operation_id
       ''abandoned operation did not own its session'' db') (\<lambda>db.
     and_then (commit db) (\<lambda>db.
     Inr (abandoned_outcome, db))))))))))))"

lemma commit_abandonment_cases:
  assumes ok: "commit_unknown_effect_abandonment C ids session_id operation_id tv hw abandonment db = Inr (oc, db')"
    and con: "constraints_ok db"
  obtains s r cpj ocj where "\<not> cancellation_requested C operation_id db" and "oc = abandoned_outcome"
    and "s \<in> set (sessions db)" and "s_session_id s = to_string C session_id"
    and "s_active_operation_id s = Some (to_string C operation_id)"
    and "r \<in> set (operations db)" and "o_operation_id r = to_string C operation_id"
    and "o_session_id r = to_string C session_id" and "o_transition_version r = tv"
    and "o_phase r = ''outcome_unknown''"
    and "checkpoint_to_json C (ab_checkpoint abandonment) = Some cpj"
    and "outcome_to_json C abandoned_outcome = Some ocj"
    and "db' = (let db2 = set_operation (to_string C operation_id) (closed_row ''failed'' cpj ocj)
        (after_append C session_id
          (appended C ids session_id operation_id (s_next_event_sequence s) (ab_events abandonment)) db) in
      db2\<lparr>sessions := update_where (\<lambda>s. s_session_id s = to_string C session_id)
        (\<lambda>s. s\<lparr>s_active_operation_id := None\<rparr>) (sessions db2)\<rparr>)"
    and "schema_ok db'"
proof -
  have no: "\<not> cancellation_requested C operation_id db"
    using ok by (auto simp: commit_unknown_effect_abandonment_def)
  obtain s0 hw' where
    fs: "find (\<lambda>s. s_session_id s = to_string C session_id \<and>
         s_active_operation_id s = Some (to_string C operation_id)) (sessions db) = Some s0"
    and hw: "from_sql_integer (s_next_event_sequence s0) ''event high-water mark'' = Inr hw'" "hw' = hw"
    using ok unfolding commit_unknown_effect_abandonment_def if_not_P [OF no]
    by (auto simp: ok_or_eq_Inr elim!: and_then_InrE split: if_splits)
  note ok1 = ok [unfolded commit_unknown_effect_abandonment_def if_not_P [OF no] fs hw ok_or_simps and_then_simps]
  let ?sel = "\<lambda>r. o_session_id r = to_string C session_id \<and>
       o_operation_id r = to_string C operation_id \<and> o_phase r = ''outcome_unknown'' \<and>
       o_transition_version r = tv"
  obtain db1 cpj ocj db2 where
    app: "append_events C ids session_id operation_id (ab_events abandonment) db = Inr db1"
    and cpj: "checkpoint_to_json C (ab_checkpoint abandonment) = Some cpj"
    and ocj: "outcome_to_json C abandoned_outcome = Some ocj"
    and upd: "update_operations ?sel (closed_row ''failed'' cpj ocj) db1 = Inr db2"
    and one: "changed ?sel (operations db1) = 1"
    and clear: "clear_active C session_id operation_id ''abandoned operation did not own its session'' db2 = Inr db'"
    and ptr: "pointers_ok db'" and oc: "oc = abandoned_outcome"
    using ok1
    by (auto simp: ok_or_eq_Inr require_eq_Inr commit_eq_Inr closed_row_def [abs_def] Let_def elim!: and_then_InrE)
  obtain s r where sr: "s \<in> set (sessions db)" "s_session_id s = to_string C session_id"
    "s_active_operation_id s = Some (to_string C operation_id)"
    "r \<in> set (operations db)" "?sel r"
    "db' = (let db2 = set_operation (to_string C operation_id) (closed_row ''failed'' cpj ocj)
        (after_append C session_id
          (appended C ids session_id operation_id (s_next_event_sequence s) (ab_events abandonment)) db) in
      db2\<lparr>sessions := update_where (\<lambda>s. s_session_id s = to_string C session_id)
        (\<lambda>s. s\<lparr>s_active_operation_id := None\<rparr>) (sessions db2)\<rparr>)"
    "schema_ok db'"
    by (rule close_operation_eq [OF con app upd one _ clear ptr]) auto
  show thesis
    by (rule that [OF no oc sr(1-4) _ _ _ _ cpj ocj sr(6,7)]) (use sr(5) in simp_all)
qed

lemma commit_abandonment_inv:
  assumes C: "codec_ok C" and inv: "kernel_inv C db"
    and ok: "commit_unknown_effect_abandonment C ids session_id operation_id tv hw abandonment db = Inr (oc, db')"
    and fits: "checkpoint_fits C operation_id (ab_checkpoint abandonment) db"
  shows "kernel_inv C db'"
  using ok kernel_invD(2) [OF inv]
proof (cases rule: commit_abandonment_cases)
  case (1 s r cpj ocj)
  have act: "active_phase (o_phase r)" "o_phase r \<noteq> ''effect_dispatched''"
    using 1(10) by (auto simp: active_phase_def)
  show ?thesis
    by (rule finish_inv [OF C inv 1(6,7,8) act 1(3,4) refl 1(13,14), where oc = abandoned_outcome and
          cp = "ab_checkpoint abandonment" and cpj = cpj and ocj = ocj])
      (use fits round_trip_dec [OF codec_okD(4) [OF C] 1(11)] round_trip_dec [OF codec_okD(5) [OF C] 1(12)]
        in \<open>simp_all add: closed_row_def abandoned_outcome_def\<close>)
qed

end
