(* ===== verification/Kernel_Drive.thy ===== *)
theory Kernel_Drive
  imports Kernel_Admission Kernel_Abandonment
begin

section \<open>Driving a session\<close>

text \<open>
  \<open>effect_supervision.rs\<close> and \<open>drive.rs\<close>, with the calls of \<open>cancellation.rs\<close> and
  \<open>unknown_effect.rs\<close> that are made of several transactions. They run on the kernel handle (the
  database, the leases of running sessions and the tasks that hold one) and on the rest of the
  world, whose state has the type \<open>'w\<close>: other callers of the same kernel may commit transactions
  between two transactions of a drive, adapters finish in any order with any completion, the
  caller may drop a drive while adapters run, and fresh identities are drawn. An error of a later
  transaction leaves what earlier ones committed.

  The mutexes are not poisoned here, and a panic of an adapter or a plugin is not modelled: it
  unwinds and leaves the last committed database, as a crash does.
\<close>

subsection \<open>Session leases\<close>

text \<open>
  An entry of \<open>running_sessions\<close>, with the strong count of the \<open>Arc<SessionDriveOwnership>\<close> whose
  drop removes it: one for the drive and one for every call of \<open>supervise_effect\<close> whose adapter
  has not returned. \<open>running_adapters\<close> counts the latter; their tasks may outlive the drive.
\<close>

record RunningSession =
  rs_operation_id :: "OperationId option"
  rs_cancelled :: bool
  rs_holders :: nat

record 't Kernel =
  k_db :: "'t db"
  running_sessions :: "SessionId \<rightharpoonup> RunningSession"
  running_adapters :: "SessionId \<Rightarrow> nat"

text \<open>A call that stops early has failed, or its future was dropped while it waited.\<close>

datatype stop = StoppedWith KernelError | FutureDropped

type_synonym ('t, 'w) machine = "'t Kernel \<times> 'w"
type_synonym ('t, 'w, 'a) driver = "('t, 'w) machine \<Rightarrow> (stop + 'a) \<times> ('t, 'w) machine"

definition lease_acquire :: "SessionId \<Rightarrow> 't Kernel \<Rightarrow> 't Kernel kernel_result" where
  "lease_acquire session_id k =
     (if running_sessions k session_id \<noteq> None then Inl (Busy session_id)
      else Inr (k\<lparr>running_sessions := (running_sessions k)
        (session_id \<mapsto> \<lparr>rs_operation_id = None, rs_cancelled = False, rs_holders = 1\<rparr>)\<rparr>))"

definition lease_bind :: "SessionId \<Rightarrow> OperationId \<Rightarrow> 't Kernel \<Rightarrow> 't Kernel kernel_result" where
  "lease_bind session_id operation_id k =
     (case running_sessions k session_id of
        None \<Rightarrow> Inl (Store Ownership)
      | Some running \<Rightarrow>
          (case rs_operation_id running of
             None \<Rightarrow> Inr (k\<lparr>running_sessions := (running_sessions k)
               (session_id \<mapsto> running\<lparr>rs_operation_id := Some operation_id\<rparr>)\<rparr>)
           | Some bound \<Rightarrow>
               if bound = operation_id then Inr k else Inl (Store Ownership)))"

definition signal_running_operation :: "SessionId \<Rightarrow> OperationId \<Rightarrow> 't Kernel \<Rightarrow> 't Kernel" where
  "signal_running_operation session_id operation_id k =
     (case running_sessions k session_id of
        None \<Rightarrow> k
      | Some running \<Rightarrow>
          if rs_operation_id running = Some operation_id
          then k\<lparr>running_sessions := (running_sessions k)
            (session_id \<mapsto> running\<lparr>rs_cancelled := True\<rparr>)\<rparr>
          else k)"

definition lease_clone :: "SessionId \<Rightarrow> 't Kernel \<Rightarrow> 't Kernel" where
  "lease_clone session_id k =
     (case running_sessions k session_id of
        None \<Rightarrow> k
      | Some running \<Rightarrow> k\<lparr>running_sessions := (running_sessions k)
          (session_id \<mapsto> running\<lparr>rs_holders := rs_holders running + 1\<rparr>)\<rparr>)"

text \<open>Dropping a lease: the last one runs \<open>Drop for SessionDriveOwnership\<close>.\<close>

definition lease_drop :: "SessionId \<Rightarrow> 't Kernel \<Rightarrow> 't Kernel" where
  "lease_drop session_id k =
     (case running_sessions k session_id of
        None \<Rightarrow> k
      | Some running \<Rightarrow>
          if rs_holders running \<le> 1
          then k\<lparr>running_sessions := (running_sessions k)(session_id := None)\<rparr>
          else k\<lparr>running_sessions := (running_sessions k)
            (session_id \<mapsto> running\<lparr>rs_holders := rs_holders running - 1\<rparr>)\<rparr>)"

text \<open>
  A call of \<open>supervise_effect\<close> owns a clone of the lease. The task it spawns holds it until the
  adapter returns or the task is aborted; a call dropped before its first poll only drops it.
\<close>

definition spawn_adapter :: "SessionId \<Rightarrow> 't Kernel \<Rightarrow> 't Kernel" where
  "spawn_adapter session_id k =
     (lease_clone session_id k)\<lparr>running_adapters :=
        (running_adapters k)(session_id := running_adapters k session_id + 1)\<rparr>"

definition adapter_done :: "SessionId \<Rightarrow> 't Kernel \<Rightarrow> 't Kernel" where
  "adapter_done session_id k =
     (lease_drop session_id k)\<lparr>running_adapters :=
        (running_adapters k)(session_id := running_adapters k session_id - 1)\<rparr>"

subsection \<open>Sequences of transactions\<close>

text \<open>
  The world: what other callers of the kernel commit before a transaction of this one, which
  attempt in flight finishes next (by its index) and with which completion (\<open>None\<close> when its task
  was aborted) unless the caller drops the drive while it waits, how many of the attempts a drive
  leaves behind hold no lease by then, the fresh identities, and whether the caller polls inside
  a Tokio runtime.
\<close>

record ('t, 'v, 'a, 'w) world =
  others :: "'w \<Rightarrow> 't Kernel \<Rightarrow> 't Kernel \<times> 'w"
  next_attempt :: "'w \<Rightarrow> ('a \<times> 'v EffectInvocation) list \<Rightarrow> (nat \<times> 'v EffectCompletion option) option \<times> 'w"
  already_done :: "'w \<Rightarrow> nat \<Rightarrow> nat"
  fresh_ids :: "'w \<Rightarrow> (nat \<Rightarrow> uuid) \<times> 'w"
  in_tokio :: bool

definition driver_return :: "'a kernel_result \<Rightarrow> ('t, 'w, 'a) driver" where
  "driver_return result m = (map_err StoppedWith result, m)"

definition driver_then ::
    "('t, 'w, 'a) driver \<Rightarrow> ('a \<Rightarrow> ('t, 'w, 'b) driver) \<Rightarrow> ('t, 'w, 'b) driver" where
  "driver_then d f m = (case d m of (Inl e, m) \<Rightarrow> (Inl e, m) | (Inr a, m) \<Rightarrow> f a m)"

definition transact ::
    "('t, 'v, 'a, 'w) world \<Rightarrow> ('t db \<Rightarrow> ('r \<times> 't db) kernel_result) \<Rightarrow> ('t, 'w, 'r) driver" where
  "transact W tx m =
     (case others W (snd m) (fst m) of (k, w) \<Rightarrow>
       (case tx (k_db k) of
          Inl e \<Rightarrow> (Inl (StoppedWith e), k, w)
        | Inr (r, db) \<Rightarrow> (Inr r, k\<lparr>k_db := db\<rparr>, w)))"

definition read_db ::
    "('t, 'v, 'a, 'w) world \<Rightarrow> ('t db \<Rightarrow> 'r kernel_result) \<Rightarrow> ('t, 'w, 'r) driver" where
  "read_db W query = transact W (\<lambda>db. and_then (query db) (\<lambda>r. Inr (r, db)))"

definition draw_ids ::
    "('t, 'v, 'a, 'w) world \<Rightarrow> ('t, 'w, nat \<Rightarrow> uuid) driver" where
  "draw_ids W m = (case fresh_ids W (snd m) of (ids, w) \<Rightarrow> (Inr ids, fst m, w))"

definition on_leases :: "('t Kernel \<Rightarrow> 't Kernel kernel_result) \<Rightarrow> ('t, 'w, unit) driver" where
  "on_leases f m = (case f (fst m) of Inl e \<Rightarrow> (Inl (StoppedWith e), m) | Inr k \<Rightarrow> (Inr (), k, snd m))"

text \<open>A call under a session lease, which is dropped when the call returns.\<close>

definition with_lease :: "SessionId \<Rightarrow> ('t, 'w, 'r) driver \<Rightarrow> ('t, 'w, 'r) driver" where
  "with_lease session_id body =
     driver_then (on_leases (lease_acquire session_id)) (\<lambda>_ m.
       case body m of (result, k, w) \<Rightarrow> (result, lease_drop session_id k, w))"

subsection \<open>Cancellation and abandonment\<close>

definition request_cancellation ::
    "('t, 'v) codec \<Rightarrow> ('t, 'v, 'a, 'w) world \<Rightarrow> SessionId \<Rightarrow> OperationId \<Rightarrow> CancellationId \<Rightarrow>
     ('t, 'w, unit) driver" where
  "request_cancellation C W session_id operation_id cancellation_id =
     driver_then (transact W (request_cancellation_tx C session_id operation_id cancellation_id))
       (\<lambda>should_signal. on_leases (\<lambda>k.
         Inr (if should_signal then signal_running_operation session_id operation_id k else k)))"

definition close_requested_cancellation ::
    "('t, 'v) codec \<Rightarrow> ('t, 'v, 'a, 'w) world \<Rightarrow> SessionId \<Rightarrow> OperationId \<Rightarrow> ('v, 'a) Runtime \<Rightarrow>
     ('t, 'w, OperationOutcome option) driver" where
  "close_requested_cancellation C W session_id operation_id runtime =
     driver_then (transact W (load_requested_cancellation C session_id operation_id)) (\<lambda>loaded.
     case loaded of
       None \<Rightarrow> driver_return (Inr None)
     | Some pending \<Rightarrow>
     if pc_manifest pending \<noteq> rt_manifest runtime then driver_return (Inl RuntimeMismatch)
     else
     driver_then (driver_return (map_err Loop
       (cancel_operation (rt_plugin runtime) (pc_input pending)))) (\<lambda>transition.
     driver_then (driver_return (require_compatible_checkpoint (pc_manifest pending)
       (Some (ct_checkpoint transition)))) (\<lambda>_.
     driver_then (driver_return (validate_new_events (ct_events transition))) (\<lambda>_.
     driver_then (draw_ids W) (\<lambda>ids.
     driver_then (transact W (commit_cancellation C ids session_id operation_id
       (pc_transition_version pending) (pc_event_high_water pending) transition)) (\<lambda>_.
     driver_return (Inr (Some OutcomeCancelled))))))))"

definition abandon_unknown_effect ::
    "('t, 'v) codec \<Rightarrow> ('t, 'v, 'a, 'w) world \<Rightarrow> SessionId \<Rightarrow> OperationId \<Rightarrow> ('v, 'a) Runtime \<Rightarrow>
     ('t, 'w, OperationOutcome) driver" where
  "abandon_unknown_effect C W session_id operation_id runtime =
     with_lease session_id
       (driver_then (read_db W (load_unknown_effect_state C session_id operation_id)) (\<lambda>state.
        case state of
          AlreadyAbandoned manifest outcome \<Rightarrow>
            driver_then (driver_return (require_runtime manifest runtime)) (\<lambda>_.
            driver_return (Inr outcome))
        | Pending pending \<Rightarrow>
            driver_then (driver_return (require_runtime (pa_manifest pending) runtime)) (\<lambda>_.
            driver_then (driver_return (map_err Loop
              (plugin_abandon_unknown_effect (rt_plugin runtime) (pa_input pending))))
              (\<lambda>abandonment.
            driver_then (driver_return (require_compatible_checkpoint (pa_manifest pending)
              (Some (ab_checkpoint abandonment)))) (\<lambda>_.
            driver_then (driver_return (validate_new_events (ab_events abandonment))) (\<lambda>_.
            driver_then (draw_ids W) (\<lambda>ids.
            transact W (commit_unknown_effect_abandonment C ids session_id operation_id
              (pa_transition_version pending) (pa_event_high_water pending) abandonment))))))))"

subsection \<open>The active operation\<close>

record 'v ActiveOperation =
  ac_agent_id :: AgentId
  ac_operation_id :: OperationId
  ac_command :: "'v Command"
  ac_manifest :: RuntimeManifest
  ac_checkpoint :: "'v Checkpoint option"
  ac_transition_version :: i64
  ac_phase :: OperationPhase
  ac_input_effect_batch_id :: "EffectBatchId option"
  ac_newly_activated :: bool

datatype DriveResult =
    Idle | Blocked OperationId | DriveFinished OperationId OperationOutcome

definition MAX_LIVE_DISPATCHES_BEFORE_UNKNOWN :: u64 where
  "MAX_LIVE_DISPATCHES_BEFORE_UNKNOWN = 2"

definition load_active_query ::
    "('t, 'v) codec \<Rightarrow> AgentId \<Rightarrow> SessionId \<Rightarrow> OperationId \<Rightarrow> 't db \<Rightarrow>
     'v ActiveOperation kernel_result" where
  "load_active_query C agent_id session_id operation_id db =
     and_then (load_operation C session_id operation_id db) (\<lambda>loaded.
     and_then (ok_or loaded (Corrupt ''active operation is missing'')) (\<lambda>stored.
     and_then (ok_or (so_manifest stored) (Corrupt ''active operation has no runtime manifest''))
       (\<lambda>manifest.
     Inr \<lparr>ac_agent_id = agent_id, ac_operation_id = operation_id,
          ac_command = so_command stored, ac_manifest = manifest,
          ac_checkpoint = so_checkpoint stored,
          ac_transition_version = so_transition_version stored, ac_phase = so_phase stored,
          ac_input_effect_batch_id = so_input_effect_batch_id stored,
          ac_newly_activated = False\<rparr>)))"

definition load_active ::
    "('t, 'v) codec \<Rightarrow> SessionId \<Rightarrow> OperationId \<Rightarrow> 't db \<Rightarrow> 'v ActiveOperation kernel_result" where
  "load_active C session_id operation_id db =
     and_then (ok_or (find (\<lambda>s. s_session_id s = to_string C session_id \<and>
         s_active_operation_id s = Some (to_string C operation_id)) (sessions db))
       (Corrupt ''active operation pointer changed'')) (\<lambda>session.
     and_then (parse_agent_id C (s_agent_id session)) (\<lambda>agent_id.
     load_active_query C agent_id session_id operation_id db))"

text \<open>The activation of a queued operation: its phase, its frozen manifest, the session's pointer.\<close>

definition activate_queued ::
    "('t, 'v) codec \<Rightarrow> SessionId \<Rightarrow> OperationId \<Rightarrow> RuntimeManifest \<Rightarrow> 't db \<Rightarrow>
     't db kernel_result" where
  "activate_queued C session_id operation_id manifest db =
     and_then (encode (manifest_to_json C) manifest) (\<lambda>manifest_json.
     let selected = (\<lambda>r. o_operation_id r = to_string C operation_id \<and> o_phase r = ''queued'' \<and>
       o_manifest_json r = None) in
     and_then (update_operations selected
       (\<lambda>r. r\<lparr>o_phase := ''need_decision'', o_manifest_json := Some manifest_json,
               o_transition_version := o_transition_version r + 1\<rparr>) db) (\<lambda>db'.
     and_then (require (changed selected (operations db) = 1)
       (Corrupt ''operation activation compare-and-set failed'')) (\<lambda>_.
     let free = (\<lambda>s. s_session_id s = to_string C session_id \<and>
       s_active_operation_id s = None) in
     and_then (update_sessions free
       (\<lambda>s. s\<lparr>s_active_operation_id := Some (to_string C operation_id)\<rparr>) db') (\<lambda>db''.
     and_then (require (changed free (sessions db') = 1)
       (Corrupt ''session activation compare-and-set failed'')) (\<lambda>_.
     Inr db'')))))"

definition next_queued :: "('t, 'v) codec \<Rightarrow> SessionId \<Rightarrow> 't db \<Rightarrow> 't operation_row option" where
  "next_queued C session_id db =
     first_row (order_by o_position (filter (\<lambda>r. o_session_id r = to_string C session_id \<and>
       o_phase r = ''queued'') (operations db)))"

definition activate ::
    "('t, 'v) codec \<Rightarrow> SessionId \<Rightarrow> RuntimeManifest \<Rightarrow> 't db \<Rightarrow>
     ('v ActiveOperation option \<times> 't db) kernel_result" where
  "activate C session_id manifest db =
     and_then (ok_or (find (\<lambda>s. s_session_id s = to_string C session_id) (sessions db))
       (SessionNotFound session_id)) (\<lambda>session.
     and_then (parse_agent_id C (s_agent_id session)) (\<lambda>agent_id.
     case s_active_operation_id session of
       Some active_id \<Rightarrow>
         and_then (parse_operation_id C active_id) (\<lambda>operation_id.
         and_then (load_active_query C agent_id session_id operation_id db) (\<lambda>active.
         Inr (Some (active\<lparr>ac_newly_activated := False\<rparr>), db)))
     | None \<Rightarrow>
         (case next_queued C session_id db of
            None \<Rightarrow> Inr (None, db)
          | Some queued \<Rightarrow>
              and_then (parse_operation_id C (o_operation_id queued)) (\<lambda>operation_id.
              and_then (activate_queued C session_id operation_id manifest db) (\<lambda>db.
              and_then (load_active_query C agent_id session_id operation_id db) (\<lambda>active.
              and_then (commit db) (\<lambda>db.
              Inr (Some (active\<lparr>ac_newly_activated := True\<rparr>), db))))))))"

definition load_loop_input ::
    "('t, 'v) codec \<Rightarrow> SessionId \<Rightarrow> 'v ActiveOperation \<Rightarrow> 'v SemanticEvent list \<Rightarrow> 't db \<Rightarrow>
     'v LoopInput kernel_result" where
  "load_loop_input C session_id active events db =
     and_then (transpose_map
       (\<lambda>batch_id. load_settled_effect_batch C batch_id (ac_operation_id active) db)
       (ac_input_effect_batch_id active)) (\<lambda>effect_batch.
     if (case effect_batch of None \<Rightarrow> False | Some batch \<Rightarrow>
         list_ex (\<lambda>effect. btree_get (effect_bindings (ac_manifest active)) (se_binding effect) \<noteq>
           Some (se_binding_revision effect)) (sb_effects batch))
     then Inl (Corrupt ''settled effect differs from the frozen manifest'')
     else Inr \<lparr>li_agent_id = ac_agent_id active, li_session_id = session_id,
       li_operation_id = ac_operation_id active, li_runtime_manifest = ac_manifest active,
       li_command = ac_command active, li_events = events,
       li_checkpoint = ac_checkpoint active, li_effect_batch = effect_batch\<rparr>)"

subsection \<open>Applying a decision\<close>

definition effect_intent ::
    "RuntimeManifest \<Rightarrow> ('v, 'a) Runtime \<Rightarrow> 'v EffectRequest \<Rightarrow> 'v NewEffectIntent kernel_result" where
  "effect_intent manifest runtime effect =
     and_then (ok_or (btree_get (effect_bindings manifest) (er_binding effect))
       (EffectBindingUnavailable (er_binding effect))) (\<lambda>revision.
     and_then (ok_or (resolve_effect runtime (er_binding effect) revision)
       (EffectBindingUnavailable (er_binding effect))) (\<lambda>_.
     Inr \<lparr>ni_binding = er_binding effect, ni_binding_revision = revision,
          ni_request = er_request effect, ni_recovery = er_recovery effect\<rparr>))"

definition apply_loop_decision ::
    "('t, 'v) codec \<Rightarrow> ('t, 'v, 'a, 'w) world \<Rightarrow> SessionId \<Rightarrow> 'v ActiveOperation \<Rightarrow>
     ('v, 'a) Runtime \<Rightarrow> 'v LoopDecision \<Rightarrow> ('t, 'w, OperationOutcome option) driver" where
  "apply_loop_decision C W session_id active runtime decision =
     (let found = schema_version (decision_checkpoint decision);
          expected = checkpoint_schema_version (ac_manifest active) in
     if found \<noteq> expected then driver_return (Inl (CheckpointSchemaMismatch expected found))
     else
     case decision of
       InvokeEffects checkpoint requests \<Rightarrow>
         if requests = []
         then driver_return
           (Inl (InvalidDecision ''an effect batch must contain at least one effect''))
         else
         driver_then (driver_return (try_map (effect_intent (ac_manifest active) runtime) requests))
           (\<lambda>intents.
         driver_then (draw_ids W) (\<lambda>batch_ids.
         driver_then (draw_ids W) (\<lambda>ids.
         driver_then (transact W (commit_effect_batch_intent C (batch_ids 0) ids
           (ac_operation_id active) (ac_transition_version active)
           \<lparr>nb_checkpoint = checkpoint, nb_effects = intents\<rparr>)) (\<lambda>_.
         driver_return (Inr None)))))
     | _ \<Rightarrow>
         driver_then (draw_ids W) (\<lambda>ids.
         driver_then (transact W (commit_decision C ids session_id (ac_operation_id active)
           (ac_transition_version active) decision)) (\<lambda>committed.
         driver_return (Inr (case committed of Finished outcome \<Rightarrow> Some outcome | _ \<Rightarrow> None)))))"

subsection \<open>The effect phase\<close>

definition resolve_pending ::
    "'v ActiveOperation \<Rightarrow> ('v, 'a) Runtime \<Rightarrow> EffectBatchId \<Rightarrow> 'v PendingEffect \<Rightarrow>
     ('v PendingEffect \<times> 'a) kernel_result" where
  "resolve_pending active runtime batch_id effect =
     (if pe_batch_id effect \<noteq> batch_id \<or>
         btree_get (effect_bindings (ac_manifest active)) (pe_binding effect) \<noteq>
           Some (pe_binding_revision effect)
      then Inl (Corrupt ''active effect differs from its batch or frozen manifest'')
      else
      and_then (ok_or (resolve_effect runtime (pe_binding effect) (pe_binding_revision effect))
        (EffectBindingUnavailable (pe_binding effect))) (\<lambda>adapter.
      Inr (effect, adapter)))"

text \<open>One completed attempt: \<open>True\<close> when it finished the batch.\<close>

definition record_completion ::
    "('t, 'v) codec \<Rightarrow> ('t, 'v, 'a, 'w) world \<Rightarrow> OperationId \<Rightarrow> EffectBatchId \<Rightarrow>
     'v PendingEffect \<Rightarrow> 'v EffectCompletion option \<Rightarrow> ('t, 'w, bool) driver" where
  "record_completion C W operation_id batch_id effect completion =
     (case completion of
        None \<Rightarrow> driver_return (Inl EffectTask)
      | Some (CompletionSettled outcome) \<Rightarrow>
          transact W (settle_batch_effect C operation_id batch_id (pe_effect_id effect)
            (pe_transition_version effect) outcome)
      | Some CompletionUnknown \<Rightarrow>
          if pe_recovery effect = SafeToReplay \<and>
             pe_dispatch_count effect < MAX_LIVE_DISPATCHES_BEFORE_UNKNOWN
          then driver_return (Inr False)
          else transact W (record_batch_effect_unknown C operation_id batch_id
            (pe_effect_id effect) (pe_transition_version effect)))"

text \<open>
  The loop over the attempts in flight: the world picks the one that finishes next. The result is
  the transition version of the last one and whether the batch finished. An error and a dropped
  drive let go of the attempts that are left; their tasks run on.
\<close>

definition let_go :: "('t, 'v, 'a, 'w) world \<Rightarrow> SessionId \<Rightarrow> nat \<Rightarrow> ('t, 'w) machine \<Rightarrow> ('t, 'w) machine" where
  "let_go W session_id n m = ((adapter_done session_id ^^ min n (already_done W (snd m) n)) (fst m), snd m)"

definition remove_at :: "nat \<Rightarrow> 'a list \<Rightarrow> 'a list" where
  "remove_at j xs = take j xs @ drop (Suc j) xs"

lemma length_remove_at:
  assumes "xs \<noteq> []"
  shows "length (remove_at (i mod length xs) xs) < length xs"
proof -
  have "i mod length xs < length xs" using assms by simp
  then show ?thesis by (simp add: remove_at_def)
qed

function run_attempts ::
    "('t, 'v) codec \<Rightarrow> ('t, 'v, 'a, 'w) world \<Rightarrow> SessionId \<Rightarrow> RuntimeManifest \<Rightarrow> OperationId \<Rightarrow>
     EffectBatchId \<Rightarrow> ('v PendingEffect \<times> 'a) list \<Rightarrow> i64 option \<Rightarrow> bool \<Rightarrow>
     ('t, 'w, i64 option \<times> bool) driver" where
  "run_attempts C W session_id manifest operation_id batch_id attempts expected_transition batch_finished m =
     (if attempts = [] then (Inr (expected_transition, batch_finished), m)
      else
      (case next_attempt W (snd m)
          (map (\<lambda>(effect, adapter). (adapter, into_invocation effect manifest)) attempts) of
        (None, w) \<Rightarrow> (Inl FutureDropped, let_go W session_id (length attempts) (fst m, w))
      | (Some (i, completion), w) \<Rightarrow>
          let j = i mod length attempts; effect = fst (attempts ! j) in
          (case record_completion C W operation_id batch_id effect completion (adapter_done session_id (fst m), w) of
             (Inl e, m) \<Rightarrow> (Inl e, let_go W session_id (length attempts - 1) m)
           | (Inr finished, m) \<Rightarrow>
               run_attempts C W session_id manifest operation_id batch_id
                 (remove_at j attempts)
                 (Some (pe_transition_version effect)) (batch_finished \<or> finished) m)))"
  by pat_completeness auto

termination
  by (relation "measure (\<lambda>(_, _, _, _, _, _, attempts, _). length attempts)")
    (auto simp: length_remove_at)

declare run_attempts.simps [simp del]

definition drive_effect_phase ::
    "('t, 'v) codec \<Rightarrow> ('t, 'v, 'a, 'w) world \<Rightarrow> SessionId \<Rightarrow> 'v ActiveOperation \<Rightarrow> ('v, 'a) Runtime \<Rightarrow>
     ('t, 'w, unit) driver" where
  "drive_effect_phase C W session_id active runtime =
     driver_then (transact W (prepare_effect_batch C (ac_operation_id active)
       (ac_transition_version active))) (\<lambda>start.
     case start of
       Invoke pending \<Rightarrow>
         if \<not> in_tokio W then driver_return (Inl RuntimeUnavailable)
         else
         driver_then (driver_return (try_map
           (resolve_pending active runtime (pb_batch_id pending)) (pb_effects pending)))
           (\<lambda>resolved.
         driver_then (on_leases (\<lambda>k. Inr ((spawn_adapter session_id ^^ length resolved) k))) (\<lambda>_.
         driver_then (run_attempts C W session_id (ac_manifest active) (ac_operation_id active)
           (pb_batch_id pending) resolved None False) (\<lambda>(last_transition, batch_finished).
         driver_then (driver_return (ok_or last_transition
           (Corrupt ''effect batch prepared no child invocations''))) (\<lambda>expected_transition.
         if batch_finished then driver_return (Inr ())
         else
         driver_then (transact W (finish_effect_batch_attempt C (ac_operation_id active)
           (pb_batch_id pending) expected_transition)) (\<lambda>_.
         driver_return (Inr ()))))))
     | _ \<Rightarrow> driver_return (Inr ()))"

subsection \<open>The drive loop\<close>

text \<open>
  One round of the loop in \<open>Kernel::drive\<close>: either the result of the drive, or the reloaded
  operation for the next round.
\<close>

definition drive_round ::
    "('t, 'v) codec \<Rightarrow> ('t, 'v, 'a, 'w) world \<Rightarrow> SessionId \<Rightarrow> ('v, 'a) Runtime \<Rightarrow>
     'v ActiveOperation \<Rightarrow> ('t, 'w, DriveResult + 'v ActiveOperation) driver" where
  "drive_round C W session_id runtime active =
     driver_then (close_requested_cancellation C W session_id (ac_operation_id active) runtime)
       (\<lambda>closed.
     case closed of
       Some outcome \<Rightarrow> driver_return (Inr (Inl (DriveFinished (ac_operation_id active) outcome)))
     | None \<Rightarrow>
     driver_then (read_db W (events_after C session_id EventCursor_START)) (\<lambda>page.
     if ac_phase active = EffectIntent \<or> ac_phase active = EffectDispatched then
       driver_then (drive_effect_phase C W session_id active runtime) (\<lambda>_.
       driver_then (read_db W (load_active C session_id (ac_operation_id active))) (\<lambda>active.
       driver_return (Inr (Inr active))))
     else if ac_phase active = OutcomeUnknown
     then driver_return (Inr (Inl (Blocked (ac_operation_id active))))
     else if ac_phase active \<noteq> NeedDecision
     then driver_return (Inl (Corrupt ''unsupported active phase''))
     else
     driver_then (read_db W (load_loop_input C session_id active (page_events page))) (\<lambda>input.
     driver_then (driver_return (map_err Loop (decide (rt_plugin runtime) input))) (\<lambda>decision.
     driver_then (apply_loop_decision C W session_id active runtime decision) (\<lambda>applied.
     case applied of
       Some outcome \<Rightarrow> driver_return (Inr (Inl (DriveFinished (ac_operation_id active) outcome)))
     | None \<Rightarrow>
         driver_then (read_db W (load_active C session_id (ac_operation_id active))) (\<lambda>active.
         driver_return (Inr (Inr active))))))))"

text \<open>
  How a call of \<open>drive\<close> stands: it returned, the caller dropped it while effects were in flight,
  or it is still running. The plugin decides how many rounds the loop makes, and it may be no
  finite number, so the loop is run for a number of rounds: after them the drive is still running
  and holds its lease, in the machine it has reached.
\<close>

datatype drive_end = Returned "DriveResult kernel_result" | DriveDropped | StillDriving

definition drive_stopped :: "stop \<Rightarrow> drive_end" where
  "drive_stopped s = (case s of StoppedWith e \<Rightarrow> Returned (Inl e) | FutureDropped \<Rightarrow> DriveDropped)"

fun drive_loop ::
    "nat \<Rightarrow> ('t, 'v) codec \<Rightarrow> ('t, 'v, 'a, 'w) world \<Rightarrow> SessionId \<Rightarrow> ('v, 'a) Runtime \<Rightarrow>
     'v ActiveOperation \<Rightarrow> ('t, 'w) machine \<Rightarrow> drive_end \<times> ('t, 'w) machine" where
  "drive_loop 0 C W session_id runtime active m = (StillDriving, m)"
| "drive_loop (Suc rounds) C W session_id runtime active m =
     (case drive_round C W session_id runtime active m of
        (Inl s, m) \<Rightarrow> (drive_stopped s, m)
      | (Inr (Inl result), m) \<Rightarrow> (Returned (Inr result), m)
      | (Inr (Inr active), m) \<Rightarrow> drive_loop rounds C W session_id runtime active m)"

definition drive_leased ::
    "nat \<Rightarrow> ('t, 'v) codec \<Rightarrow> ('t, 'v, 'a, 'w) world \<Rightarrow> SessionId \<Rightarrow> ('v, 'a) Runtime \<Rightarrow>
     ('t, 'w) machine \<Rightarrow> drive_end \<times> ('t, 'w) machine" where
  "drive_leased rounds C W session_id runtime m =
     (case transact W (activate C session_id (rt_manifest runtime)) m of
        (Inl s, m) \<Rightarrow> (drive_stopped s, m)
      | (Inr None, m) \<Rightarrow> (Returned (Inr Idle), m)
      | (Inr (Some active), m) \<Rightarrow>
          (case on_leases (lease_bind session_id (ac_operation_id active)) m of
             (Inl s, m) \<Rightarrow> (drive_stopped s, m)
           | (Inr _, m) \<Rightarrow>
               if ac_manifest active \<noteq> rt_manifest runtime then (Returned (Inl RuntimeMismatch), m)
               else drive_loop rounds C W session_id runtime active m))"

text \<open>The drive's own lease is dropped when it returns and when it is dropped.\<close>

definition drive ::
    "nat \<Rightarrow> ('t, 'v) codec \<Rightarrow> ('t, 'v, 'a, 'w) world \<Rightarrow> SessionId \<Rightarrow> ('v, 'a) Runtime \<Rightarrow>
     ('t, 'w) machine \<Rightarrow> drive_end \<times> ('t, 'w) machine" where
  "drive rounds C W session_id runtime m =
     (case on_leases (lease_acquire session_id) m of
        (Inl s, m) \<Rightarrow> (drive_stopped s, m)
      | (Inr _, m) \<Rightarrow>
          (case drive_leased rounds C W session_id runtime m of
             (result, k, w) \<Rightarrow>
               (result, if result = StillDriving then k else lease_drop session_id k, w)))"

subsection \<open>Activation\<close>

definition activated_row :: "'t \<Rightarrow> 't operation_row \<Rightarrow> 't operation_row" where
  "activated_row manifest_json r =
     r\<lparr>o_phase := ''need_decision'', o_manifest_json := Some manifest_json,
        o_transition_version := o_transition_version r + 1\<rparr>"

lemma activate_queued_eq:
  assumes ok: "activate_queued C session_id operation_id manifest db = Inr db'" and con: "constraints_ok db"
  obtains r s mj where "manifest_to_json C manifest = Some mj"
    and "r \<in> set (operations db)" and "o_operation_id r = to_string C operation_id"
    and "o_phase r = ''queued''" and "o_manifest_json r = None"
    and "s \<in> set (sessions db)" and "s_session_id s = to_string C session_id"
    and "s_active_operation_id s = None"
    and "db' = (let db1 = set_operation (to_string C operation_id) (activated_row mj) db in
      db1\<lparr>sessions := update_where (\<lambda>s. s_session_id s = to_string C session_id)
        (\<lambda>s. s\<lparr>s_active_operation_id := Some (to_string C operation_id)\<rparr>) (sessions db)\<rparr>)"
    and "constraints_ok db'"
proof -
  let ?sel = "\<lambda>r. o_operation_id r = to_string C operation_id \<and> o_phase r = ''queued'' \<and> o_manifest_json r = None"
  let ?free = "\<lambda>s. s_session_id s = to_string C session_id \<and> s_active_operation_id s = None"
  let ?set = "\<lambda>s. s\<lparr>s_active_operation_id := Some (to_string C operation_id)\<rparr>"
  obtain mj db1 where mj: "manifest_to_json C manifest = Some mj"
    and upd: "update_operations ?sel (activated_row mj) db = Inr db1" and one: "changed ?sel (operations db) = 1"
    and upd2: "update_sessions ?free ?set db1 = Inr db'" and one2: "changed ?free (sessions db1) = 1"
    using ok unfolding activate_queued_def Let_def
    by (auto simp: ok_or_eq_Inr require_eq_Inr activated_row_def [abs_def] elim!: and_then_InrE)
  note u = update_operations_one [OF con upd one, of "to_string C operation_id"]
  have db1: "db1 = set_operation (to_string C operation_id) (activated_row mj) db" using u(1) by simp
  obtain r where r: "r \<in> set (operations db)" "?sel r" using u(3) by auto
  have same: "sessions db1 = sessions db" by (simp add: db1)
  obtain s where s: "s \<in> set (sessions db)" "?free s" using changed_oneD [OF one2] same by metis
  have "?free x \<longleftrightarrow> s_session_id x = to_string C session_id" if "x \<in> set (sessions db)" for x
    using unique_onD [OF schema_keys(2) [OF con] s(1) that] s(2) by auto
  then have "update_where ?free ?set (sessions db) =
      update_where (\<lambda>s. s_session_id s = to_string C session_id) ?set (sessions db)"
    by (simp add: update_where_def)
  then have "db' = (let db1 = set_operation (to_string C operation_id) (activated_row mj) db in
      db1\<lparr>sessions := update_where (\<lambda>s. s_session_id s = to_string C session_id) ?set (sessions db)\<rparr>)"
    and "constraints_ok db'"
    using upd2 same by (auto simp: update_sessions_def execute_eq_Inr db1)
  then show thesis by (intro that [OF mj r(1) _ _ _ s(1)]) (use r(2) s(2) in simp_all)
qed

lemma next_queued_row:
  assumes "next_queued C session_id db = Some r"
  shows "r \<in> set (operations db)" and "o_session_id r = to_string C session_id" and "o_phase r = ''queued''"
    and "\<And>r'. r' \<in> set (operations db) \<Longrightarrow> o_session_id r' = to_string C session_id \<Longrightarrow>
      o_phase r' = ''queued'' \<Longrightarrow> o_position r \<le> o_position r'"
  using first_row_order_by_least [OF assms [unfolded next_queued_def]] by simp_all

lemma activate_cases:
  assumes ok: "activate C session_id manifest db = Inr (active, db')" and con: "constraints_ok db"
    and C: "codec_ok C" and inv: "kernel_inv C db"
  obtains
    (running) s oid a where "s \<in> set (sessions db)" and "s_session_id s = to_string C session_id"
      and "s_active_operation_id s = Some (to_string C oid)" and "db' = db"
      and "active = Some a" and "ac_operation_id a = oid" and "ac_newly_activated a = False"
  | (idle) s where "s \<in> set (sessions db)" and "s_session_id s = to_string C session_id"
      and "s_active_operation_id s = None" and "next_queued C session_id db = None"
      and "active = None" and "db' = db"
  | (activated) s r oid mj a where "s \<in> set (sessions db)" and "s_session_id s = to_string C session_id"
      and "s_active_operation_id s = None" and "next_queued C session_id db = Some r"
      and "o_operation_id r = to_string C oid" and "manifest_to_json C manifest = Some mj"
      and "o_manifest_json r = None"
      and "db' = (let db1 = set_operation (to_string C oid) (activated_row mj) db in
        db1\<lparr>sessions := update_where (\<lambda>s. s_session_id s = to_string C session_id)
          (\<lambda>s. s\<lparr>s_active_operation_id := Some (to_string C oid)\<rparr>) (sessions db)\<rparr>)"
      and "schema_ok db'" and "active = Some a" and "ac_operation_id a = oid" and "ac_newly_activated a"
proof -
  obtain s where fs: "find (\<lambda>s. s_session_id s = to_string C session_id) (sessions db) = Some s"
    using ok by (auto simp: activate_def ok_or_eq_Inr elim!: and_then_InrE)
  have s: "s \<in> set (sessions db)" "s_session_id s = to_string C session_id" using find_SomeD [OF fs] by auto
  note ok1 = ok [unfolded activate_def fs ok_or_simps and_then_simps]
  have id: "ac_operation_id a = oid" if "load_active_query C agent session_id oid d = Inr a" for agent oid d a
    using that by (auto simp: load_active_query_def elim!: and_then_InrE)
  show thesis
  proof (cases "s_active_operation_id s")
    case (Some t)
    obtain oid a where "parse_operation_id C t = Inr oid" "active = Some (a\<lparr>ac_newly_activated := False\<rparr>)"
        "ac_operation_id a = oid" "db' = db"
      using ok1 Some id by (auto elim!: and_then_InrE)
    moreover have "canonical C t"
    proof -
      obtain x where "x \<in> set (operations db)" "o_operation_id x = t"
        using kernel_invD(3) [OF inv] s(1) Some unfolding pointers_ok_iff by blast
      then show ?thesis using command_key_canonical(2) [OF inv] by blast
    qed
    ultimately show thesis
      using running [OF s, of oid "a\<lparr>ac_newly_activated := False\<rparr>"] Some parse_to_string(3) [OF C]
      by (auto simp: canonical_def)
  next
    case None
    show thesis
    proof (cases "next_queued C session_id db")
      case N: None
      show thesis by (rule idle [OF s None N]) (use ok1 None N in \<open>auto elim!: and_then_InrE\<close>)
    next
      case (Some r)
      obtain oid db1 a where p: "parse_operation_id C (o_operation_id r) = Inr oid"
        and act: "activate_queued C session_id oid manifest db = Inr db1"
        and res: "active = Some (a\<lparr>ac_newly_activated := True\<rparr>)" "ac_operation_id a = oid"
          "db' = db1" "pointers_ok db1"
        using ok1 None Some id by (auto simp: commit_eq_Inr elim!: and_then_InrE)
      note mem = next_queued_row(1) [OF Some]
      have oid: "o_operation_id r = to_string C oid"
        using command_key_canonical(2) [OF inv mem] p parse_to_string(3) [OF C] by (auto simp: canonical_def)
      obtain r1 s1 mj where a: "manifest_to_json C manifest = Some mj"
        "r1 \<in> set (operations db)" "o_operation_id r1 = to_string C oid" "o_manifest_json r1 = None"
        "db1 = (let db1 = set_operation (to_string C oid) (activated_row mj) db in
          db1\<lparr>sessions := update_where (\<lambda>s. s_session_id s = to_string C session_id)
            (\<lambda>s. s\<lparr>s_active_operation_id := Some (to_string C oid)\<rparr>) (sessions db)\<rparr>)" "constraints_ok db1"
        by (rule activate_queued_eq [OF act con]) blast
      have "r1 = r" using unique_onD [OF kernel_inv_keys(4) [OF inv] a(2) mem] a(3) oid by simp
      then show thesis
        by (intro activated [OF s None Some oid a(1), of "a\<lparr>ac_newly_activated := True\<rparr>"])
          (use a res in \<open>simp_all add: schema_ok_def\<close>)
    qed
  qed
qed

lemma queued_no_batches: "op_ok C r bs ch \<Longrightarrow> o_manifest_json r = None \<Longrightarrow> bs = []"
  by (cases bs) (auto simp: op_ok_def batches_ok_def row_manifest_def)

lemma activated_op_ok:
  assumes ok: "op_ok C r bs ch" and ph: "o_phase r = ''queued''" and mj: "manifest_from_json C mj = Some M"
  shows "op_ok C (activated_row mj r) bs ch'"
proof -
  have none: "o_manifest_json r = None" "o_checkpoint_json r = None" using ok ph by (auto simp: op_ok_def checkpoint_ok_def)
  have bs: "bs = []" by (rule queued_no_batches [OF ok none(1)])
  have out: "o_outcome_json r = None"
    using ok ph outcome_iff_terminal by (fastforce simp: op_ok_def terminal_phase_def)
  have ptr: "o_current_effect_batch_id r = None" "o_input_effect_batch_id r = None"
    using ok ph by (auto simp: op_ok_def pointers_match_def)
  show ?thesis
    using ok none out ptr bs mj
    by (simp add: op_ok_def activated_row_def outcome_ok_def terminal_phase_def checkpoint_ok_def row_manifest_def
        pointers_match_def batches_ok_def)
qed

lemma activate_inv:
  assumes C: "codec_ok C" and inv: "kernel_inv C db"
    and ok: "activate C session_id manifest db = Inr (active, db')"
  shows "kernel_inv C db'"
  using ok kernel_invD(2) [OF inv] C inv
proof (cases rule: activate_cases)
  case (activated s r oid mj a)
  let ?o = "to_string C oid" and ?sk = "to_string C session_id"
  let ?g = "\<lambda>s. s\<lparr>s_active_operation_id := Some ?o\<rparr>"
  note r = next_queued_row [OF activated(4)]
  note op0 = kernel_invD(10) [OF inv r(1)]
  have only: "x = r" if "x \<in> set (operations db)" "o_operation_id x = ?o" for x
    using unique_onD [OF kernel_inv_keys(4) [OF inv] that(1) r(1)] that(2) activated(5) by simp
  have out: "o_outcome_json r = None"
    using op0 r(3) outcome_iff_terminal by (fastforce simp: op_ok_def terminal_phase_def)
  have none: "o_operation_id (activated_row mj x) = ?o \<and> o_outcome_json (activated_row mj x) = None"
    if "x \<in> set (operations db)" "o_operation_id x = ?o" for x
    using only [OF that] out activated(5) by (simp add: activated_row_def)
  have child: "children_of db' = children_of db"
  proof (rule view_eqs)
    show "effects db' = effects db"
      using set_operation_no_release [of db ?o "activated_row mj"] none by (simp add: activated(8) Let_def)
  qed
  have ch: "changes ?sk ?o (activated_row mj) ?g [] [] db db'"
    unfolding changes_def child by (simp add: activated(8) Let_def)
  have bs: "batches_of db' ?o = batches_of db ?o"
    by (rule fun_cong [OF view_eqs(3)]) (simp add: activated(8) Let_def)
  have op: "op_ok C (activated_row mj r) (batches_of db' ?o) (children_of db')"
    unfolding bs
    by (rule activated_op_ok [OF _ r(3) round_trip_dec [OF codec_okD(3) [OF C] activated(6)]])
      (use op0 activated(5) in simp)
  show ?thesis
  proof (rule kernel_inv_change [OF inv activated(9) ch r(1) activated(5) r(2) _ _ _ _ _ op])
    fix x assume x: "x \<in> set (sessions db)" "s_session_id x = ?sk"
    have "x = s" using unique_onD [OF kernel_inv_keys(2) [OF inv] x(1) activated(1)] x(2) activated(2) by simp
    then show "s_session_id (?g x) = ?sk \<and> s_agent_id (?g x) = s_agent_id x \<and>
      s_next_command_position (?g x) = s_next_command_position x \<and>
      s_next_event_sequence (?g x) = s_next_event_sequence x + int (length []) \<and>
      map v_sequence [] = map (\<lambda>i. s_next_event_sequence x + int i) [0..<length []] \<and>
      s_active_operation_id x \<in> {None, Some ?o} \<and>
      s_active_operation_id (?g x) = (if active_phase (o_phase (activated_row mj r)) then Some ?o else None)"
      using activated(2,3) by (simp add: activated_row_def active_phase_def)
  qed (use r activated(5) in \<open>simp_all add: activated_row_def\<close>)
qed (use inv in simp_all)

end
