(* ===== verification/Kernel_History.thy ===== *)
theory Kernel_History
  imports Kernel_Drive "HOL-Library.Sublist"
begin

section \<open>What no transaction undoes\<close>

text \<open>
  A relation \<open>later db db'\<close> that every write statement of the kernel satisfies, and so every
  transaction and every sequence of them: rows are never deleted, the semantic history, the
  commands, the batches and the cancellation requests only grow at the end, an operation that
  ended never changes again, a manifest once frozen stays, every other change of an operation
  raises its transition version, and a settled or unknown effect keeps its status, its dispatch
  count and its outcome.
\<close>

subsection \<open>Rows\<close>

definition session_later :: "'t session_row \<Rightarrow> 't session_row \<Rightarrow> bool" where
  "session_later s s' \<longleftrightarrow>
     s_session_id s' = s_session_id s \<and> s_agent_id s' = s_agent_id s \<and>
     s_next_command_position s \<le> s_next_command_position s' \<and>
     s_next_event_sequence s \<le> s_next_event_sequence s'"

definition row_later :: "'t operation_row \<Rightarrow> 't operation_row \<Rightarrow> bool" where
  "row_later r r' \<longleftrightarrow>
     same_admission r r' \<and>
     o_transition_version r \<le> o_transition_version r' \<and>
     (o_transition_version r' = o_transition_version r \<longrightarrow> r' = r) \<and>
     (terminal_phase (o_phase r) \<longrightarrow> r' = r) \<and>
     (o_manifest_json r \<noteq> None \<longrightarrow> o_manifest_json r' = o_manifest_json r)"

definition effect_later :: "'t effect_row \<Rightarrow> 't effect_row \<Rightarrow> bool" where
  "effect_later e e' \<longleftrightarrow>
     e_effect_id e' = e_effect_id e \<and> e_batch_id e' = e_batch_id e \<and> e_position e' = e_position e \<and>
     e_binding e' = e_binding e \<and> e_binding_revision e' = e_binding_revision e \<and>
     e_recovery e' = e_recovery e \<and> e_request_json e' \<in> {e_request_json e, None} \<and>
     e_dispatch_count e \<le> e_dispatch_count e' \<and>
     (e_status e \<in> {''settled'', ''outcome_unknown''} \<longrightarrow>
        e_status e' = e_status e \<and> e_dispatch_count e' = e_dispatch_count e \<and>
        e_outcome_json e' = e_outcome_json e)"

lemma session_later_refl: "session_later s s"
  by (simp add: session_later_def)

lemma session_later_trans: "session_later a b \<Longrightarrow> session_later b c \<Longrightarrow> session_later a c"
  by (simp add: session_later_def)

lemma row_later_refl: "row_later r r"
  by (simp add: row_later_def same_admission_refl)

lemma row_later_trans:
  assumes "row_later a b" and "row_later b c"
  shows "row_later a c"
proof -
  have "same_admission a c" using assms same_admission_trans by (auto simp: row_later_def)
  moreover have "c = a" if "o_transition_version c = o_transition_version a"
  proof -
    have "o_transition_version b = o_transition_version a" "o_transition_version c = o_transition_version b"
      using assms that by (simp_all add: row_later_def)
    then show ?thesis using assms by (simp add: row_later_def)
  qed
  ultimately show ?thesis using assms by (auto simp: row_later_def)
qed

lemma effect_later_refl: "effect_later e e"
  by (simp add: effect_later_def)

lemma effect_later_trans:
  assumes "effect_later a b" and "effect_later b c"
  shows "effect_later a c"
proof -
  have "e_request_json c \<in> {e_request_json a, None}" using assms by (auto simp: effect_later_def)
  moreover have "e_status c = e_status a \<and> e_dispatch_count c = e_dispatch_count a \<and>
      e_outcome_json c = e_outcome_json a" if "e_status a \<in> {''settled'', ''outcome_unknown''}"
  proof -
    have b: "e_status b = e_status a" "e_dispatch_count b = e_dispatch_count a" "e_outcome_json b = e_outcome_json a"
      using assms(1) that unfolding effect_later_def by blast+
    then have "e_status b \<in> {''settled'', ''outcome_unknown''}" using that by simp
    then show ?thesis using assms(2) b unfolding effect_later_def by simp
  qed
  ultimately show ?thesis using assms by (simp add: effect_later_def)
qed

subsection \<open>Tables and databases\<close>

text \<open>The rows of a table changed in place, and new ones came after them.\<close>

definition table_later :: "('r \<Rightarrow> 'r \<Rightarrow> bool) \<Rightarrow> 'r list \<Rightarrow> 'r list \<Rightarrow> bool" where
  "table_later R xs ys \<longleftrightarrow> length xs \<le> length ys \<and> (\<forall>i < length xs. R (xs ! i) (ys ! i))"

lemma table_later_refl: "(\<And>x. R x x) \<Longrightarrow> table_later R xs xs"
  by (simp add: table_later_def)

lemma table_later_trans:
  assumes "\<And>a b c. R a b \<Longrightarrow> R b c \<Longrightarrow> R a c" and "table_later R xs ys" and "table_later R ys zs"
  shows "table_later R xs zs"
proof -
  have "R (xs ! i) (zs ! i)" if "i < length xs" for i
    by (rule assms(1) [of "xs ! i" "ys ! i"]) (use assms(2,3) that in \<open>simp_all add: table_later_def\<close>)
  then show ?thesis using assms(2,3) by (simp add: table_later_def)
qed

lemma table_later_append: "(\<And>x. R x x) \<Longrightarrow> table_later R xs (xs @ ys)"
  by (simp add: table_later_def nth_append)

lemma table_later_update:
  "(\<And>x. R x x) \<Longrightarrow> (\<And>x. x \<in> set xs \<Longrightarrow> P x \<Longrightarrow> R x (f x)) \<Longrightarrow> table_later R xs (update_where P f xs)"
  by (simp add: table_later_def update_where_def)

lemma table_later_mem:
  assumes "table_later R xs ys" and "x \<in> set xs"
  shows "\<exists>y \<in> set ys. R x y"
proof -
  obtain i where "i < length xs" "xs ! i = x" using assms(2) by (auto simp: in_set_conv_nth)
  then show ?thesis using assms(1) by (intro bexI [of _ "ys ! i"]) (auto simp: table_later_def)
qed

definition later :: "'t db \<Rightarrow> 't db \<Rightarrow> bool" where
  "later db db' \<longleftrightarrow>
     prefix (agents db) (agents db') \<and> prefix (commands db) (commands db') \<and>
     prefix (semantic_events db) (semantic_events db') \<and>
     prefix (effect_batches db) (effect_batches db') \<and>
     prefix (cancellation_requests db) (cancellation_requests db') \<and>
     table_later session_later (sessions db) (sessions db') \<and>
     table_later row_later (operations db) (operations db') \<and>
     table_later effect_later (effects db) (effects db')"

lemmas table_refls =
  table_later_refl [where R = session_later, OF session_later_refl]
  table_later_refl [where R = row_later, OF row_later_refl]
  table_later_refl [where R = effect_later, OF effect_later_refl]

lemma later_refl: "later db db"
  by (simp add: later_def table_refls)

lemma later_trans: "later a b \<Longrightarrow> later b c \<Longrightarrow> later a c"
  unfolding later_def
  by (elim conjE, intro conjI)
    (auto intro: prefix_order.trans
      table_later_trans [where R = session_later, OF session_later_trans]
      table_later_trans [where R = row_later, OF row_later_trans]
      table_later_trans [where R = effect_later, OF effect_later_trans])

subsection \<open>Statements\<close>

text \<open>Every statement leads from a database with its constraints to a later one with them.\<close>

definition evolves :: "'t db \<Rightarrow> 't db \<Rightarrow> bool" where
  "evolves db db' \<longleftrightarrow> (constraints_ok db \<longrightarrow> constraints_ok db' \<and> later db db')"

lemma evolves_refl: "evolves db db"
  by (simp add: evolves_def later_refl)

lemma evolves_trans: "evolves a b \<Longrightarrow> evolves b c \<Longrightarrow> evolves a c"
  unfolding evolves_def using later_trans by blast

lemma evolves_execute: "execute db1 = Inr db2 \<Longrightarrow> (constraints_ok db \<Longrightarrow> later db db1) \<Longrightarrow> evolves db db2"
  by (auto simp: evolves_def execute_eq_Inr)

lemma evolves_commit: "commit db1 = Inr db2 \<Longrightarrow> evolves db1 db2"
  by (auto simp: evolves_def commit_eq_Inr later_refl)

lemma evolves_append:
  "execute (db\<lparr>agents := agents db @ a\<rparr>) = Inr db' \<Longrightarrow> evolves db db'"
  "execute (db\<lparr>sessions := sessions db @ s\<rparr>) = Inr db' \<Longrightarrow> evolves db db'"
  "execute (db\<lparr>commands := commands db @ c\<rparr>) = Inr db' \<Longrightarrow> evolves db db'"
  "execute (db\<lparr>operations := operations db @ r\<rparr>) = Inr db' \<Longrightarrow> evolves db db'"
  "execute (db\<lparr>semantic_events := semantic_events db @ v\<rparr>) = Inr db' \<Longrightarrow> evolves db db'"
  "execute (db\<lparr>effect_batches := effect_batches db @ b\<rparr>) = Inr db' \<Longrightarrow> evolves db db'"
  "execute (db\<lparr>effects := effects db @ e\<rparr>) = Inr db' \<Longrightarrow> evolves db db'"
  "execute (db\<lparr>cancellation_requests := cancellation_requests db @ x\<rparr>) = Inr db' \<Longrightarrow> evolves db db'"
  by (erule evolves_execute, simp add: later_def table_refls table_later_append session_later_refl
      row_later_refl effect_later_refl)+

lemma evolves_update_sessions:
  "update_sessions P f db = Inr db' \<Longrightarrow> (\<And>s. P s \<Longrightarrow> session_later s (f s)) \<Longrightarrow> evolves db db'"
  unfolding update_sessions_def
  by (erule evolves_execute) (simp add: later_def table_refls table_later_update session_later_refl)

lemma evolves_update_effects:
  "update_effects P f db = Inr db' \<Longrightarrow> (\<And>e. P e \<Longrightarrow> effect_later e (f e)) \<Longrightarrow> evolves db db'"
  unfolding update_effects_def
  by (erule evolves_execute) (simp add: later_def table_refls table_later_update effect_later_refl)

lemma later_release:
  assumes "unique_on e_effect_id (effects db)"
  shows "later db (release_finished_effect_requests oid db)"
    and "unique_on e_effect_id (effects (release_finished_effect_requests oid db))"
proof -
  have "effect_later e (released db oid e)" for e
    by (auto simp: effect_later_def released_def)
  then have "table_later effect_later (effects db) (map (released db oid) (effects db))"
    by (simp add: table_later_def)
  then show "later db (release_finished_effect_requests oid db)"
    by (simp add: later_def release_effects [OF assms] table_refls)
  show "unique_on e_effect_id (effects (release_finished_effect_requests oid db))"
    using assms by (simp add: release_effects [OF assms] unique_on_def o_def)
qed

lemma later_releases:
  "unique_on e_effect_id (effects db) \<Longrightarrow> later db (fold release_finished_effect_requests ids db)"
proof (induction ids arbitrary: db)
  case (Cons oid ids)
  then show ?case using later_release [OF Cons.prems, of oid] by (auto intro: later_trans)
qed (simp add: later_refl)

lemma evolves_update_operations:
  assumes upd: "update_operations P f db = Inr db'"
    and f: "\<And>r. P r \<Longrightarrow> row_later r (f r)"
  shows "evolves db db'"
  using upd unfolding update_operations_def
proof (rule evolves_execute)
  let ?db1 = "db\<lparr>operations := update_where P f (operations db)\<rparr>"
  assume con: "constraints_ok db"
  have "later db ?db1"
    using f by (simp add: later_def table_refls table_later_update row_later_refl)
  moreover have "later ?db1 (fold release_finished_effect_requests (map o_operation_id (filter P (operations db))) ?db1)"
    by (rule later_releases) (use schema_keys(11) [OF con] in simp)
  ultimately show "later db (fold release_finished_effect_requests (map o_operation_id (filter P (operations db))) ?db1)"
    by (rule later_trans)
qed

lemma evolves_fold:
  assumes "try_fold f xs db = Inr db'" and "\<And>x d d'. f x d = Inr d' \<Longrightarrow> evolves d d'"
  shows "evolves db db'"
  by (rule try_fold_invariant [where I = "evolves db", OF assms(1) evolves_refl])
    (use assms(2) evolves_trans in blast)

subsection \<open>Transactions\<close>

lemma row_later_bump:
  assumes "o_transition_version r' = o_transition_version r + 1" and "same_admission r r'"
    and "\<not> terminal_phase (o_phase r)"
    and "o_manifest_json r \<noteq> None \<Longrightarrow> o_manifest_json r' = o_manifest_json r"
  shows "row_later r r'"
  using assms by (auto simp: row_later_def)

lemma evolves_create_agent: "create_agent C a db = Inr db' \<Longrightarrow> evolves db db'"
  by (auto simp: create_agent_def evolves_refl split: if_splits intro: evolves_append(1))

lemma evolves_create_session: "create_session C s a db = Inr db' \<Longrightarrow> evolves db db'"
  by (auto simp: create_session_def evolves_refl elim!: and_then_InrE split: option.splits if_splits
      intro: evolves_trans [OF evolves_append(2) evolves_commit])

lemma evolves_submit:
  assumes "submit_with_mode C new_id session_id command mode db = Inr (admission, db')"
  shows "evolves db db'"
proof -
  have "session_later s (s\<lparr>s_next_command_position := s_next_command_position s + 1\<rparr>)" for s :: "'a session_row"
    by (simp add: session_later_def)
  note upd = evolves_update_sessions [OF _ this]
  show ?thesis
    using assms unfolding submit_with_mode_def Let_def
    by (auto elim!: and_then_InrE split: option.splits
        simp: evolves_refl dest!: evolves_append(3,4) upd evolves_commit) (assumption | erule evolves_trans)+
qed

lemma evolves_append_events:
  assumes "append_events C ids session_id operation_id events db = Inr db'"
  shows "evolves db db'"
proof -
  have one: "evolves d d'" if "insert_event C ids session_id operation_id n x d = Inr d'" for n x d d'
    using that by (auto simp: insert_event_def elim!: and_then_InrE split: prod.splits intro: evolves_append(5))
  have "session_later s (s\<lparr>s_next_event_sequence := s_next_event_sequence s + int (length events)\<rparr>)"
    for s :: "'a session_row" by (simp add: session_later_def)
  note upd = evolves_update_sessions [OF _ this]
  show ?thesis
    using assms unfolding append_events_def Let_def
    by (auto elim!: and_then_InrE dest!: evolves_fold [OF _ one] upd intro: evolves_trans)
qed

lemma evolves_clear_active:
  assumes "clear_active C session_id operation_id message db = Inr db'"
  shows "evolves db db'"
proof -
  have "session_later s (s\<lparr>s_active_operation_id := None\<rparr>)" for s :: "'a session_row"
    by (simp add: session_later_def)
  note upd = evolves_update_sessions [OF _ this]
  show ?thesis
    using assms unfolding clear_active_def Let_def by (auto elim!: and_then_InrE intro!: upd)
qed

lemma active_not_terminal: "active_phase p \<Longrightarrow> \<not> terminal_phase p"
  using terminal_not_active by blast

lemma evolves_decision:
  assumes "commit_decision C ids session_id operation_id tv decision db = Inr (committed, db')"
  shows "evolves db db'"
proof -
  have row: "row_later r (decided phase cpj ocj r)" if "o_phase r = ''need_decision''" for r phase cpj ocj
    by (rule row_later_bump) (use that in \<open>simp_all add: decided_def same_admission_def terminal_phase_def\<close>)
  note upd = evolves_update_operations [OF _ row, unfolded decided_def [abs_def]]
  show ?thesis
    using assms unfolding commit_decision_def Let_def
    by (auto elim!: and_then_InrE split: prod.splits if_splits
        dest!: evolves_append_events upd evolves_clear_active evolves_commit
        simp: evolves_refl) (assumption | erule evolves_trans)+
qed

lemma evolves_intents:
  assumes "commit_effect_batch_intent C bid ids oid tv intent db = Inr (res, db')"
  shows "evolves db db'"
proof -
  have row: "row_later r (intended cpj b r)" if "o_phase r = ''need_decision''" for r cpj b
    by (rule row_later_bump) (use that in \<open>simp_all add: intended_def same_admission_def terminal_phase_def\<close>)
  note upd = evolves_update_operations [OF _ row, unfolded intended_def [abs_def]]
  have one: "evolves d d'" if "insert_effect C ids bid x d = Inr d'" for x d d'
    using that by (auto simp: insert_effect_def elim!: and_then_InrE split: prod.splits intro: evolves_append(7))
  show ?thesis
    using assms unfolding commit_effect_batch_intent_def Let_def
    by (auto elim!: and_then_InrE split: if_splits
        dest!: evolves_append(6) evolves_fold [OF _ one] upd evolves_commit
        simp: evolves_refl) (assumption | erule evolves_trans)+
qed

lemma evolves_transition_finished:
  assumes "transition_finished_batch C oid bid tv blocked db = Inr db'"
  shows "evolves db db'"
proof -
  have row: "row_later r (finished_row b blocked r)" if "o_phase r = ''effect_dispatched''" for r b
    by (rule row_later_bump) (use that in \<open>simp_all add: finished_row_def same_admission_def terminal_phase_def\<close>)
  note upd = evolves_update_operations [OF _ row, unfolded finished_row_def [abs_def]]
  show ?thesis
    using assms unfolding transition_finished_batch_def Let_def
    by (cases blocked; auto elim!: and_then_InrE intro!: upd)
qed

lemma evolves_update_status:
  assumes "update_effect_status C eid DispatchStarted EffectOutcomeUnknown db = Inr db'"
  shows "evolves db db'"
proof -
  have row: "effect_later e (e\<lparr>e_status := ''outcome_unknown''\<rparr>)" if "e_status e = ''dispatch_started''"
    for e :: "'a effect_row" using that by (simp add: effect_later_def)
  show ?thesis
    using assms unfolding update_effect_status_def Let_def
    by (auto elim!: and_then_InrE intro!: evolves_update_effects [OF _ row])
qed

lemma evolves_transition:
  "transition_batch_if_terminal C oid bid tv db = Inr (terminal, db') \<Longrightarrow> evolves db db'"
  unfolding transition_batch_if_terminal_def Let_def
  by (auto elim!: and_then_InrE split: if_splits simp: evolves_refl dest: evolves_transition_finished)

lemma evolves_settle:
  assumes "settle_batch_effect C oid bid eid tv outcome db = Inr (fin, db')"
  shows "evolves db db'"
proof -
  have row: "effect_later e (e\<lparr>e_status := ''settled'', e_outcome_json := t\<rparr>)" if "e_status e = ''dispatch_started''"
    for e :: "'a effect_row" and t using that by (simp add: effect_later_def)
  note upd = evolves_update_effects [OF _ row]
  show ?thesis
    using assms unfolding settle_batch_effect_def Let_def
    by (auto elim!: and_then_InrE split: prod.splits
        dest!: upd evolves_transition evolves_commit) (assumption | erule evolves_trans)+
qed

lemma evolves_record_unknown:
  "record_batch_effect_unknown C oid bid eid tv db = Inr (fin, db') \<Longrightarrow> evolves db db'"
  unfolding record_batch_effect_unknown_def
  by (auto elim!: and_then_InrE split: prod.splits
      dest!: evolves_update_status evolves_transition evolves_commit) (assumption | erule evolves_trans)+

lemma evolves_finish_attempt:
  "finish_effect_batch_attempt C oid bid tv db = Inr (fin, db') \<Longrightarrow> evolves db db'"
  unfolding finish_effect_batch_attempt_def
  by (auto elim!: and_then_InrE split: prod.splits if_splits simp: evolves_refl
      dest!: evolves_transition evolves_commit) (assumption | erule evolves_trans)+

lemma evolves_close_batch:
  assumes "close_dispatched_batch_for_cancellation C oid bid tv db = Inr (phase, db')"
  shows "evolves db db'"
proof -
  have row: "effect_later e (e\<lparr>e_status := ''outcome_unknown''\<rparr>)" if "e_status e = ''dispatch_started''"
    for e :: "'a effect_row" using that by (simp add: effect_later_def)
  note upd = evolves_update_effects [OF _ row]
  show ?thesis
    using assms unfolding close_dispatched_batch_for_cancellation_def Let_def
    by (auto elim!: and_then_InrE split: if_splits
        dest!: upd evolves_transition_finished) (assumption | erule evolves_trans)+
qed

lemma evolves_prepare_child:
  assumes "prepare_child C phase bid nt p db = Inr (pend, p', db')"
  shows "evolves db db'"
proof -
  obtain dispatch p1 db1 where sd: "should_dispatch C phase p db = Inr (dispatch, p1, db1)"
    using assms by (auto simp: prepare_child_def elim!: and_then_InrE)
  show ?thesis
    using sd
  proof (cases rule: should_dispatch_cases)
    case dispatch
    obtain n where n: "n = pr_dispatch_count p + 1" and upd: "update_effects (\<lambda>e. e_effect_id e = to_string C (pr_effect_id p) \<and>
        e_status e = status_name (pr_status p) \<and> e_dispatch_count e = pr_dispatch_count p)
       (\<lambda>e. e\<lparr>e_status := ''dispatch_started'', e_dispatch_count := n\<rparr>) db = Inr db'"
      using assms sd dispatch(1-3) unfolding prepare_child_def Let_def
      by (auto simp: ok_or_eq_Inr checked_add_u64_eq_Some elim!: and_then_InrE)
    show ?thesis by (rule evolves_update_effects [OF upd]) (use dispatch(4) n in \<open>auto simp: effect_later_def\<close>)
  next
    case unknown
    then have "db' = db1" using assms sd unfolding prepare_child_def by simp
    then show ?thesis using evolves_update_status [OF unknown(6)] by simp
  next
    case skip
    then have "db' = db" using assms sd unfolding prepare_child_def by simp
    then show ?thesis by (simp add: evolves_refl)
  qed
qed

lemma evolves_prepare_children:
  "prepare_children C phase bid nt stored db = Inr (pend, stored', db') \<Longrightarrow> evolves db db'"
proof (induction stored arbitrary: db pend stored')
  case (Cons p stored)
  then show ?case
    by (auto elim!: and_then_InrE dest!: evolves_prepare_child intro: evolves_trans)
qed (simp add: evolves_refl)

lemma evolves_prepare:
  assumes "prepare_effect_batch C oid tv db = Inr (start, db')"
  shows "evolves db db'"
proof -
  have upd: "evolves d d'" if "update_operations (\<lambda>r. o_operation_id r = x \<and> o_transition_version r = y \<and>
        o_phase r = p \<and> o_current_effect_batch_id r = z) (\<lambda>r. r\<lparr>o_phase := ''effect_dispatched'',
        o_transition_version := o_transition_version r + 1\<rparr>) d = Inr d'" "\<not> terminal_phase p" for x y p z d d'
    using that(1)
    by (rule evolves_update_operations) (rule row_later_bump, use that(2) in \<open>auto simp: same_admission_def\<close>)
  note upds = upd [of _ _ "''effect_intent''"] upd [of _ _ "''effect_dispatched''"]
  have fin: "evolves d d'" if "finish_batch_without_invocations C oid bid tv ps d = Inr (st, d')" for bid ps st d d'
    using that unfolding finish_batch_without_invocations_def Let_def
    by (auto elim!: and_then_InrE split: if_splits dest: evolves_transition_finished)
  show ?thesis
    using assms unfolding prepare_effect_batch_def Let_def
    by (auto elim!: and_then_InrE split: if_splits prod.splits
        dest!: evolves_prepare_children fin upds evolves_commit simp: evolves_refl terminal_phase_def) (assumption | erule evolves_trans)+
qed

lemma evolves_request_cancellation:
  assumes "request_cancellation_tx C session_id operation_id cancellation_id db = Inr (signal, db')"
  shows "evolves db db'"
  using assms
proof (cases rule: request_cancellation_cases)
  case (requested r s phase)
  have "execute db' = Inr db'" using requested(9) by (simp add: schema_ok_def execute_def)
  then show ?thesis using evolves_append(8) unfolding requested(8) by blast
qed (simp add: evolves_refl)

lemma evolves_close_stored:
  "close_stored_batch C operation_id stored db = Inr (stored', db') \<Longrightarrow> evolves db db'"
  unfolding close_stored_batch_def Let_def
  by (auto elim!: and_then_InrE split: if_splits simp: evolves_refl dest: evolves_close_batch)

lemma evolves_load_cancellation:
  "load_requested_cancellation C session_id operation_id db = Inr (loaded, db') \<Longrightarrow> evolves db db'"
  unfolding load_requested_cancellation_def
  by (auto elim!: and_then_InrE split: if_splits simp: evolves_refl
      dest!: evolves_close_stored evolves_commit) (assumption | erule evolves_trans)+

lemma row_later_closed: "\<not> terminal_phase (o_phase r) \<Longrightarrow> row_later r (closed_row phase cpj ocj r)"
  by (rule row_later_bump) (simp_all add: closed_row_def same_admission_def)

lemma evolves_commit_cancellation:
  assumes "commit_cancellation C ids session_id operation_id tv hw transition db = Inr (u, db')"
  shows "evolves db db'"
proof -
  have upd: "evolves d d'" if "update_operations (\<lambda>r. o_session_id r = x \<and> o_operation_id r = y \<and>
        o_transition_version r = z \<and> o_phase r = p0)
      (\<lambda>r. r\<lparr>o_phase := ph, o_checkpoint_json := cpj, o_current_effect_batch_id := None,
         o_input_effect_batch_id := None, o_outcome_json := Some ocj,
         o_transition_version := o_transition_version r + 1\<rparr>) d = Inr d'"
      "phase_from_database p0 = Inr phase" "is_cancellable phase" for x y z p0 ph cpj ocj d d' phase
  proof -
    have "\<not> terminal_phase p0"
      using that(2,3) active_not_terminal cancellable_active phase_text.parse_iff by metis
    then show ?thesis
      by (intro evolves_update_operations [OF that(1)] row_later_bump) (auto simp: same_admission_def)
  qed
  obtain p0 phase cpj ocj db1 db2 db3 where
      app: "append_events C ids session_id operation_id (ct_events transition) db = Inr db1"
    and u: "update_operations (\<lambda>r. o_session_id r = to_string C session_id \<and>
        o_operation_id r = to_string C operation_id \<and> o_transition_version r = tv \<and> o_phase r = p0)
      (\<lambda>r. r\<lparr>o_phase := ''cancelled'', o_checkpoint_json := Some cpj, o_current_effect_batch_id := None,
         o_input_effect_batch_id := None, o_outcome_json := Some ocj,
         o_transition_version := o_transition_version r + 1\<rparr>) db1 = Inr db2"
    and ph: "phase_from_database p0 = Inr phase" "is_cancellable phase"
    and cl: "clear_active C session_id operation_id ''cancelled operation did not own its session'' db2 = Inr db3"
    and cm: "commit db3 = Inr db'"
    using assms unfolding commit_cancellation_def Let_def
    by (auto elim!: and_then_InrE split: if_splits)
  show ?thesis
    by (rule evolves_trans [OF evolves_append_events [OF app] evolves_trans [OF upd [OF u ph]
          evolves_trans [OF evolves_clear_active [OF cl] evolves_commit [OF cm]]]])
qed

lemma evolves_abandonment:
  assumes "commit_unknown_effect_abandonment C ids session_id operation_id tv hw abandonment db = Inr (oc, db')"
  shows "evolves db db'"
proof -
  have row: "row_later r (closed_row ph cpj ocj r)" if "o_phase r = ''outcome_unknown''" for r ph cpj ocj
    by (rule row_later_closed) (simp add: that terminal_phase_def)
  note upd = evolves_update_operations [OF _ row, unfolded closed_row_def [abs_def]]
  show ?thesis
    using assms unfolding commit_unknown_effect_abandonment_def Let_def
    by (auto elim!: and_then_InrE split: if_splits
        dest!: upd evolves_append_events evolves_clear_active evolves_commit)
      (assumption | erule evolves_trans)+
qed

lemma evolves_activate_queued:
  assumes "activate_queued C session_id operation_id manifest db = Inr db'"
  shows "evolves db db'"
proof -
  have row: "row_later r (activated_row mj r)" if "o_phase r = ''queued''" "o_manifest_json r = None" for r mj
    by (rule row_later_bump) (use that in \<open>simp_all add: activated_row_def same_admission_def terminal_phase_def\<close>)
  note upd = evolves_update_operations [OF _ row, unfolded activated_row_def [abs_def]]
  have "session_later s (s\<lparr>s_active_operation_id := x\<rparr>)" for s x
    by (simp add: session_later_def)
  note upd2 = evolves_update_sessions [OF _ this]
  show ?thesis
    using assms unfolding activate_queued_def Let_def
    by (auto elim!: and_then_InrE dest!: upd upd2) (assumption | erule evolves_trans)+
qed

lemma evolves_activate: "activate C session_id manifest db = Inr (active, db') \<Longrightarrow> evolves db db'"
  unfolding activate_def
  by (auto elim!: and_then_InrE split: option.splits simp: evolves_refl
      dest!: evolves_activate_queued evolves_commit) (assumption | erule evolves_trans)+

end
