(* ===== verification/Kernel_Steps.thy ===== *)
theory Kernel_Steps
  imports Kernel_History Renoa_Systems
begin

section \<open>The kernel as a transition system\<close>

text \<open>
  Every transaction of the kernel as a step on the database, in any order and with any arguments:
  the fresh identities, the callers and the plugins are arbitrary. Three transactions carry a
  guard, the check that the calling code makes before it on values it loaded earlier: the schema
  version of a checkpoint and the bindings of intents against the frozen manifest, and that the
  version a cancellation was loaded at is not that of a batch in flight. \<open>Kernel_Runs\<close> shows that
  the multi-transaction calls establish the guards.
\<close>

inductive kernel_step :: "('t, 'v) codec \<Rightarrow> 't db \<Rightarrow> 't db \<Rightarrow> bool" for C where
  create_agent:
    "create_agent C agent_id db = Inr db' \<Longrightarrow> kernel_step C db db'"
| create_session:
    "create_session C session_id agent_id db = Inr db' \<Longrightarrow> kernel_step C db db'"
| submit:
    "submit_with_mode C new_id session_id command mode db = Inr (admission, db') \<Longrightarrow>
     kernel_step C db db'"
| activate:
    "activate C session_id manifest db = Inr (active, db') \<Longrightarrow> kernel_step C db db'"
| decision:
    "commit_decision C ids session_id operation_id tv decision db = Inr (committed, db') \<Longrightarrow>
     checkpoint_fits C operation_id (decision_checkpoint decision) db \<Longrightarrow> kernel_step C db db'"
| intents:
    "commit_effect_batch_intent C batch_id ids operation_id tv intent db = Inr (res, db') \<Longrightarrow>
     checkpoint_fits C operation_id (nb_checkpoint intent) db \<Longrightarrow>
     intents_fit C operation_id (nb_effects intent) db \<Longrightarrow> kernel_step C db db'"
| prepare:
    "prepare_effect_batch C operation_id tv db = Inr (start, db') \<Longrightarrow> kernel_step C db db'"
| settle:
    "settle_batch_effect C operation_id batch_id effect_id tv outcome db = Inr (finished, db') \<Longrightarrow>
     kernel_step C db db'"
| unknown:
    "record_batch_effect_unknown C operation_id batch_id effect_id tv db = Inr (finished, db') \<Longrightarrow>
     kernel_step C db db'"
| finish:
    "finish_effect_batch_attempt C operation_id batch_id tv db = Inr (finish, db') \<Longrightarrow>
     kernel_step C db db'"
| request:
    "request_cancellation_tx C session_id operation_id cancellation_id db = Inr (signal, db') \<Longrightarrow>
     kernel_step C db db'"
| load:
    "load_requested_cancellation C session_id operation_id db = Inr (loaded, db') \<Longrightarrow>
     kernel_step C db db'"
| cancel:
    "commit_cancellation C ids session_id operation_id tv high_water transition db = Inr (u, db') \<Longrightarrow>
     checkpoint_fits C operation_id (ct_checkpoint transition) db \<Longrightarrow>
     batch_closed C operation_id tv db \<Longrightarrow> kernel_step C db db'"
| abandon:
    "commit_unknown_effect_abandonment C ids session_id operation_id tv high_water abandonment db =
       Inr (outcome, db') \<Longrightarrow>
     checkpoint_fits C operation_id (ab_checkpoint abandonment) db \<Longrightarrow> kernel_step C db db'"

abbreviation kernel_steps :: "('t, 'v) codec \<Rightarrow> 't db \<Rightarrow> 't db \<Rightarrow> bool" where
  "kernel_steps C \<equiv> (kernel_step C)\<^sup>*\<^sup>*"

lemma kernel_step_inv:
  assumes C: "codec_ok C" and step: "kernel_step C db db'" and inv: "kernel_inv C db"
  shows "kernel_inv C db'"
  using step inv
  by cases
    (auto intro: create_agent_inv create_session_inv submit_with_mode_inv [OF C] activate_inv [OF C]
      commit_decision_inv [OF C] commit_effect_batch_intent_inv [OF C] prepare_effect_batch_inv [OF C]
      settle_batch_effect_inv [OF C] record_batch_effect_unknown_inv finish_effect_batch_attempt_inv
      request_cancellation_inv load_requested_cancellation_inv [OF C] commit_cancellation_inv [OF C]
      commit_abandonment_inv [OF C])

lemma kernel_step_later:
  assumes inv: "kernel_inv C db" and step: "kernel_step C db db'"
  shows "later db db'"
proof -
  have "evolves db db'"
    using step
    by cases
      (auto intro: evolves_create_agent evolves_create_session evolves_submit evolves_activate
        evolves_decision evolves_intents evolves_prepare evolves_settle evolves_record_unknown
        evolves_finish_attempt evolves_request_cancellation evolves_load_cancellation
        evolves_commit_cancellation evolves_abandonment)
  then show ?thesis using kernel_invD(2) [OF inv] by (simp add: evolves_def)
qed

interpretation kernel: history_system empty_db "kernel_step C"
    "\<lambda>db. codec_ok C \<longrightarrow> kernel_inv C db" "\<lambda>db db'. codec_ok C \<longrightarrow> later db db'"
  for C :: "('t, 'v) codec"
  by unfold_locales
    (auto intro: kernel_inv_empty kernel_step_inv kernel_step_later later_refl later_trans)

lemma reachable_kernel_inv: "codec_ok C \<Longrightarrow> kernel_steps C empty_db db \<Longrightarrow> kernel_inv C db"
  using kernel.reachable_inv by blast

lemma kernel_steps_inv: "codec_ok C \<Longrightarrow> kernel_steps C db db' \<Longrightarrow> kernel_inv C db \<Longrightarrow> kernel_inv C db'"
  using kernel.steps_inv by blast

lemma kernel_steps_later: "codec_ok C \<Longrightarrow> kernel_steps C db db' \<Longrightarrow> kernel_inv C db \<Longrightarrow> later db db'"
  using kernel.steps_hist by blast

end
