(* ===== verification/Kernel_Runs.thy ===== *)
theory Kernel_Runs
  imports Kernel_Steps
begin

section \<open>Calls of several transactions\<close>

text \<open>
  Driving a session, requesting a cancellation and abandoning an unknown effect are sequences of
  transactions, with whatever other callers commit in between. A judgement \<open>performs C P d Q\<close> says
  that a call only makes kernel steps and so keeps the invariant and the history, from a database
  with \<open>P\<close> to one with \<open>Q\<close>. What a call learned from an earlier transaction it may still rely on
  later when it is stable: true of every later database.
\<close>

subsection \<open>Stable facts\<close>

definition stable :: "('t, 'v) codec \<Rightarrow> ('t db \<Rightarrow> bool) \<Rightarrow> bool" where
  "stable C P \<longleftrightarrow> (\<forall>db db'. kernel_inv C db' \<longrightarrow> later db db' \<longrightarrow> P db \<longrightarrow> P db')"

text \<open>The frozen manifest of an operation.\<close>

definition manifest_is :: "('t, 'v) codec \<Rightarrow> OperationId \<Rightarrow> RuntimeManifest \<Rightarrow> 't db \<Rightarrow> bool" where
  "manifest_is C operation_id M db \<longleftrightarrow>
     (\<exists>r \<in> set (operations db). o_operation_id r = to_string C operation_id \<and> row_manifest C r = Some M)"

text \<open>The operation is past a transition version, or at it and has no batch in flight.\<close>

definition passed :: "('t, 'v) codec \<Rightarrow> OperationId \<Rightarrow> i64 \<Rightarrow> 't db \<Rightarrow> bool" where
  "passed C operation_id version db \<longleftrightarrow>
     (\<exists>r \<in> set (operations db). o_operation_id r = to_string C operation_id \<and>
        version \<le> o_transition_version r \<and>
        (o_transition_version r = version \<longrightarrow> o_phase r \<noteq> ''effect_dispatched''))"

text \<open>The operation ended with an outcome.\<close>

definition finished_as :: "('t, 'v) codec \<Rightarrow> OperationId \<Rightarrow> OperationOutcome \<Rightarrow> 't db \<Rightarrow> bool" where
  "finished_as C operation_id outcome db \<longleftrightarrow>
     (\<exists>r \<in> set (operations db). o_operation_id r = to_string C operation_id \<and>
        terminal_phase (o_phase r) \<and>
        Option.bind (o_outcome_json r) (outcome_from_json C) = Some outcome)"

lemma later_operation:
  assumes "later db db'" and "r \<in> set (operations db)"
  shows "\<exists>r' \<in> set (operations db'). o_operation_id r' = o_operation_id r \<and> row_later r r'"
proof -
  obtain r' where "r' \<in> set (operations db')" "row_later r r'"
    using assms table_later_mem [of row_later "operations db" "operations db'"] by (auto simp: later_def)
  then show ?thesis by (auto simp: row_later_def same_admission_def)
qed

lemma row_manifest_later: "row_later r r' \<Longrightarrow> row_manifest C r = Some M \<Longrightarrow> row_manifest C r' = Some M"
  by (cases "o_manifest_json r") (auto simp: row_later_def row_manifest_def)

lemma stable_const [intro!]: "stable C (\<lambda>_. P)"
  by (simp add: stable_def)

lemma stable_conj [intro!]: "stable C P \<Longrightarrow> stable C Q \<Longrightarrow> stable C (\<lambda>db. P db \<and> Q db)"
  by (simp add: stable_def)

lemma manifest_is_stable [intro!]: "stable C (manifest_is C operation_id M)"
  unfolding stable_def manifest_is_def by (metis later_operation row_manifest_later)

lemma finished_as_stable [intro!]: "stable C (finished_as C operation_id outcome)"
  unfolding stable_def finished_as_def
proof (intro allI impI)
  fix db db' :: "'a db"
  assume later: "later db db'"
    and "\<exists>r \<in> set (operations db). o_operation_id r = to_string C operation_id \<and> terminal_phase (o_phase r) \<and>
      Option.bind (o_outcome_json r) (outcome_from_json C) = Some outcome"
  then obtain r where r: "r \<in> set (operations db)" "o_operation_id r = to_string C operation_id"
      "terminal_phase (o_phase r)" "Option.bind (o_outcome_json r) (outcome_from_json C) = Some outcome"
    by blast
  obtain r' where r': "r' \<in> set (operations db')" "row_later r r'"
    using later_operation [OF later r(1)] by blast
  have "r' = r" using r'(2) r(3) by (simp add: row_later_def)
  then show "\<exists>r \<in> set (operations db'). o_operation_id r = to_string C operation_id \<and> terminal_phase (o_phase r) \<and>
      Option.bind (o_outcome_json r) (outcome_from_json C) = Some outcome"
    using r r'(1) by blast
qed

lemma passed_stable [intro!]: "stable C (passed C operation_id version)"
  unfolding stable_def
proof (intro allI impI)
  fix db db' :: "'a db"
  assume later: "later db db'" and "passed C operation_id version db"
  then obtain r where r: "r \<in> set (operations db)" "o_operation_id r = to_string C operation_id"
      "version \<le> o_transition_version r"
      "o_transition_version r = version \<longrightarrow> o_phase r \<noteq> ''effect_dispatched''"
    unfolding passed_def by blast
  obtain r' where r': "r' \<in> set (operations db')" "o_operation_id r' = o_operation_id r"
      "o_transition_version r \<le> o_transition_version r'"
      "o_transition_version r' = o_transition_version r \<longrightarrow> r' = r"
    using later_operation [OF later r(1)] unfolding row_later_def by blast
  have "version \<le> o_transition_version r'" using r(3) r'(3) by simp
  moreover have "o_phase r' \<noteq> ''effect_dispatched''" if v: "o_transition_version r' = version"
  proof -
    have "o_transition_version r = version" using v r(3) r'(3) by simp
    then show ?thesis using v r(4) r'(4) by simp
  qed
  ultimately show "passed C operation_id version db'"
    unfolding passed_def using r'(1,2) r(2) by (intro bexI [of _ r']) simp_all
qed

text \<open>What the guards of the steps need of the facts.\<close>

lemma manifest_fits:
  assumes inv: "kernel_inv C db" and M: "manifest_is C operation_id M db"
  shows "schema_version cp = checkpoint_schema_version M \<Longrightarrow> checkpoint_fits C operation_id cp db"
    and "(\<And>n. n \<in> set intents \<Longrightarrow> btree_get (effect_bindings M) (ni_binding n) = Some (ni_binding_revision n)) \<Longrightarrow>
      intents_fit C operation_id intents db"
proof -
  have same: "row_manifest C r = Some M" if "r \<in> set (operations db)" "o_operation_id r = to_string C operation_id" for r
    using M that unique_onD [OF kernel_inv_keys(4) [OF inv]] by (force simp: manifest_is_def)
  show "checkpoint_fits C operation_id cp db" if "schema_version cp = checkpoint_schema_version M"
    using same that by (simp add: checkpoint_fits_def)
  show "intents_fit C operation_id intents db"
    if "\<And>n. n \<in> set intents \<Longrightarrow> btree_get (effect_bindings M) (ni_binding n) = Some (ni_binding_revision n)"
    using same that by (simp add: intents_fit_def)
qed

lemma passed_closed:
  assumes inv: "kernel_inv C db" and "passed C operation_id version db"
  shows "batch_closed C operation_id version db"
  unfolding batch_closed_def
proof (intro ballI impI)
  fix r assume r: "r \<in> set (operations db)" "o_operation_id r = to_string C operation_id"
    and v: "o_transition_version r = version"
  obtain r' where r': "r' \<in> set (operations db)" "o_operation_id r' = to_string C operation_id"
      "o_transition_version r' = version \<longrightarrow> o_phase r' \<noteq> ''effect_dispatched''"
    using assms(2) by (auto simp: passed_def)
  have "r = r'" by (rule unique_onD [OF kernel_inv_keys(4) [OF inv] r(1) r'(1)]) (simp add: r(2) r'(2))
  then show "o_phase r \<noteq> ''effect_dispatched''" using r'(3) v by simp
qed

subsection \<open>The judgement\<close>

abbreviation db_of :: "('t, 'w) machine \<Rightarrow> 't db" where
  "db_of m \<equiv> k_db (fst m)"

definition performs ::
    "('t, 'v) codec \<Rightarrow> ('t db \<Rightarrow> bool) \<Rightarrow> ('t, 'w, 'r) driver \<Rightarrow> ('r \<Rightarrow> 't db \<Rightarrow> bool) \<Rightarrow> bool" where
  "performs C P d Q \<longleftrightarrow>
     (\<forall>m result m'. kernel_inv C (db_of m) \<longrightarrow> P (db_of m) \<longrightarrow> d m = (result, m') \<longrightarrow>
        kernel_steps C (db_of m) (db_of m') \<and> (\<forall>a. result = Inr a \<longrightarrow> Q a (db_of m')))"

definition others_step :: "('t, 'v) codec \<Rightarrow> ('t, 'v, 'a, 'w) world \<Rightarrow> bool" where
  "others_step C W \<longleftrightarrow> (\<forall>w k k' w'. others W w k = (k', w') \<longrightarrow> kernel_steps C (k_db k) (k_db k'))"

lemma performsI:
  assumes "\<And>m result m'. kernel_inv C (db_of m) \<Longrightarrow> P (db_of m) \<Longrightarrow> d m = (result, m') \<Longrightarrow>
    kernel_steps C (db_of m) (db_of m') \<and> (\<forall>a. result = Inr a \<longrightarrow> Q a (db_of m'))"
  shows "performs C P d Q"
  using assms by (auto simp: performs_def)

lemma performsD:
  assumes "performs C P d Q" and "d m = (result, m')" and "kernel_inv C (db_of m)" and "P (db_of m)"
  shows "kernel_steps C (db_of m) (db_of m')" and "result = Inr a \<Longrightarrow> Q a (db_of m')"
  using assms unfolding performs_def by blast+

lemma performs_weaken:
  assumes "performs C P d Q" and "\<And>db. P' db \<Longrightarrow> P db"
    and "\<And>a db. Q a db \<Longrightarrow> Q' a db"
  shows "performs C P' d Q'"
  using assms unfolding performs_def by blast

lemma performs_return:
  "(\<And>a db. result = Inr a \<Longrightarrow> P db \<Longrightarrow> Q a db) \<Longrightarrow> performs C P (driver_return result) Q"
  by (cases result) (auto simp: performs_def driver_return_def)

lemma performs_then:
  assumes C: "codec_ok C" and d: "performs C P d Q" and f: "\<And>a. performs C (Q a) (f a) R"
  shows "performs C P (driver_then d f) R"
proof (rule performsI)
  fix m result m'
  assume inv: "kernel_inv C (db_of m)" and P: "P (db_of m)" and run: "driver_then d f m = (result, m')"
  obtain x m1 where d1: "d m = (x, m1)" by (cases "d m") blast
  note s1 = performsD [OF d d1 inv P]
  have inv1: "kernel_inv C (db_of m1)" by (rule kernel_steps_inv [OF C s1(1) inv])
  show "kernel_steps C (db_of m) (db_of m') \<and> (\<forall>a. result = Inr a \<longrightarrow> R a (db_of m'))"
  proof (cases x)
    case (Inl e)
    then show ?thesis using run d1 s1(1) by (auto simp: driver_then_def)
  next
    case (Inr a)
    then have f1: "f a m1 = (result, m')" using run d1 by (simp add: driver_then_def)
    note s2 = performsD [OF f f1 inv1 s1(2) [OF Inr]]
    show ?thesis using s1(1) s2 by (auto intro: rtranclp_trans)
  qed
qed

text \<open>A pure check between two transactions, and fresh identities: the facts stay.\<close>

lemma performs_check:
  assumes "\<And>a. result = Inr a \<Longrightarrow> performs C P (f a) Q"
  shows "performs C P (driver_then (driver_return result) f) Q"
  using assms by (cases result) (auto simp: performs_def driver_then_def driver_return_def)

lemma performs_ids:
  assumes "\<And>ids. performs C P (f ids) Q"
  shows "performs C P (driver_then (draw_ids W) f) Q"
proof (rule performsI)
  fix m result m'
  assume inv: "kernel_inv C (db_of m)" and P: "P (db_of m)"
    and run: "driver_then (draw_ids W) f m = (result, m')"
  obtain ids w where "fresh_ids W (snd m) = (ids, w)" by force
  then have "f ids (fst m, w) = (result, m')" using run by (simp add: driver_then_def draw_ids_def)
  from performsD [OF assms this] inv P
  show "kernel_steps C (db_of m) (db_of m') \<and> (\<forall>a. result = Inr a \<longrightarrow> Q a (db_of m'))" by auto
qed

text \<open>A transaction runs after what other callers committed, and stable facts survive that.\<close>

lemma performs_transact:
  assumes C: "codec_ok C" and W: "others_step C W" and P: "stable C P"
    and tx: "\<And>db a db'. kernel_inv C db \<Longrightarrow> P db \<Longrightarrow> tx db = Inr (a, db') \<Longrightarrow>
      kernel_step C db db' \<or> db' = db"
    and post: "\<And>db a db'. kernel_inv C db \<Longrightarrow> kernel_inv C db' \<Longrightarrow> P db \<Longrightarrow> P db' \<Longrightarrow>
      tx db = Inr (a, db') \<Longrightarrow> Q a db'"
  shows "performs C P (transact W tx) Q"
proof (rule performsI)
  fix m result m'
  assume inv: "kernel_inv C (db_of m)" and pre: "P (db_of m)" and run: "transact W tx m = (result, m')"
  obtain k w where o: "others W (snd m) (fst m) = (k, w)" by force
  have s1: "kernel_steps C (db_of m) (k_db k)" using W o unfolding others_step_def by blast
  have inv1: "kernel_inv C (k_db k)" by (rule kernel_steps_inv [OF C s1 inv])
  have pre1: "P (k_db k)"
    using P inv1 kernel_steps_later [OF C s1 inv] pre unfolding stable_def by blast
  show "kernel_steps C (db_of m) (db_of m') \<and> (\<forall>a. result = Inr a \<longrightarrow> Q a (db_of m'))"
  proof (cases "tx (k_db k)")
    case (Inl e)
    then have "result = Inl (StoppedWith e)" "m' = (k, w)" using run o by (simp_all add: transact_def)
    then show ?thesis using s1 by simp
  next
    case (Inr x)
    obtain a db' where x: "tx (k_db k) = Inr (a, db')" using Inr by (cases x) auto
    have m': "result = Inr a" "db_of m' = db'" using run o x by (auto simp: transact_def)
    have s2: "kernel_steps C (k_db k) db'" using tx [OF inv1 pre1 x] by auto
    have inv2: "kernel_inv C db'" by (rule kernel_steps_inv [OF C s2 inv1])
    have "P db'" using P inv2 kernel_steps_later [OF C s2 inv1] pre1 unfolding stable_def by blast
    then have "Q a db'" using post inv1 inv2 pre1 x by blast
    then show ?thesis using m' rtranclp_trans [OF s1 s2] by simp
  qed
qed

lemma performs_read:
  assumes "codec_ok C" and "others_step C W" and "stable C P"
    and post: "\<And>db a. kernel_inv C db \<Longrightarrow> P db \<Longrightarrow> query db = Inr a \<Longrightarrow> Q a db"
  shows "performs C P (read_db W query) Q"
  unfolding read_db_def
  by (rule performs_transact [OF assms(1-3)]) (auto elim!: and_then_InrE intro: post)

subsection \<open>What the loads learn\<close>

lemma load_operation_Some:
  assumes C: "codec_ok C" and inv: "kernel_inv C db"
    and load: "load_operation C session_id operation_id db = Inr (Some stored)"
  obtains r where "r \<in> set (operations db)" and "o_session_id r = to_string C session_id"
    and "o_operation_id r = to_string C operation_id" and "stored_shows C r stored"
proof (cases "\<exists>r \<in> set (operations db). o_session_id r = to_string C session_id \<and>
    o_operation_id r = to_string C operation_id")
  case True
  then obtain r where r: "r \<in> set (operations db)" "o_session_id r = to_string C session_id"
    "o_operation_id r = to_string C operation_id" by blast
  from load_operation_shows [OF C inv r] load have "stored_shows C r stored" by auto
  then show thesis using that [OF r] by blast
next
  case False
  then have "load_operation C session_id operation_id db = Inr None"
    by (intro load_operation_missing [OF inv]) blast
  then show thesis using load by simp
qed

lemma load_active_query_facts:
  assumes C: "codec_ok C" and inv: "kernel_inv C db"
    and load: "load_active_query C agent_id session_id operation_id db = Inr active"
  obtains r where "r \<in> set (operations db)" and "o_operation_id r = to_string C operation_id"
    and "o_session_id r = to_string C session_id"
    and "ac_operation_id active = operation_id" and "row_manifest C r = Some (ac_manifest active)"
    and "phase_as_str (ac_phase active) = o_phase r"
    and "ac_transition_version active = o_transition_version r"
    and "ac_checkpoint active = Option.bind (o_checkpoint_json r) (checkpoint_from_json C)"
proof -
  obtain stored where st: "load_operation C session_id operation_id db = Inr (Some stored)"
      "so_manifest stored = Some (ac_manifest active)" "ac_operation_id active = operation_id"
      "ac_phase active = so_phase stored" "ac_transition_version active = so_transition_version stored"
      "ac_checkpoint active = so_checkpoint stored"
    using load by (auto simp: load_active_query_def ok_or_eq_Inr elim!: and_then_InrE)
  show thesis
    by (rule load_operation_Some [OF C inv st(1)], rule that)
      (use st in \<open>auto simp: stored_shows_def\<close>)
qed

lemma load_active_query_manifest:
  assumes "codec_ok C" and "kernel_inv C db"
    and "load_active_query C agent_id session_id operation_id db = Inr active"
  shows "ac_operation_id active = operation_id" and "manifest_is C operation_id (ac_manifest active) db"
proof -
  obtain r where "r \<in> set (operations db)" "o_operation_id r = to_string C operation_id"
      "ac_operation_id active = operation_id" "row_manifest C r = Some (ac_manifest active)"
    by (rule load_active_query_facts [OF assms])
  then show "ac_operation_id active = operation_id" "manifest_is C operation_id (ac_manifest active) db"
    by (auto simp: manifest_is_def)
qed

lemma load_active_manifest:
  assumes C: "codec_ok C" and inv: "kernel_inv C db"
    and load: "load_active C session_id operation_id db = Inr active"
  shows "ac_operation_id active = operation_id" and "manifest_is C operation_id (ac_manifest active) db"
proof -
  obtain agent_id where q: "load_active_query C agent_id session_id operation_id db = Inr active"
    using load by (auto simp: load_active_def elim!: and_then_InrE)
  show "ac_operation_id active = operation_id" "manifest_is C operation_id (ac_manifest active) db"
    by (rule load_active_query_manifest [OF C inv q])+
qed

lemma activate_manifest:
  assumes C: "codec_ok C" and inv: "kernel_inv C db'"
    and ok: "activate C session_id manifest db = Inr (Some active, db')"
  shows "manifest_is C (ac_operation_id active) (ac_manifest active) db'"
proof -
  obtain agent_id operation_id a where q: "load_active_query C agent_id session_id operation_id db' = Inr a"
      "ac_operation_id active = ac_operation_id a" "ac_manifest active = ac_manifest a"
    using ok by (auto simp: activate_def commit_eq_Inr elim!: and_then_InrE split: option.splits)
  show ?thesis using load_active_query_manifest [OF C inv q(1)] q(2,3) by simp
qed

lemma close_batch_finished:
  assumes ok: "close_dispatched_batch_for_cancellation C oid bid tv db = Inr (phase, db')"
    and con: "constraints_ok db"
  obtains r blocked where "r \<in> set (operations db)" and "o_operation_id r = to_string C oid"
    and "o_transition_version r = tv" and "finished_row (to_string C bid) blocked r \<in> set (operations db')"
proof -
  let ?P = "\<lambda>e. e_batch_id e = to_string C bid \<and> e_status e = ''dispatch_started''"
  obtain db1 blocked where
      upd: "update_effects ?P (\<lambda>e. e\<lparr>e_status := ''outcome_unknown''\<rparr>) db = Inr db1"
    and tr: "transition_finished_batch C oid bid tv blocked db1 = Inr db'"
    using ok unfolding close_dispatched_batch_for_cancellation_def Let_def
    by (elim and_then_InrE) (auto elim!: and_then_InrE split: if_splits)
  have db1: "operations db1 = operations db" "constraints_ok db1"
    using upd by (auto simp: update_effects_def execute_eq_Inr)
  obtain r where r: "r \<in> set (operations db)" "o_operation_id r = to_string C oid" "o_transition_version r = tv"
    using transition_finished_batch_eq(3) [OF tr db1(2)] db1(1) by auto
  have "finished_row (to_string C bid) blocked r \<in> set (operations db')"
    unfolding transition_finished_batch_eq(1) [OF tr db1(2)]
    using r by (auto simp: db1(1) set_operation_def Let_def update_where_def)
  then show thesis using that r by blast
qed

lemma load_cancellation_facts:
  assumes C: "codec_ok C" and inv: "kernel_inv C db"
    and ok: "load_requested_cancellation C session_id operation_id db = Inr (Some p, db')"
  shows "manifest_is C operation_id (pc_manifest p) db'"
    and "passed C operation_id (pc_transition_version p) db'"
proof -
  have "manifest_is C operation_id (pc_manifest p) db' \<and> passed C operation_id (pc_transition_version p) db'"
    using ok C inv
  proof (cases rule: load_requested_cancellation_cases)
    case (pending s r stored stored' p')
    have p: "p' = p" using pending(11) by simp
    have r: "row_manifest C r = so_manifest stored" "o_transition_version r = so_transition_version stored"
        "o_phase r = phase_as_str (so_phase stored)"
      using pending(8) by (simp_all add: stored_shows_def)
    show ?thesis
    proof (cases "so_phase stored = EffectDispatched")
      case False
      then have same: "stored' = stored" "db' = db" using pending(9) by (simp_all add: close_stored_batch_def)
      have "o_phase r \<noteq> ''effect_dispatched''" using False r(3) by (cases "so_phase stored") simp_all
      then show ?thesis
        using pending(5,6,12,13) r same p by (auto simp: manifest_is_def passed_def)
    next
      case True
      then obtain bid phase where
        close: "close_dispatched_batch_for_cancellation C operation_id bid (so_transition_version stored) db = Inr (phase, db')"
        and s': "so_manifest stored' = so_manifest stored"
          "so_transition_version stored' = so_transition_version stored + 1"
        using pending(9)
        by (auto simp: close_stored_batch_def Let_def ok_or_eq_Inr checked_add_i64_eq_Some elim!: and_then_InrE split: if_splits)
      obtain r0 blocked where r0: "r0 \<in> set (operations db)" "o_operation_id r0 = to_string C operation_id"
          "o_transition_version r0 = so_transition_version stored"
          "finished_row (to_string C bid) blocked r0 \<in> set (operations db')"
        by (rule close_batch_finished [OF close kernel_invD(2) [OF inv]])
      have "r0 = r"
        by (rule unique_onD [OF kernel_inv_keys(4) [OF inv] r0(1) pending(5)]) (simp add: r0(2) pending(6))
      then have "row_manifest C (finished_row (to_string C bid) blocked r0) = Some (pc_manifest p)"
        using pending(12) r(1) s'(1) p by (simp add: row_manifest_def finished_row_def)
      then show ?thesis
        using r0(2-4) pending(13) s'(2) p unfolding manifest_is_def passed_def
        by (intro conjI bexI [OF _ r0(4)]) (simp_all add: finished_row_def)
    qed
  qed simp
  then show "manifest_is C operation_id (pc_manifest p) db'" "passed C operation_id (pc_transition_version p) db'"
    by simp_all
qed

lemma load_unknown_facts:
  assumes C: "codec_ok C" and inv: "kernel_inv C db"
    and ok: "load_unknown_effect_state C session_id operation_id db = Inr state"
  shows "state = Pending p \<Longrightarrow> manifest_is C operation_id (pa_manifest p) db"
    and "state = AlreadyAbandoned M outcome \<Longrightarrow> finished_as C operation_id outcome db"
proof -
  obtain stored where st: "load_operation C session_id operation_id db = Inr (Some stored)"
    and cases: "(\<exists>p. state = Pending p \<and> so_manifest stored = Some (pa_manifest p)) \<or>
      (\<exists>M outcome. state = AlreadyAbandoned M outcome \<and> so_outcome stored = Some outcome \<and> so_phase stored = Failed)"
    using ok
    by (auto simp: load_unknown_effect_state_def load_pending_abandonment_def load_prior_abandonment_def
        ok_or_eq_Inr elim!: and_then_InrE split: if_splits list.splits)
  obtain r where r: "r \<in> set (operations db)" "o_operation_id r = to_string C operation_id" "stored_shows C r stored"
    by (rule load_operation_Some [OF C inv st])
  show "manifest_is C operation_id (pa_manifest p) db" if "state = Pending p"
    using that cases r by (auto simp: manifest_is_def stored_shows_def)
  show "finished_as C operation_id outcome db" if "state = AlreadyAbandoned M outcome"
  proof -
    have "terminal_phase (o_phase r)" "Option.bind (o_outcome_json r) (outcome_from_json C) = Some outcome"
      using that cases r(3) by (auto simp: stored_shows_def terminal_phase_def dest: sym)
    then show ?thesis using r by (auto simp: finished_as_def)
  qed
qed

subsection \<open>What the closing transactions leave\<close>

lemma set_operation_mem:
  assumes "r \<in> set (operations db)" and "o_operation_id r = oid"
  shows "f r \<in> set (operations (set_operation oid f db))"
  using assms by (auto simp: set_operation_def Let_def update_where_def)

lemma closed_finished:
  assumes "r \<in> set (operations db)" and "o_operation_id r = to_string C operation_id"
    and "terminal_phase phase" and "outcome_from_json C ocj = Some outcome"
    and "operations db' = operations (set_operation (to_string C operation_id) (closed_row phase cpj ocj) db1)"
    and "operations db1 = operations db"
  shows "finished_as C operation_id outcome db'"
proof -
  have "closed_row phase cpj ocj r \<in> set (operations db')"
    unfolding assms(5) by (rule set_operation_mem) (use assms in simp_all)
  then show ?thesis
    unfolding finished_as_def by (rule bexI [rotated]) (use assms in \<open>simp add: closed_row_def\<close>)
qed

lemma commit_decision_finished:
  assumes C: "codec_ok C" and inv: "kernel_inv C db"
    and ok: "commit_decision C ids session_id operation_id tv decision db = Inr (Finished outcome, db')"
  shows "finished_as C operation_id outcome db'"
  using ok kernel_invD(2) [OF inv]
proof (cases rule: commit_decision_cases)
  case (decision checkpoint events phase oc cpj ocj s db1 r)
  have oc: "oc = Some outcome" using decision(16) by (cases oc) simp_all
  obtain t where t: "ocj = Some t" "outcome_to_json C outcome = Some t"
    using decision(8) oc by (auto simp: ok_or_eq_Inr elim!: and_then_InrE)
  have dec: "outcome_from_json C t = Some outcome" by (rule round_trip_dec [OF codec_okD(5) [OF C] t(2)])
  have "terminal_phase (phase_as_str phase)"
    using decision(1) oc by (cases decision) (auto simp: terminal_phase_def split: if_splits)
  moreover have "decided phase cpj ocj r \<in> set (operations db')"
  proof -
    have ops: "operations db1 = operations db" using decision(5) by (simp add: after_append_def)
    have "operations db' = operations (set_operation (to_string C operation_id) (decided phase cpj ocj) db1)"
      using decision(13) oc by (auto simp: clear_active_def update_sessions_def execute_eq_Inr Let_def elim!: and_then_InrE)
    then show ?thesis using set_operation_mem [of r db1] decision(9,10) ops by simp
  qed
  ultimately show ?thesis
    unfolding finished_as_def using decision(10) dec t(1) by (intro bexI) (simp_all add: decided_def)
qed simp

lemma commit_cancellation_finished:
  assumes C: "codec_ok C" and inv: "kernel_inv C db"
    and ok: "commit_cancellation C ids session_id operation_id tv hw transition db = Inr (u, db')"
  shows "finished_as C operation_id OutcomeCancelled db'"
  using ok kernel_invD(2) [OF inv]
proof (cases rule: commit_cancellation_cases)
  case (1 s r phase cpj ocj)
  show ?thesis
    by (rule closed_finished [OF 1(5,6), where phase = "''cancelled''" and ocj = ocj and cpj = cpj])
      (use 1(13) round_trip_dec [OF codec_okD(5) [OF C] 1(12)]
        in \<open>simp_all add: terminal_phase_def Let_def after_append_def\<close>)
qed

lemma commit_abandonment_finished:
  assumes C: "codec_ok C" and inv: "kernel_inv C db"
    and ok: "commit_unknown_effect_abandonment C ids session_id operation_id tv hw abandonment db = Inr (outcome, db')"
  shows "finished_as C operation_id outcome db'"
  using ok kernel_invD(2) [OF inv]
proof (cases rule: commit_abandonment_cases)
  case (1 s r cpj ocj)
  show ?thesis
    by (rule closed_finished [OF 1(6,7), where phase = "''failed''" and ocj = ocj and cpj = cpj])
      (use 1(2,13) round_trip_dec [OF codec_okD(5) [OF C] 1(12)]
        in \<open>simp_all add: terminal_phase_def Let_def after_append_def\<close>)
qed

subsection \<open>The calls\<close>

lemma compatible_schema:
  "require_compatible_checkpoint M (Some cp) = Inr u \<Longrightarrow> schema_version cp = checkpoint_schema_version M"
  by (auto simp: require_compatible_checkpoint_def Let_def split: if_splits)

lemma performs_leases:
  assumes "\<And>k k'. f k = Inr k' \<Longrightarrow> k_db k' = k_db k" and "\<And>db. P db \<Longrightarrow> Q () db"
  shows "performs C P (on_leases f) Q"
  using assms by (force simp: performs_def on_leases_def split: sum.splits)

lemma lease_db:
  "lease_acquire sid k = Inr k' \<Longrightarrow> k_db k' = k_db k"
  "lease_bind sid oid k = Inr k' \<Longrightarrow> k_db k' = k_db k"
  "k_db (lease_drop sid k) = k_db k"
  "k_db (signal_running_operation sid oid k) = k_db k"
  "k_db (lease_clone sid k) = k_db k"
  "k_db (spawn_adapter sid k) = k_db k"
  "k_db (adapter_done sid k) = k_db k"
  by (auto simp: lease_acquire_def lease_bind_def lease_drop_def signal_running_operation_def
      lease_clone_def spawn_adapter_def adapter_done_def split: if_splits option.splits)

lemma adapters_db:
  "k_db ((spawn_adapter sid ^^ n) k) = k_db k" "k_db ((adapter_done sid ^^ n) k) = k_db k"
  "db_of (let_go W sid n m) = db_of m"
proof -
  show "k_db ((spawn_adapter sid ^^ n) k) = k_db k" by (induction n) (simp_all add: lease_db)
  show dones: "k_db ((adapter_done sid ^^ n) k) = k_db k" for n k by (induction n) (simp_all add: lease_db)
  show "db_of (let_go W sid n m) = db_of m" by (simp add: let_go_def dones)
qed

lemma performs_with_lease:
  assumes "codec_ok C" and "performs C P body Q"
  shows "performs C P (with_lease session_id body) Q"
  unfolding with_lease_def
proof (rule performs_then [OF assms(1) performs_leases [of _ P "\<lambda>_. P"]])
  show "performs C P (\<lambda>m. case body m of (result, k, w) \<Rightarrow> (result, lease_drop session_id k, w)) Q"
    using assms(2) by (auto simp: performs_def lease_db split: prod.splits)
qed (auto dest: lease_db(1))

lemma request_cancellation_performs:
  assumes C: "codec_ok C" and W: "others_step C W"
  shows "performs C (\<lambda>_. True) (request_cancellation C W session_id operation_id cancellation_id) (\<lambda>_ _. True)"
  unfolding request_cancellation_def
  by (rule performs_then [OF C performs_transact [OF C W, where Q = "\<lambda>_ _. True"]])
    (auto intro: kernel_step.request performs_leases simp: lease_db)

lemma commit_cancellation_performs:
  assumes C: "codec_ok C" and W: "others_step C W"
    and fits: "schema_version (ct_checkpoint transition) = checkpoint_schema_version M"
  shows "performs C (\<lambda>db. manifest_is C operation_id M db \<and> passed C operation_id tv db)
    (transact W (commit_cancellation C ids session_id operation_id tv hw transition))
    (\<lambda>_. finished_as C operation_id OutcomeCancelled)"
proof (rule performs_transact [OF C W])
  fix db a db'
  assume inv: "kernel_inv C db" and ok: "commit_cancellation C ids session_id operation_id tv hw transition db = Inr (a, db')"
  show "finished_as C operation_id OutcomeCancelled db'" by (rule commit_cancellation_finished [OF C inv ok])
  assume "manifest_is C operation_id M db \<and> passed C operation_id tv db"
  then show "kernel_step C db db' \<or> db' = db"
    using kernel_step.cancel [OF ok] manifest_fits(1) [OF inv _ fits] passed_closed [OF inv] by blast
qed auto

lemma close_requested_performs:
  assumes C: "codec_ok C" and W: "others_step C W" and P: "stable C P"
  shows "performs C P (close_requested_cancellation C W session_id operation_id runtime)
    (\<lambda>closed db. case closed of None \<Rightarrow> P db | Some outcome \<Rightarrow> finished_as C operation_id outcome db)"
  unfolding close_requested_cancellation_def
proof (rule performs_then [OF C performs_transact [OF C W P, where Q = "\<lambda>loaded db. case loaded of None \<Rightarrow> P db
    | Some p \<Rightarrow> manifest_is C operation_id (pc_manifest p) db \<and> passed C operation_id (pc_transition_version p) db"]])
  fix loaded :: "'b PendingCancellation option"
  let ?M = "\<lambda>p db. manifest_is C operation_id (pc_manifest p) db \<and> passed C operation_id (pc_transition_version p) db"
  let ?Q = "\<lambda>closed db. case closed of None \<Rightarrow> P db | Some outcome \<Rightarrow> finished_as C operation_id outcome db"
  show "performs C (\<lambda>db. case loaded of None \<Rightarrow> P db | Some p \<Rightarrow> ?M p db)
    (case loaded of None \<Rightarrow> driver_return (Inr None) | Some pending \<Rightarrow>
       if pc_manifest pending \<noteq> rt_manifest runtime then driver_return (Inl RuntimeMismatch)
       else driver_then (driver_return (map_err Loop (cancel_operation (rt_plugin runtime) (pc_input pending)))) (\<lambda>transition.
         driver_then (driver_return (require_compatible_checkpoint (pc_manifest pending) (Some (ct_checkpoint transition)))) (\<lambda>_.
         driver_then (driver_return (validate_new_events (ct_events transition))) (\<lambda>_.
         driver_then (draw_ids W) (\<lambda>ids.
         driver_then (transact W (commit_cancellation C ids session_id operation_id
           (pc_transition_version pending) (pc_event_high_water pending) transition)) (\<lambda>_.
         driver_return (Inr (Some OutcomeCancelled))))))))
    ?Q"
  proof (cases loaded)
    case None
    then show ?thesis by (auto intro: performs_return)
  next
    case (Some p)
    show ?thesis
      unfolding Some option.case
      by (auto intro!: performs_return performs_check performs_ids
          performs_then [OF C commit_cancellation_performs [OF C W]] dest: compatible_schema)
  qed
qed (auto intro: kernel_step.load dest: load_cancellation_facts [OF C] split: option.splits)

lemma commit_abandonment_performs:
  assumes C: "codec_ok C" and W: "others_step C W"
    and fits: "schema_version (ab_checkpoint abandonment) = checkpoint_schema_version M"
  shows "performs C (manifest_is C operation_id M)
    (transact W (commit_unknown_effect_abandonment C ids session_id operation_id tv hw abandonment))
    (finished_as C operation_id)"
  by (rule performs_transact [OF C W])
    (auto intro: commit_abandonment_finished [OF C] kernel_step.abandon manifest_fits(1) [OF _ _ fits])

lemma abandon_performs:
  assumes C: "codec_ok C" and W: "others_step C W"
  shows "performs C (\<lambda>_. True) (abandon_unknown_effect C W session_id operation_id runtime)
    (finished_as C operation_id)"
  unfolding abandon_unknown_effect_def
proof (rule performs_with_lease [OF C performs_then [OF C performs_read [OF C W, where Q =
    "\<lambda>state db. case state of Pending p \<Rightarrow> manifest_is C operation_id (pa_manifest p) db
       | AlreadyAbandoned M oc \<Rightarrow> finished_as C operation_id oc db"]]], goal_cases)
  case (3 state)
  show ?case
  proof (cases state)
    case (Pending p)
    show ?thesis
      unfolding Pending UnknownEffectState.case
      by (auto intro!: performs_check performs_ids commit_abandonment_performs [OF C W] dest: compatible_schema)
  next
    case (AlreadyAbandoned M oc)
    show ?thesis
      unfolding AlreadyAbandoned UnknownEffectState.case by (auto intro!: performs_check performs_return)
  qed
qed (auto dest: load_unknown_facts [OF C] split: UnknownEffectState.splits)

subsection \<open>The drive\<close>

lemma performs_keeps:
  assumes C: "codec_ok C" and W: "others_step C W" and P: "stable C P"
    and tx: "\<And>db a db'. kernel_inv C db \<Longrightarrow> P db \<Longrightarrow> tx db = Inr (a, db') \<Longrightarrow> kernel_step C db db'"
  shows "performs C P (transact W tx) (\<lambda>_. P)"
  by (rule performs_transact [OF C W P]) (auto dest: tx)

lemma record_completion_performs:
  assumes "codec_ok C" and "others_step C W" and "stable C P"
  shows "performs C P (record_completion C W operation_id batch_id effect completion) (\<lambda>_. P)"
proof -
  have settle: "performs C P (transact W (settle_batch_effect C operation_id batch_id eid tv outcome)) (\<lambda>_. P)" for eid tv outcome
    by (rule performs_keeps [OF assms]) (erule kernel_step.settle)
  have unknown: "performs C P (transact W (record_batch_effect_unknown C operation_id batch_id eid tv)) (\<lambda>_. P)" for eid tv
    by (rule performs_keeps [OF assms]) (erule kernel_step.unknown)
  show ?thesis
  proof (cases completion)
    case None
    then show ?thesis by (simp add: record_completion_def performs_return)
  next
    case (Some c)
    then show ?thesis by (cases c) (simp_all add: record_completion_def performs_return settle unknown)
  qed
qed

lemma run_attempts_performs:
  assumes C: "codec_ok C" and W: "others_step C W" and P: "stable C P"
  shows "performs C P (run_attempts C W session_id manifest operation_id batch_id attempts latest finished) (\<lambda>_. P)"
proof (induction "length attempts" arbitrary: attempts latest finished rule: less_induct)
  case less
  show ?case
  proof (rule performsI)
    fix m result m'
    assume inv: "kernel_inv C (db_of m)" and pre: "P (db_of m)"
      and run: "run_attempts C W session_id manifest operation_id batch_id attempts latest finished m = (result, m')"
    show "kernel_steps C (db_of m) (db_of m') \<and> (\<forall>a. result = Inr a \<longrightarrow> P (db_of m'))"
    proof (cases "attempts = []")
      case True
      then show ?thesis using run pre by (auto simp: run_attempts.simps)
    next
      case False
      obtain pick w where pick: "next_attempt W (snd m)
          (map (\<lambda>(effect, adapter). (adapter, into_invocation effect manifest)) attempts) = (pick, w)" by force
      show ?thesis
      proof (cases pick)
        case None
        then show ?thesis using run False pick by (auto simp: run_attempts.simps [of _ _ _ _ _ _ attempts] adapters_db)
      next
        case (Some p)
        obtain i completion where p: "p = (i, completion)" by force
        let ?j = "i mod length attempts"
        let ?effect = "fst (attempts ! ?j)"
        obtain x m1 where rec: "record_completion C W operation_id batch_id ?effect completion
            (adapter_done session_id (fst m), w) = (x, m1)"
          by (metis surj_pair)
        note run1 = run [unfolded run_attempts.simps [of _ _ _ _ _ _ attempts] pick Some p prod.case option.case Let_def rec]
        note s1 = performsD [OF record_completion_performs [OF C W P] rec]
        have s1': "kernel_steps C (db_of m) (db_of m1)" using s1(1) inv pre by (simp add: lease_db)
        show ?thesis
        proof (cases x)
          case (Inl e)
          then have "result = Inl e" "db_of m' = db_of m1" using run1 False by (auto simp: adapters_db)
          then show ?thesis using s1' by simp
        next
          case (Inr f)
          have rest: "run_attempts C W session_id manifest operation_id batch_id (remove_at ?j attempts)
              (Some (pe_transition_version ?effect)) (finished \<or> f) m1 = (result, m')"
            using run1 False Inr by simp
          have "P (db_of m1)" using s1(2) [OF _ _ Inr] inv pre by (simp add: lease_db)
          note s2 = performsD [OF less [OF length_remove_at [OF False]] rest kernel_steps_inv [OF C s1' inv] this]
          show ?thesis using s1' s2 by (auto intro: rtranclp_trans)
        qed
      qed
    qed
  qed
qed

lemma drive_effect_phase_performs:
  assumes C: "codec_ok C" and W: "others_step C W" and P: "stable C P"
  shows "performs C P (drive_effect_phase C W session_id active runtime) (\<lambda>_. P)"
  unfolding drive_effect_phase_def
proof (rule performs_then [OF C performs_keeps [OF C W P]])
  show "prepare_effect_batch C (ac_operation_id active) (ac_transition_version active) db = Inr (a, db') \<Longrightarrow>
      kernel_step C db db'" for db a db'
    by (rule kernel_step.prepare)
  have fin: "performs C P (driver_then (transact W (finish_effect_batch_attempt C oid bid tv)) (\<lambda>_. driver_return (Inr ()))) (\<lambda>_. P)"
    for oid bid tv
    by (rule performs_then [OF C performs_keeps [OF C W P]]) (auto intro: kernel_step.finish performs_return)
  show "performs C P (case start of
       Invoke pending \<Rightarrow>
         if \<not> in_tokio W then driver_return (Inl RuntimeUnavailable)
         else
         driver_then (driver_return (try_map
           (resolve_pending active runtime (pb_batch_id pending)) (pb_effects pending)))
           (\<lambda>resolved.
         driver_then (on_leases (\<lambda>k. Inr ((spawn_adapter session_id ^^ length resolved) k))) (\<lambda>_.
         driver_then (run_attempts C W session_id (ac_manifest active) (ac_operation_id active)
           (pb_batch_id pending) resolved None False) (\<lambda>(last_transition, batch_finished).
         driver_then (driver_return (ok_or last_transition
           (Corrupt ''effect batch prepared no child invocations''))) (\<lambda>expected_transition.
         if batch_finished then driver_return (Inr ())
         else
         driver_then (transact W (finish_effect_batch_attempt C (ac_operation_id active)
           (pb_batch_id pending) expected_transition)) (\<lambda>_.
         driver_return (Inr ()))))))
     | _ \<Rightarrow> driver_return (Inr ())) (\<lambda>_. P)" for start
    by (cases start)
      (auto intro!: performs_return performs_check performs_then [OF C performs_leases [of _ P "\<lambda>_. P"]]
        performs_then [OF C run_attempts_performs [OF C W P]] fin simp: adapters_db)
qed

lemma effect_intent_fits:
  assumes "try_map (effect_intent M runtime) requests = Inr intents" and "n \<in> set intents"
  shows "btree_get (effect_bindings M) (ni_binding n) = Some (ni_binding_revision n)"
proof -
  obtain x where "effect_intent M runtime x = Inr n"
    using list_all2_mem2 [OF assms(1) [unfolded try_map_eq_Inr] assms(2)] by blast
  then show ?thesis by (auto simp: effect_intent_def ok_or_eq_Inr elim!: and_then_InrE)
qed

lemma apply_loop_decision_performs:
  assumes C: "codec_ok C" and W: "others_step C W"
  shows "performs C (manifest_is C (ac_operation_id active) (ac_manifest active))
    (apply_loop_decision C W session_id active runtime decision)
    (\<lambda>applied db. case applied of None \<Rightarrow> manifest_is C (ac_operation_id active) (ac_manifest active) db
      | Some outcome \<Rightarrow> finished_as C (ac_operation_id active) outcome db)"
    (is "performs C ?M _ ?Q")
proof (cases "schema_version (decision_checkpoint decision) = checkpoint_schema_version (ac_manifest active)")
  case False
  then show ?thesis by (auto simp: apply_loop_decision_def Let_def intro: performs_return)
next
  case fits: True
  have decided: "performs C ?M
      (driver_then (transact W (commit_decision C ids session_id (ac_operation_id active)
           (ac_transition_version active) decision)) (\<lambda>committed.
         driver_return (Inr (case committed of Finished outcome \<Rightarrow> Some outcome | _ \<Rightarrow> None)))) ?Q" for ids
    by (rule performs_then [OF C performs_transact [OF C W, where Q =
          "\<lambda>c db. case c of Finished oc \<Rightarrow> finished_as C (ac_operation_id active) oc db | _ \<Rightarrow> ?M db"]])
      (auto intro: kernel_step.decision manifest_fits(1) [OF _ _ fits] commit_decision_finished [OF C]
        performs_return split: CommittedDecision.splits)
  show ?thesis
  proof (cases decision)
    case (InvokeEffects checkpoint requests)
    have intents: "performs C ?M
      (driver_then (transact W (commit_effect_batch_intent C b ids (ac_operation_id active)
           (ac_transition_version active) \<lparr>nb_checkpoint = checkpoint, nb_effects = intents\<rparr>))
         (\<lambda>_. driver_return (Inr None))) ?Q"
      if ok: "try_map (effect_intent (ac_manifest active) runtime) requests = Inr intents" for b ids intents
    proof (rule performs_then [OF C performs_keeps [OF C W]])
      fix db a db'
      assume inv: "kernel_inv C db" and M: "?M db"
        and tx: "commit_effect_batch_intent C b ids (ac_operation_id active) (ac_transition_version active)
          \<lparr>nb_checkpoint = checkpoint, nb_effects = intents\<rparr> db = Inr (a, db')"
      show "kernel_step C db db'"
        by (rule kernel_step.intents [OF tx])
          (use fits InvokeEffects manifest_fits [OF inv M] effect_intent_fits [OF ok] in simp_all)
    qed (auto intro: performs_return)
    show ?thesis
      using fits unfolding InvokeEffects apply_loop_decision_def Let_def
      by (auto intro!: performs_return performs_check performs_ids intents)
  qed (use fits decided in \<open>auto simp: apply_loop_decision_def Let_def intro!: performs_ids\<close>)
qed

text \<open>What a drive of operation \<open>oid\<close> may report, and where a round of it leaves off.\<close>

definition driven :: "('t, 'v) codec \<Rightarrow> OperationId \<Rightarrow> DriveResult \<Rightarrow> 't db \<Rightarrow> bool" where
  "driven C oid result db \<longleftrightarrow> (case result of
     Idle \<Rightarrow> False
   | Blocked operation_id \<Rightarrow> operation_id = oid
   | DriveFinished operation_id outcome \<Rightarrow> operation_id = oid \<and> finished_as C operation_id outcome db)"

definition rounded :: "('t, 'v) codec \<Rightarrow> OperationId \<Rightarrow> DriveResult + 'v ActiveOperation \<Rightarrow> 't db \<Rightarrow> bool" where
  "rounded C oid next db \<longleftrightarrow>
     (case next of Inl result \<Rightarrow> driven C oid result db
      | Inr active \<Rightarrow> ac_operation_id active = oid \<and> manifest_is C oid (ac_manifest active) db)"

lemma reload_performs:
  assumes C: "codec_ok C" and W: "others_step C W" and P: "stable C P"
  shows "performs C P (driver_then (read_db W (load_active C session_id operation_id))
    (\<lambda>active. driver_return (Inr (Inr active)))) (rounded C operation_id)"
  by (rule performs_then [OF C performs_read [OF C W P, where Q =
        "\<lambda>active db. ac_operation_id active = operation_id \<and> manifest_is C operation_id (ac_manifest active) db"]])
    (auto intro: performs_return simp: rounded_def load_active_manifest [OF C])

lemma drive_round_performs:
  assumes C: "codec_ok C" and W: "others_step C W"
  shows "performs C (manifest_is C (ac_operation_id active) (ac_manifest active))
    (drive_round C W session_id runtime active) (rounded C (ac_operation_id active))"
proof -
  let ?M = "manifest_is C (ac_operation_id active) (ac_manifest active)"
  let ?R = "rounded C (ac_operation_id active)"
  have effects: "performs C ?M (driver_then (drive_effect_phase C W session_id active runtime) (\<lambda>_.
       driver_then (read_db W (load_active C session_id (ac_operation_id active))) (\<lambda>active.
       driver_return (Inr (Inr active))))) ?R"
    by (rule performs_then [OF C drive_effect_phase_performs [OF C W] reload_performs [OF C W]]) auto
  have decision: "performs C ?M (driver_then (apply_loop_decision C W session_id active runtime decision) (\<lambda>applied.
     case applied of
       Some outcome \<Rightarrow> driver_return (Inr (Inl (DriveFinished (ac_operation_id active) outcome)))
     | None \<Rightarrow>
         driver_then (read_db W (load_active C session_id (ac_operation_id active))) (\<lambda>active.
         driver_return (Inr (Inr active))))) ?R" for decision
    by (rule performs_then [OF C apply_loop_decision_performs [OF C W]])
      (auto split: option.splits intro!: performs_return reload_performs [OF C W] simp: rounded_def driven_def)
  have read: "performs C ?M (read_db W query) (\<lambda>_. ?M)" for query :: "'a db \<Rightarrow> 'q kernel_result"
    by (rule performs_read [OF C W]) auto
  have cont: "performs C ?M (driver_then (read_db W (events_after C session_id EventCursor_START)) k) ?R"
    if "\<And>page. performs C ?M (k page) ?R" for k
    by (rule performs_then [OF C read that])
  have input: "performs C ?M (driver_then (read_db W (load_loop_input C session_id active evs)) k) ?R"
    if "\<And>page. performs C ?M (k page) ?R" for k evs
    by (rule performs_then [OF C read that])
  show ?thesis
    unfolding drive_round_def
    by (rule performs_then [OF C close_requested_performs [OF C W]])
      (auto split: option.split intro!: performs_return performs_check cont input effects decision
        simp: rounded_def driven_def)
qed

lemma drive_stopped_cases [simp]:
  "drive_stopped s \<noteq> Returned (Inr r)" "drive_stopped s \<noteq> StillDriving"
  by (cases s; simp add: drive_stopped_def)+

lemma drive_loop_performs:
  assumes C: "codec_ok C" and W: "others_step C W"
    and loop: "drive_loop rounds C W session_id runtime active m = (result, m')"
    and inv: "kernel_inv C (db_of m)" and M: "manifest_is C (ac_operation_id active) (ac_manifest active) (db_of m)"
  shows "kernel_steps C (db_of m) (db_of m') \<and>
    (\<forall>r. result = Returned (Inr r) \<longrightarrow> driven C (ac_operation_id active) r (db_of m'))"
  using loop inv M
proof (induction rounds arbitrary: active m)
  case (Suc rounds)
  obtain x m1 where round: "drive_round C W session_id runtime active m = (x, m1)" by (metis surj_pair)
  note s = performsD [OF drive_round_performs [OF C W] round Suc.prems(2,3)]
  have inv1: "kernel_inv C (db_of m1)" by (rule kernel_steps_inv [OF C s(1) Suc.prems(2)])
  consider (err) e where "x = Inl e" | (result) r where "x = Inr (Inl r)" | (more) a where "x = Inr (Inr a)"
    by (metis sum.exhaust)
  then show ?case
  proof cases
    case err
    then show ?thesis using Suc.prems(1) round s(1) by auto
  next
    case (result r)
    then show ?thesis using Suc.prems(1) round s(1) s(2) [OF result] by (auto simp: rounded_def)
  next
    case (more a)
    have a: "ac_operation_id a = ac_operation_id active" "manifest_is C (ac_operation_id active) (ac_manifest a) (db_of m1)"
      using s(2) [OF more] by (simp_all add: rounded_def)
    have "drive_loop rounds C W session_id runtime a m1 = (result, m')" using Suc.prems(1) round more by simp
    from Suc.IH [OF this inv1] a show ?thesis using rtranclp_trans [OF s(1)] by simp
  qed
qed simp

text \<open>The operation a drive takes up has not ended.\<close>

lemma activate_unfinished:
  assumes C: "codec_ok C" and inv: "kernel_inv C db"
    and ok: "activate C session_id manifest db = Inr (Some active, db')"
  shows "\<not> finished_as C (ac_operation_id active) outcome db'"
proof
  assume "finished_as C (ac_operation_id active) outcome db'"
  then obtain r where r: "r \<in> set (operations db')" "o_operation_id r = to_string C (ac_operation_id active)"
    "terminal_phase (o_phase r)" by (auto simp: finished_as_def)
  have inv': "kernel_inv C db'" by (rule activate_inv [OF C inv ok])
  have "\<exists>s \<in> set (sessions db'). s_active_operation_id s = Some (to_string C (ac_operation_id active))"
    using ok kernel_invD(2) [OF inv] C inv
  proof (cases rule: activate_cases)
    case (activated s r oid mj a)
    have "s\<lparr>s_active_operation_id := Some (to_string C oid)\<rparr> \<in> set (sessions db')"
      using activated(1,2) by (auto simp: activated(8) Let_def update_where_def)
    then show ?thesis using activated(10,11) by force
  qed auto
  then obtain s where s: "s \<in> set (sessions db')" "s_active_operation_id s = Some (to_string C (ac_operation_id active))"
    by blast
  have "active_phase (o_phase r)" using pointed_operation(2) [OF inv' s r(1,2)] by simp
  then show False using r(3) by (auto simp: active_phase_def terminal_phase_def)
qed

lemma drive_leased_performs:
  assumes C: "codec_ok C" and W: "others_step C W"
    and run: "drive_leased rounds C W session_id runtime m = (result, m')" and inv: "kernel_inv C (db_of m)"
  shows "kernel_steps C (db_of m) (db_of m') \<and> (\<forall>r. result = Returned (Inr r) \<longrightarrow> r = Idle \<or>
    (\<exists>oid db1. driven C oid r (db_of m') \<and> kernel_steps C (db_of m) db1 \<and> (\<forall>outcome. \<not> finished_as C oid outcome db1)))"
proof -
  let ?Q = "\<lambda>a db. case a of None \<Rightarrow> True | Some active \<Rightarrow>
    manifest_is C (ac_operation_id active) (ac_manifest active) db \<and> (\<forall>outcome. \<not> finished_as C (ac_operation_id active) outcome db)"
  have activate: "performs C (\<lambda>_. True) (transact W (activate C session_id (rt_manifest runtime))) ?Q"
    by (rule performs_transact [OF C W])
      (auto intro: kernel_step.activate dest: activate_manifest [OF C] activate_unfinished [OF C] split: option.splits)
  obtain x m1 where act: "transact W (activate C session_id (rt_manifest runtime)) m = (x, m1)" by (metis surj_pair)
  note s = performsD [OF activate act inv]
  have s1: "kernel_steps C (db_of m) (db_of m1)" by (rule s(1)) simp
  have inv1: "kernel_inv C (db_of m1)" by (rule kernel_steps_inv [OF C s1 inv])
  consider (err) e where "x = Inl e" | (idle) "x = Inr None" | (active) a where "x = Inr (Some a)"
    by (metis not_None_eq sum.exhaust)
  then show ?thesis
  proof cases
    case (active a)
    obtain y m2 where bind: "on_leases (lease_bind session_id (ac_operation_id a)) m1 = (y, m2)" by (metis surj_pair)
    have db2: "db_of m2 = db_of m1" using bind lease_db(2) by (auto simp: on_leases_def split: sum.splits)
    have M: "manifest_is C (ac_operation_id a) (ac_manifest a) (db_of m2)"
      "\<forall>outcome. \<not> finished_as C (ac_operation_id a) outcome (db_of m1)"
      using s(2) [OF _ active] db2 by simp_all
    show ?thesis
    proof (cases "(\<exists>e. y = Inl e) \<or> ac_manifest a \<noteq> rt_manifest runtime")
      case True
      then show ?thesis
        using run s1 db2 by (cases y) (auto simp: drive_leased_def act active bind)
    next
      case False
      then have "drive_loop rounds C W session_id runtime a m2 = (result, m')"
        using run by (cases y) (auto simp: drive_leased_def act active bind)
      from drive_loop_performs [OF C W this _ M(1)] inv1 db2
      have "kernel_steps C (db_of m1) (db_of m')"
        and driven: "\<forall>r. result = Returned (Inr r) \<longrightarrow> driven C (ac_operation_id a) r (db_of m')" by simp_all
      then have "kernel_steps C (db_of m) (db_of m')" using s1 by (simp add: rtranclp_trans)
      with driven M(2) s1 show ?thesis by blast
    qed
  qed (use run s1 in \<open>auto simp: drive_leased_def act\<close>)
qed

lemma drive_performs:
  assumes C: "codec_ok C" and W: "others_step C W"
    and run: "drive rounds C W session_id runtime m = (result, m')" and inv: "kernel_inv C (db_of m)"
  shows "kernel_steps C (db_of m) (db_of m')"
    and "result = Returned (Inr r) \<Longrightarrow> r = Idle \<or> (\<exists>oid db1. driven C oid r (db_of m') \<and>
      kernel_steps C (db_of m) db1 \<and> (\<forall>outcome. \<not> finished_as C oid outcome db1))"
proof -
  obtain y m1 where acq: "on_leases (lease_acquire session_id) m = (y, m1)" by (metis surj_pair)
  have db1: "db_of m1 = db_of m" using acq lease_db(1) by (auto simp: on_leases_def split: sum.splits)
  obtain res k w where leased: "drive_leased rounds C W session_id runtime m1 = (res, k, w)" by (metis surj_pair)
  have "kernel_steps C (db_of m) (db_of m') \<and> (\<forall>r. result = Returned (Inr r) \<longrightarrow> r = Idle \<or>
    (\<exists>oid db1. driven C oid r (db_of m') \<and> kernel_steps C (db_of m) db1 \<and> (\<forall>outcome. \<not> finished_as C oid outcome db1)))"
  proof (cases y)
    case (Inl e)
    then show ?thesis using run acq db1 by (auto simp: drive_def)
  next
    case (Inr u)
    then have "result = res" "db_of m' = k_db k"
      using run acq leased by (auto simp: drive_def lease_db)
    then show ?thesis
      using drive_leased_performs [OF C W leased] inv db1 by simp
  qed
  then show "kernel_steps C (db_of m) (db_of m')"
    and "result = Returned (Inr r) \<Longrightarrow> r = Idle \<or> (\<exists>oid db1. driven C oid r (db_of m') \<and>
      kernel_steps C (db_of m) db1 \<and> (\<forall>outcome. \<not> finished_as C oid outcome db1))" by blast+
qed

text \<open>More rounds change nothing of a drive that has ended, and go on from where one is that has not.\<close>

lemma drive_loop_more:
  assumes C: "codec_ok C" and W: "others_step C W" and inv: "kernel_inv C (db_of m)"
    and M: "manifest_is C (ac_operation_id active) (ac_manifest active) (db_of m)"
    and run: "drive_loop rounds C W session_id runtime active m = (result, m')"
  shows "(result \<noteq> StillDriving \<longrightarrow> drive_loop (rounds + extra) C W session_id runtime active m = (result, m')) \<and>
    kernel_steps C (db_of m') (db_of (snd (drive_loop (rounds + extra) C W session_id runtime active m)))"
  using inv M run
proof (induction rounds arbitrary: active m)
  case 0
  obtain r m2 where go: "drive_loop extra C W session_id runtime active m = (r, m2)" by (metis surj_pair)
  show ?case using drive_loop_performs [OF C W go] 0 go by simp
next
  case (Suc rounds)
  obtain x m1 where round: "drive_round C W session_id runtime active m = (x, m1)" by (metis surj_pair)
  note s = performsD [OF drive_round_performs [OF C W] round Suc.prems(1,2)]
  have inv1: "kernel_inv C (db_of m1)" by (rule kernel_steps_inv [OF C s(1) Suc.prems(1)])
  consider (stop) "\<nexists>a. x = Inr (Inr a)" | (more) a where "x = Inr (Inr a)" by blast
  then show ?case
  proof cases
    case stop
    then show ?thesis using Suc.prems(3) round by (auto split: sum.splits)
  next
    case (more a)
    have "ac_operation_id a = ac_operation_id active" "manifest_is C (ac_operation_id active) (ac_manifest a) (db_of m1)"
      using s(2) [OF more] by (simp_all add: rounded_def)
    then show ?thesis using Suc.IH [OF inv1, of a] Suc.prems(3) round more by simp
  qed
qed

lemma drive_leased_more:
  assumes C: "codec_ok C" and W: "others_step C W" and inv: "kernel_inv C (db_of m)"
    and run: "drive_leased rounds C W session_id runtime m = (result, m')"
  shows "(result \<noteq> StillDriving \<longrightarrow> drive_leased (rounds + extra) C W session_id runtime m = (result, m')) \<and>
    kernel_steps C (db_of m') (db_of (snd (drive_leased (rounds + extra) C W session_id runtime m)))"
proof -
  have activate: "performs C (\<lambda>_. True) (transact W (activate C session_id (rt_manifest runtime)))
      (\<lambda>a db. case a of None \<Rightarrow> True | Some active \<Rightarrow> manifest_is C (ac_operation_id active) (ac_manifest active) db)"
    by (rule performs_transact [OF C W])
      (auto intro: kernel_step.activate dest: activate_manifest [OF C] split: option.splits)
  obtain x m1 where act: "transact W (activate C session_id (rt_manifest runtime)) m = (x, m1)" by (metis surj_pair)
  note s = performsD [OF activate act inv]
  have inv1: "kernel_inv C (db_of m1)" by (rule kernel_steps_inv [OF C s(1) inv]) simp
  show ?thesis
  proof (cases "\<exists>a m2. x = Inr (Some a) \<and> on_leases (lease_bind session_id (ac_operation_id a)) m1 = (Inr (), m2) \<and>
      ac_manifest a = rt_manifest runtime")
    case True
    then obtain a m2 where a: "x = Inr (Some a)" "on_leases (lease_bind session_id (ac_operation_id a)) m1 = (Inr (), m2)"
      "ac_manifest a = rt_manifest runtime" by blast
    have db2: "db_of m2 = db_of m1" using a(2) lease_db(2) by (auto simp: on_leases_def split: sum.splits)
    have M: "manifest_is C (ac_operation_id a) (ac_manifest a) (db_of m2)" using s(2) [OF _ a(1)] db2 by simp
    have loop: "drive_leased n C W session_id runtime m = drive_loop n C W session_id runtime a m2" for n
      by (simp add: drive_leased_def act a)
    show ?thesis
      using drive_loop_more [OF C W _ M run [unfolded loop], of extra] inv1 db2 unfolding loop by simp
  next
    case False
    then have "drive_leased (rounds + extra) C W session_id runtime m = drive_leased rounds C W session_id runtime m"
      by (auto simp: drive_leased_def act split: sum.splits option.splits prod.splits)
    then show ?thesis using run by simp
  qed
qed

lemma drive_more:
  assumes C: "codec_ok C" and W: "others_step C W" and inv: "kernel_inv C (db_of m)"
    and run: "drive rounds C W session_id runtime m = (result, m')"
  shows "result \<noteq> StillDriving \<Longrightarrow> drive (rounds + extra) C W session_id runtime m = (result, m')"
    and "kernel_steps C (db_of m') (db_of (snd (drive (rounds + extra) C W session_id runtime m)))"
proof -
  obtain y m1 where acq: "on_leases (lease_acquire session_id) m = (y, m1)" by (metis surj_pair)
  have db1: "db_of m1 = db_of m" using acq lease_db(1) by (auto simp: on_leases_def split: sum.splits)
  obtain res k w where leased: "drive_leased rounds C W session_id runtime m1 = (res, k, w)" by (metis surj_pair)
  note later = drive_leased_more [OF C W _ leased, of extra]
  have "(result \<noteq> StillDriving \<longrightarrow> drive (rounds + extra) C W session_id runtime m = (result, m')) \<and>
    kernel_steps C (db_of m') (db_of (snd (drive (rounds + extra) C W session_id runtime m)))"
    using later inv run acq leased db1
    by (cases y) (auto simp: drive_def lease_db split: prod.splits if_splits)
  then show "result \<noteq> StillDriving \<Longrightarrow> drive (rounds + extra) C W session_id runtime m = (result, m')"
    and "kernel_steps C (db_of m') (db_of (snd (drive (rounds + extra) C W session_id runtime m)))" by blast+
qed

lemma manifest_unique:
  assumes inv: "kernel_inv C db" and "manifest_is C operation_id M db" and "manifest_is C operation_id M' db"
  shows "M = M'"
proof -
  obtain r r' where "r \<in> set (operations db)" "o_operation_id r = to_string C operation_id" "row_manifest C r = Some M"
    "r' \<in> set (operations db)" "o_operation_id r' = to_string C operation_id" "row_manifest C r' = Some M'"
    using assms(2,3) unfolding manifest_is_def by blast
  moreover from this have "r = r'" by (intro unique_onD [OF kernel_inv_keys(4) [OF inv]]) simp_all
  ultimately show ?thesis by simp
qed

lemma finished_stays:
  assumes "codec_ok C" and "kernel_inv C db" and "finished_as C operation_id outcome db" and "kernel_steps C db db'"
  shows "finished_as C operation_id outcome db'"
  using finished_as_stable assms(3) kernel_steps_inv [OF assms(1,4,2)] kernel_steps_later [OF assms(1,4,2)]
  unfolding stable_def by blast

lemma finished_once:
  assumes C: "codec_ok C" and inv: "kernel_inv C db" and fin: "finished_as C operation_id outcome db"
    and steps: "kernel_steps C db db'" and "finished_as C operation_id outcome' db'"
  shows "outcome' = outcome"
proof -
  have inv': "kernel_inv C db'" by (rule kernel_steps_inv [OF C steps inv])
  have "finished_as C operation_id outcome db'" by (rule finished_stays [OF C inv fin steps])
  then obtain r r' where "r \<in> set (operations db')" "o_operation_id r = to_string C operation_id"
      "Option.bind (o_outcome_json r) (outcome_from_json C) = Some outcome"
      "r' \<in> set (operations db')" "o_operation_id r' = to_string C operation_id"
      "Option.bind (o_outcome_json r') (outcome_from_json C) = Some outcome'"
    using assms(5) unfolding finished_as_def by blast
  moreover from this have "r = r'" by (intro unique_onD [OF kernel_inv_keys(4) [OF inv']]) simp_all
  ultimately show ?thesis by simp
qed

end
