(* ===== verification/Kernel_Example.thy ===== *)
theory Kernel_Example
  imports Kernel_Runs
begin

section \<open>A concrete run\<close>

text \<open>
  A session driven through the kernel with the concrete codec: a command is admitted and
  activated, the loop asks for an effect, the effect is dispatched, and the run ends in one of
  three ways: the effect settles and the loop completes, its outcome is unknown and the
  operation is abandoned, or it is cancelled. Each database is computed by the transactions
  themselves, so the invariant holds of it and it is reachable.
\<close>

definition run_tx :: "('t db \<Rightarrow> ('a \<times> 't db) kernel_result) \<Rightarrow> 't db \<Rightarrow> 't db" where
  "run_tx tx db = (case tx db of Inl _ \<Rightarrow> db | Inr (_, db') \<Rightarrow> db')"

definition answer :: "('t db \<Rightarrow> ('a \<times> 't db) kernel_result) \<Rightarrow> 't db \<Rightarrow> 'a" where
  "answer tx db = fst (projr (tx db))"

definition succeeds :: "('t db \<Rightarrow> ('a \<times> 't db) kernel_result) \<Rightarrow> 't db \<Rightarrow> bool" where
  "succeeds tx db \<longleftrightarrow> \<not> isl (tx db)"

lemma run_tx_eq: "succeeds tx db \<Longrightarrow> tx db = Inr (answer tx db, run_tx tx db)"
  by (cases "tx db") (auto simp: succeeds_def run_tx_def answer_def split: prod.splits)

definition sample_manifest :: RuntimeManifest where
  "sample_manifest = \<lparr>loop_binding = ''loop'', loop_revision = ''1'', checkpoint_schema_version = 1,
     effect_bindings = [(''tool'', ''1'')], config_digest = ''digest''\<rparr>"

definition sample_checkpoint :: "int \<Rightarrow> int Checkpoint" where
  "sample_checkpoint state = \<lparr>schema_version = 1, cp_state = state\<rparr>"

definition sample_event :: "int NewEvent" where
  "sample_event = \<lparr>ne_kind = ''done'', ne_payload = 9\<rparr>"

definition sample_intents :: "int NewEffectBatchIntent" where
  "sample_intents = \<lparr>nb_checkpoint = sample_checkpoint 1,
     nb_effects = [\<lparr>ni_binding = ''tool'', ni_binding_revision = ''1'', ni_request = 5, ni_recovery = NeverReplay\<rparr>]\<rparr>"

definition sample_ids :: "nat \<Rightarrow> uuid" where
  "sample_ids i = 100 + of_nat i"

definition sample_active :: "sample_text db" where
  "sample_active = run_tx (activate sample_codec 2 sample_manifest) sample_queued"

definition sample_intended :: "sample_text db" where
  "sample_intended = run_tx (commit_effect_batch_intent sample_codec 20 sample_ids 3 1 sample_intents) sample_active"

definition sample_dispatched :: "sample_text db" where
  "sample_dispatched = run_tx (prepare_effect_batch sample_codec 3 2) sample_intended"

definition sample_settled :: "sample_text db" where
  "sample_settled = run_tx (settle_batch_effect sample_codec 3 20 100 3 (Success 6)) sample_dispatched"

definition sample_completed :: "sample_text db" where
  "sample_completed =
     run_tx (commit_decision sample_codec sample_ids 2 3 4 (Complete (sample_checkpoint 2) [sample_event])) sample_settled"

definition sample_unknown :: "sample_text db" where
  "sample_unknown = run_tx (record_batch_effect_unknown sample_codec 3 20 100 3) sample_dispatched"

definition sample_abandoned :: "sample_text db" where
  "sample_abandoned = run_tx (commit_unknown_effect_abandonment sample_codec sample_ids 2 3 4 0
     \<lparr>ab_checkpoint = sample_checkpoint 3, ab_events = [sample_event]\<rparr>) sample_unknown"

definition sample_requested :: "sample_text db" where
  "sample_requested = run_tx (request_cancellation_tx sample_codec 2 3 50) sample_dispatched"

definition sample_closed :: "sample_text db" where
  "sample_closed = run_tx (load_requested_cancellation sample_codec 2 3) sample_requested"

definition sample_cancelled :: "sample_text db" where
  "sample_cancelled = run_tx (commit_cancellation sample_codec sample_ids 2 3 4 0
     \<lparr>ct_checkpoint = sample_checkpoint 3, ct_events = [sample_event]\<rparr>) sample_closed"

text \<open>The databases once the effect is dispatched, in full.\<close>

definition sample_db ::
    "string \<Rightarrow> int \<Rightarrow> sample_text option \<Rightarrow> sample_text option \<Rightarrow> string \<Rightarrow> sample_text option \<Rightarrow>
     sample_text cancellation_row list \<Rightarrow> sample_text db" where
  "sample_db phase version current input status outcome requests =
     \<lparr>agents = [\<lparr>a_agent_id = UuidText 1\<rparr>],
      sessions = [\<lparr>s_session_id = UuidText 2, s_agent_id = UuidText 1, s_next_command_position = 1,
        s_active_operation_id = Some (UuidText 3), s_next_event_sequence = 0\<rparr>],
      commands = [\<lparr>c_command_id = UuidText 4, c_session_id = UuidText 2,
        c_content_json = CommandText sample_command\<rparr>],
      operations = [\<lparr>o_operation_id = UuidText 3, o_session_id = UuidText 2, o_command_id = UuidText 4,
        o_position = 0, o_phase = phase, o_state_version = 1, o_transition_version = version,
        o_manifest_json = Some (ManifestText sample_manifest),
        o_checkpoint_json = Some (CheckpointText (sample_checkpoint 1)),
        o_current_effect_batch_id = current, o_input_effect_batch_id = input, o_outcome_json = None,
        o_next_effect_batch_position = 1\<rparr>],
      semantic_events = [],
      effect_batches = [\<lparr>b_batch_id = UuidText 20, b_operation_id = UuidText 3, b_position = 0\<rparr>],
      effects = [\<lparr>e_effect_id = UuidText 100, e_batch_id = UuidText 20, e_position = 0,
        e_binding = ''tool'', e_binding_revision = ''1'', e_recovery = ''never_replay'',
        e_request_json = Some (ValueText 5), e_status = status, e_dispatch_count = 1,
        e_outcome_json = outcome\<rparr>],
      cancellation_requests = requests\<rparr>"

lemma sample_dispatched_code [code]:
  "sample_dispatched =
     sample_db ''effect_dispatched'' 3 (Some (UuidText 20)) None ''dispatch_started'' None []"
  by code_simp

lemma sample_settled_code [code]:
  "sample_settled = sample_db ''need_decision'' 4 None (Some (UuidText 20)) ''settled''
     (Some (EffectOutcomeText (Success 6))) []"
  by code_simp

lemma sample_unknown_code [code]:
  "sample_unknown =
     sample_db ''outcome_unknown'' 4 (Some (UuidText 20)) None ''outcome_unknown'' None []"
  by code_simp

lemma sample_closed_code [code]:
  "sample_closed = sample_db ''outcome_unknown'' 4 (Some (UuidText 20)) None ''outcome_unknown'' None
     [\<lparr>x_cancellation_id = UuidText 50, x_session_id = UuidText 2, x_operation_id = UuidText 3\<rparr>]"
  by code_simp

lemma sample_runs:
  "succeeds (activate sample_codec 2 sample_manifest) sample_queued"
  "succeeds (commit_effect_batch_intent sample_codec 20 sample_ids 3 1 sample_intents) sample_active"
  "succeeds (prepare_effect_batch sample_codec 3 2) sample_intended"
  "succeeds (settle_batch_effect sample_codec 3 20 100 3 (Success 6)) sample_dispatched"
  "succeeds (commit_decision sample_codec sample_ids 2 3 4 (Complete (sample_checkpoint 2) [sample_event])) sample_settled"
  "succeeds (record_batch_effect_unknown sample_codec 3 20 100 3) sample_dispatched"
  "succeeds (commit_unknown_effect_abandonment sample_codec sample_ids 2 3 4 0
     \<lparr>ab_checkpoint = sample_checkpoint 3, ab_events = [sample_event]\<rparr>) sample_unknown"
  "succeeds (request_cancellation_tx sample_codec 2 3 50) sample_dispatched"
  "succeeds (load_requested_cancellation sample_codec 2 3) sample_requested"
  "succeeds (commit_cancellation sample_codec sample_ids 2 3 4 0
     \<lparr>ct_checkpoint = sample_checkpoint 3, ct_events = [sample_event]\<rparr>) sample_closed"
           apply code_simp+
  done

lemma sample_manifest_is:
  "manifest_is sample_codec 3 sample_manifest sample_active"
  "manifest_is sample_codec 3 sample_manifest sample_settled"
  "manifest_is sample_codec 3 sample_manifest sample_unknown"
  "manifest_is sample_codec 3 sample_manifest sample_closed"
     apply code_simp+
  done

lemma sample_passed: "passed sample_codec 3 4 sample_closed"
  by code_simp

lemma sample_step_queued: "kernel_steps sample_codec empty_db sample_queued"
proof -
  have a: "kernel_step sample_codec empty_db (empty_db\<lparr>agents := [\<lparr>a_agent_id = UuidText 1\<rparr>]\<rparr>)"
    by (rule kernel_step.create_agent [of _ 1]) code_simp
  have s: "kernel_step sample_codec (empty_db\<lparr>agents := [\<lparr>a_agent_id = UuidText 1\<rparr>]\<rparr>) sample_start"
    by (rule kernel_step.create_session [of _ 2 1]) code_simp
  have q: "kernel_step sample_codec sample_start sample_queued"
    by (rule kernel_step.submit) (rule sample_queued_runs [unfolded submit_def])
  show ?thesis
    by (rule rtranclp.rtrancl_into_rtrancl [OF rtranclp.rtrancl_into_rtrancl [OF r_into_rtranclp [of "kernel_step sample_codec", OF a] s] q])
qed

lemma sample_step_active: "kernel_step sample_codec sample_queued sample_active"
  by (rule kernel_step.activate [OF run_tx_eq [OF sample_runs(1), folded sample_active_def]])

lemma sample_active_inv: "kernel_inv sample_codec sample_active"
  by (rule kernel_step_inv [OF sample_codec_ok sample_step_active sample_queued_inv])

lemma sample_step_intended: "kernel_step sample_codec sample_active sample_intended"
  by (rule kernel_step.intents [OF run_tx_eq [OF sample_runs(2), folded sample_intended_def]]; rule manifest_fits [OF sample_active_inv sample_manifest_is(1)])
    (auto simp: sample_intents_def sample_checkpoint_def sample_manifest_def)

lemma sample_intended_inv: "kernel_inv sample_codec sample_intended"
  by (rule kernel_step_inv [OF sample_codec_ok sample_step_intended sample_active_inv])

lemma sample_step_dispatched: "kernel_step sample_codec sample_intended sample_dispatched"
  by (rule kernel_step.prepare [OF run_tx_eq [OF sample_runs(3), folded sample_dispatched_def]])

lemma sample_dispatched_inv: "kernel_inv sample_codec sample_dispatched"
  by (rule kernel_step_inv [OF sample_codec_ok sample_step_dispatched sample_intended_inv])

lemma sample_step_settled: "kernel_step sample_codec sample_dispatched sample_settled"
  by (rule kernel_step.settle [OF run_tx_eq [OF sample_runs(4), folded sample_settled_def]])

lemma sample_settled_inv: "kernel_inv sample_codec sample_settled"
  by (rule kernel_step_inv [OF sample_codec_ok sample_step_settled sample_dispatched_inv])

lemma sample_step_completed: "kernel_step sample_codec sample_settled sample_completed"
  by (rule kernel_step.decision [OF run_tx_eq [OF sample_runs(5), folded sample_completed_def]]; rule manifest_fits [OF sample_settled_inv sample_manifest_is(2)])
    (simp add: sample_checkpoint_def sample_manifest_def)

lemma sample_completed_inv: "kernel_inv sample_codec sample_completed"
  by (rule kernel_step_inv [OF sample_codec_ok sample_step_completed sample_settled_inv])

lemma sample_step_unknown: "kernel_step sample_codec sample_dispatched sample_unknown"
  by (rule kernel_step.unknown [OF run_tx_eq [OF sample_runs(6), folded sample_unknown_def]])

lemma sample_unknown_inv: "kernel_inv sample_codec sample_unknown"
  by (rule kernel_step_inv [OF sample_codec_ok sample_step_unknown sample_dispatched_inv])

lemma sample_step_abandoned: "kernel_step sample_codec sample_unknown sample_abandoned"
  by (rule kernel_step.abandon [OF run_tx_eq [OF sample_runs(7), folded sample_abandoned_def]]; rule manifest_fits [OF sample_unknown_inv sample_manifest_is(3)])
    (simp add: sample_checkpoint_def sample_manifest_def)

lemma sample_abandoned_inv: "kernel_inv sample_codec sample_abandoned"
  by (rule kernel_step_inv [OF sample_codec_ok sample_step_abandoned sample_unknown_inv])

lemma sample_step_requested: "kernel_step sample_codec sample_dispatched sample_requested"
  by (rule kernel_step.request [OF run_tx_eq [OF sample_runs(8), folded sample_requested_def]])

lemma sample_requested_inv: "kernel_inv sample_codec sample_requested"
  by (rule kernel_step_inv [OF sample_codec_ok sample_step_requested sample_dispatched_inv])

lemma sample_step_closed: "kernel_step sample_codec sample_requested sample_closed"
  by (rule kernel_step.load [OF run_tx_eq [OF sample_runs(9), folded sample_closed_def]])

lemma sample_closed_inv: "kernel_inv sample_codec sample_closed"
  by (rule kernel_step_inv [OF sample_codec_ok sample_step_closed sample_requested_inv])

lemma sample_step_cancelled: "kernel_step sample_codec sample_closed sample_cancelled"
proof (rule kernel_step.cancel [OF run_tx_eq [OF sample_runs(10), folded sample_cancelled_def]])
  show "batch_closed sample_codec 3 4 sample_closed" by (rule passed_closed [OF sample_closed_inv sample_passed])
qed (rule manifest_fits [OF sample_closed_inv sample_manifest_is(4)], simp add: sample_checkpoint_def sample_manifest_def)

lemma sample_cancelled_inv: "kernel_inv sample_codec sample_cancelled"
  by (rule kernel_step_inv [OF sample_codec_ok sample_step_cancelled sample_closed_inv])

lemma sample_reached:
  "kernel_steps sample_codec empty_db sample_dispatched"
  "kernel_steps sample_codec empty_db sample_settled"
  "kernel_steps sample_codec empty_db sample_completed"
  "kernel_steps sample_codec sample_settled sample_completed"
proof -
  show d: "kernel_steps sample_codec empty_db sample_dispatched"
    using sample_step_queued sample_step_active sample_step_intended sample_step_dispatched
    by (meson rtranclp.rtrancl_into_rtrancl)
  show s: "kernel_steps sample_codec empty_db sample_settled"
    by (rule rtranclp.rtrancl_into_rtrancl [OF d sample_step_settled])
  show "kernel_steps sample_codec empty_db sample_completed"
    by (rule rtranclp.rtrancl_into_rtrancl [OF s sample_step_completed])
  show "kernel_steps sample_codec sample_settled sample_completed"
    by (rule r_into_rtranclp [of "kernel_step sample_codec", OF sample_step_completed])
qed

subsection \<open>A drive\<close>

definition sample_plugin :: "int LoopPlugin" where
  "sample_plugin =
     \<lparr>decide = (\<lambda>input. Inr (case li_effect_batch input of
        None \<Rightarrow> InvokeEffects (sample_checkpoint 1)
          [\<lparr>er_binding = ''tool'', er_request = 5, er_recovery = NeverReplay\<rparr>]
      | Some _ \<Rightarrow> Complete (sample_checkpoint 2) [sample_event])),
      plugin_abandon_unknown_effect = (\<lambda>_. Inr \<lparr>ab_checkpoint = sample_checkpoint 3, ab_events = []\<rparr>),
      cancel_operation = (\<lambda>_. Inr \<lparr>ct_checkpoint = sample_checkpoint 3, ct_events = []\<rparr>)\<rparr>"

definition sample_runtime :: "(int, unit) Runtime" where
  "sample_runtime = \<lparr>rt_manifest = sample_manifest, rt_plugin = sample_plugin,
     rt_effects = [(''tool'', \<lparr>eb_name = ''tool'', eb_revision = ''1'', eb_adapter = ()\<rparr>)]\<rparr>"

text \<open>A world without other callers, whose adapters settle every invocation.\<close>

definition sample_world :: "(sample_text, int, unit, nat) world" where
  "sample_world =
     \<lparr>others = (\<lambda>w k. (k, w)),
      next_attempt = (\<lambda>w _. (Some (0, Some (CompletionSettled (Success 6))), w)),
      already_done = (\<lambda>_ _. 0),
      fresh_ids = (\<lambda>w. (\<lambda>i. of_nat (100 * w + i), Suc w)),
      in_tokio = True\<rparr>"

definition sample_kernel :: "sample_text db \<Rightarrow> sample_text Kernel" where
  "sample_kernel db = \<lparr>k_db = db, running_sessions = Map.empty, running_adapters = (\<lambda>_. 0)\<rparr>"

lemma sample_others: "others_step sample_codec sample_world"
  by (simp add: others_step_def sample_world_def)

definition sample_driven :: "nat \<Rightarrow> drive_end \<times> sample_text Kernel \<times> nat" where
  "sample_driven rounds = drive rounds sample_codec sample_world 2 sample_runtime (sample_kernel sample_queued, 1)"

lemma sample_driven_result:
  "fst (sample_driven 1) = StillDriving"
  "fst (sample_driven 4) = Returned (Inr (DriveFinished 3 OutcomeCompleted))"
  by code_simp+

lemma sample_driven_eq:
  "drive rounds sample_codec sample_world 2 sample_runtime (sample_kernel sample_queued, 1) =
     (fst (sample_driven rounds), fst (snd (sample_driven rounds)), snd (snd (sample_driven rounds)))"
  by (simp add: sample_driven_def)

text \<open>A world whose caller drops the drive while its adapters run.\<close>

definition dropping_world :: "(sample_text, int, unit, nat) world" where
  "dropping_world = sample_world\<lparr>next_attempt := (\<lambda>w _. (None, w))\<rparr>"

definition sample_dropped :: "drive_end \<times> sample_text Kernel \<times> nat" where
  "sample_dropped = drive 4 sample_codec dropping_world 2 sample_runtime (sample_kernel sample_queued, 1)"

lemma sample_dropped_result:
  "fst sample_dropped = DriveDropped" "running_adapters (fst (snd sample_dropped)) 2 = 1"
  by code_simp+

end
