(* ===== verification/Kernel_Invocations.thy ===== *)
theory Kernel_Invocations
  imports Kernel_Example
begin

section \<open>Invocations\<close>

text \<open>
  A run of the kernel with the effects it hands to adapters: every invocation of a drive comes
  from an answer \<open>Invoke\<close> of \<open>prepare_effect_batch\<close>, whose transaction counts it in the row of the
  effect. The invocations of an effect are at most its dispatch count, and so an effect that must
  not be replayed is invoked at most once, whatever crashes, retries and drives happen.
\<close>

inductive dispatch_run :: "('t, 'v) codec \<Rightarrow> 't db \<Rightarrow> EffectId list \<Rightarrow> 't db \<Rightarrow> bool" for C where
  start: "dispatch_run C db [] db"
| silent: "dispatch_run C db es db1 \<Longrightarrow> kernel_step C db1 db2 \<Longrightarrow> dispatch_run C db es db2"
| invoke: "dispatch_run C db es db1 \<Longrightarrow>
    prepare_effect_batch C operation_id tv db1 = Inr (Invoke pending, db2) \<Longrightarrow>
    dispatch_run C db (es @ map pe_effect_id (pb_effects pending)) db2"

lemma dispatch_run_steps: "dispatch_run C db es db' \<Longrightarrow> kernel_steps C db db'"
  by (induction rule: dispatch_run.induct)
    (auto intro: rtranclp.rtrancl_into_rtrancl kernel_step.prepare)

lemma released_keys:
  "e_effect_id (released db oid e) = e_effect_id e" "e_dispatch_count (released db oid e) = e_dispatch_count e"
  by (simp_all add: released_def)

lemma finish_without_invocations:
  "finish_batch_without_invocations C oid bid tv stored db \<noteq> Inr (Invoke p, db')"
  by (auto simp: finish_batch_without_invocations_def Let_def elim!: and_then_InrE split: if_splits)

text \<open>Every invocation is one more dispatch of its effect, and no effect is invoked twice.\<close>

lemma prepare_invoke:
  assumes C: "codec_ok C" and inv: "kernel_inv C db"
    and ok: "prepare_effect_batch C operation_id tv db = Inr (Invoke pending, db')"
  obtains bid phase where
    "list_all2 (pending_shows C bid (tv + 1)) (filter (\<lambda>e. e_status e = ''dispatch_started'')
       (map (dispatched phase) (order_by e_position (children_of db (to_string C bid))))) (pb_effects pending)"
    and "\<And>e. e \<in> set (children_of db (to_string C bid)) \<Longrightarrow> preparable phase e"
    and "\<And>e. e \<in> set (children_of db (to_string C bid)) \<Longrightarrow>
      \<exists>e' \<in> set (effects db'). e_effect_id e' = e_effect_id e \<and>
        e_dispatch_count e' = e_dispatch_count (dispatched phase e)"
  using ok C inv
proof (cases rule: prepare_effect_batch_cases)
  case (prepared r bid phase pendings stored db1)
  have "pendings \<noteq> []" using prepared(13) by (auto simp: finish_without_invocations split: if_splits)
  then have ans: "pb_effects pending = pendings" and db': "db' = set_operation (to_string C operation_id) started_row db1"
    using prepared(13) by auto
  have "\<exists>e' \<in> set (effects db'). e_effect_id e' = e_effect_id e \<and>
      e_dispatch_count e' = e_dispatch_count (dispatched phase e)"
    if "e \<in> set (children_of db (to_string C bid))" for e
  proof -
    have "dispatched phase e \<in> set (effects db1)"
      using that by (auto simp: prepared(8) update_where_def children_of_def)
    then have "\<exists>db2. released db2 (to_string C operation_id) (dispatched phase e) \<in> set (effects db')"
      by (auto simp: db' set_operation_def Let_def)
    then show ?thesis using released_keys by (metis dispatched_keys(1))
  qed
  then show thesis using that prepared(10,12) ans by blast
qed simp

lemma invoked_distinct:
  assumes "codec_ok C" and inv: "kernel_inv C db"
    and "prepare_effect_batch C operation_id tv db = Inr (Invoke pending, db')"
  shows "distinct (map pe_effect_id (pb_effects pending))"
proof (rule prepare_invoke [OF assms])
  fix bid phase
  let ?es = "order_by e_position (children_of db (to_string C bid))"
  let ?ds = "filter (\<lambda>e. e_status e = ''dispatch_started'') (map (dispatched phase) ?es)"
  assume all2: "list_all2 (pending_shows C bid (tv + 1)) ?ds (pb_effects pending)"
  have keys: "map (to_string C) (map pe_effect_id (pb_effects pending)) = map e_effect_id ?ds"
    using all2 by (auto simp: list_all2_conv_all_nth pending_shows_def intro: nth_equalityI)
  have "distinct (map e_effect_id (map (dispatched phase) ?es))"
    using distinct_children [OF kernel_inv_keys(8) [OF inv]] by (simp add: o_def)
  then have "distinct (map e_effect_id ?ds)" by (rule distinct_map_filter)
  then have "distinct (map (to_string C) (map pe_effect_id (pb_effects pending)))" by (simp only: keys)
  then show ?thesis by (simp only: distinct_map)
qed

lemma invoked_counts:
  assumes "codec_ok C" and "kernel_inv C db"
    and "prepare_effect_batch C operation_id tv db = Inr (Invoke pending, db')"
    and p: "p \<in> set (pb_effects pending)"
  obtains e e' where "e \<in> set (effects db)" and "e' \<in> set (effects db')"
    and "e_effect_id e = to_string C (pe_effect_id p)" and "e_effect_id e' = e_effect_id e"
    and "e_dispatch_count e' = e_dispatch_count e + 1"
proof (rule prepare_invoke [OF assms(1-3)])
  fix bid phase
  let ?es = "children_of db (to_string C bid)"
  assume all2: "list_all2 (pending_shows C bid (tv + 1)) (filter (\<lambda>e. e_status e = ''dispatch_started'')
      (map (dispatched phase) (order_by e_position ?es))) (pb_effects pending)"
    and prep: "\<And>e. e \<in> set ?es \<Longrightarrow> preparable phase e"
    and kept: "\<And>e. e \<in> set ?es \<Longrightarrow> \<exists>e' \<in> set (effects db'). e_effect_id e' = e_effect_id e \<and>
      e_dispatch_count e' = e_dispatch_count (dispatched phase e)"
  obtain e where e: "e \<in> set ?es" "e_status (dispatched phase e) = ''dispatch_started''"
      "pending_shows C bid (tv + 1) (dispatched phase e) p"
    using list_all2_mem2 [OF all2 p] by auto
  have "dispatches phase e" using started_iff_dispatches [OF prep [OF e(1)]] e(2) by simp
  then have "e_dispatch_count (dispatched phase e) = e_dispatch_count e + 1" by (simp add: dispatched_def)
  then show thesis
    using that [of e] kept [OF e(1)] e(1,3) by (auto simp: pending_shows_def children_of_def)
qed

subsection \<open>The count bounds the invocations\<close>

definition counted :: "('t, 'v) codec \<Rightarrow> EffectId list \<Rightarrow> 't db \<Rightarrow> bool" where
  "counted C es db \<longleftrightarrow>
     (\<forall>i \<in> set es. \<exists>e \<in> set (effects db). e_effect_id e = to_string C i) \<and>
     (\<forall>i. \<forall>e \<in> set (effects db). e_effect_id e = to_string C i \<longrightarrow> int (count_list es i) \<le> e_dispatch_count e)"

lemma later_effect:
  assumes "later db db'" and "e \<in> set (effects db)"
  shows "\<exists>e' \<in> set (effects db'). e_effect_id e' = e_effect_id e \<and> effect_later e e'"
proof -
  obtain e' where "e' \<in> set (effects db')" "effect_later e e'"
    using assms table_later_mem [of effect_later "effects db" "effects db'"] by (auto simp: later_def)
  then show ?thesis by (auto simp: effect_later_def)
qed

lemma counted_later:
  assumes "counted C es db" and "later db db'" and inv: "kernel_inv C db'"
  shows "counted C es db'"
  unfolding counted_def
proof (intro conjI ballI allI impI)
  show "\<exists>e \<in> set (effects db'). e_effect_id e = to_string C i" if "i \<in> set es" for i
    using assms(1) that later_effect [OF assms(2)] by (fastforce simp: counted_def)
  fix i e' assume e': "e' \<in> set (effects db')" "e_effect_id e' = to_string C i"
  show "int (count_list es i) \<le> e_dispatch_count e'"
  proof (cases "i \<in> set es")
    case True
    then obtain e where e: "e \<in> set (effects db)" "e_effect_id e = to_string C i"
      using assms(1) by (auto simp: counted_def)
    obtain e2 where e2: "e2 \<in> set (effects db')" "e_effect_id e2 = e_effect_id e" "effect_later e e2"
      using later_effect [OF assms(2) e(1)] by blast
    have "e2 = e'" using unique_onD [OF kernel_inv_keys(8) [OF inv] e2(1) e'(1)] e2(2) e(2) e'(2) by simp
    moreover have "int (count_list es i) \<le> e_dispatch_count e" using assms(1) e by (simp add: counted_def)
    ultimately show ?thesis using e2(3) by (simp add: effect_later_def)
  next
    case False
    have "effect_checks e'"
      using constraints_okD(5) [OF kernel_invD(2) [OF inv]] e'(1) by (simp add: list_all_iff)
    then show ?thesis using False by (simp add: count_notin effect_checks_def)
  qed
qed

lemma counted_invoke:
  assumes C: "codec_ok C" and inv: "kernel_inv C db" and count: "counted C es db"
    and ok: "prepare_effect_batch C operation_id tv db = Inr (Invoke pending, db')"
  shows "counted C (es @ map pe_effect_id (pb_effects pending)) db'"
proof -
  let ?new = "map pe_effect_id (pb_effects pending)"
  have step: "kernel_step C db db'" by (rule kernel_step.prepare [OF ok])
  have inv': "kernel_inv C db'" by (rule kernel_step_inv [OF C step inv])
  have old: "counted C es db'" by (rule counted_later [OF count kernel_step_later [OF inv step] inv'])
  have more: "\<exists>e \<in> set (effects db'). e_effect_id e = to_string C i \<and> int (count_list es i) + 1 \<le> e_dispatch_count e"
    if i: "i \<in> set ?new" for i
  proof -
    obtain p where p: "p \<in> set (pb_effects pending)" "i = pe_effect_id p" using i by auto
    obtain e e' where e: "e \<in> set (effects db)" "e' \<in> set (effects db')" "e_effect_id e = to_string C i"
        "e_effect_id e' = e_effect_id e" "e_dispatch_count e' = e_dispatch_count e + 1"
      using invoked_counts [OF C inv ok p(1)] p(2) by metis
    have "int (count_list es i) \<le> e_dispatch_count e" using count e(1,3) by (simp add: counted_def)
    then show ?thesis using e by (intro bexI [of _ e']) simp_all
  qed
  show ?thesis
    unfolding counted_def
  proof (intro conjI ballI allI impI)
    show "\<exists>e \<in> set (effects db'). e_effect_id e = to_string C i" if "i \<in> set (es @ ?new)" for i
      using that old more by (fastforce simp: counted_def)
    fix i e assume e: "e \<in> set (effects db')" "e_effect_id e = to_string C i"
    have cnt: "count_list ?new i = (if i \<in> set ?new then 1 else 0)"
      using invoked_distinct [OF C inv ok] by (simp add: distinct_count_list)
    show "int (count_list (es @ ?new) i) \<le> e_dispatch_count e"
    proof (cases "i \<in> set ?new")
      case True
      then obtain e2 where e2: "e2 \<in> set (effects db')" "e_effect_id e2 = to_string C i"
          "int (count_list es i) + 1 \<le> e_dispatch_count e2"
        using more by blast
      have "e2 = e" by (rule unique_onD [OF kernel_inv_keys(8) [OF inv'] e2(1) e(1)]) (simp add: e2(2) e(2))
      then show ?thesis using e2(3) cnt True by simp
    next
      case False
      then show ?thesis using old e cnt by (simp add: counted_def)
    qed
  qed
qed

lemma dispatch_run_counted:
  assumes C: "codec_ok C" and "dispatch_run C db es db'" and "kernel_inv C db"
  shows "counted C es db' \<and> kernel_inv C db'"
  using assms(2,3)
proof (induction rule: dispatch_run.induct)
  case (start db)
  have "0 \<le> e_dispatch_count e" if "e \<in> set (effects db)" for e
    using constraints_okD(5) [OF kernel_invD(2) [OF start]] that by (auto simp: list_all_iff effect_checks_def)
  then show ?case using start by (simp add: counted_def)
next
  case (silent db es db1 db2)
  then have inv: "kernel_inv C db1" "counted C es db1" by simp_all
  have inv2: "kernel_inv C db2" by (rule kernel_step_inv [OF C silent.hyps(2) inv(1)])
  show ?case
    using counted_later [OF inv(2) kernel_step_later [OF inv(1) silent.hyps(2)] inv2] inv2 by simp
next
  case (invoke db es db1 operation_id tv pending db2)
  then have inv: "kernel_inv C db1" "counted C es db1" by simp_all
  show ?case
    using counted_invoke [OF C inv invoke.hyps(2)] kernel_step_inv [OF C kernel_step.prepare [OF invoke.hyps(2)] inv(1)]
    by simp
qed

lemma effect_row_ok:
  assumes inv: "kernel_inv C db" and e: "e \<in> set (effects db)"
  obtains r M where "r \<in> set (operations db)" and "row_manifest C r = Some M" and "effect_ok C M e"
proof -
  obtain b where b: "b \<in> set (effect_batches db)" "b_batch_id b = e_batch_id e"
    using referenced(4) [OF kernel_invD(4) [OF inv] e] by blast
  obtain r where r: "r \<in> set (operations db)" "o_operation_id r = b_operation_id b"
    using referenced(3) [OF kernel_invD(4) [OF inv] b(1)] by blast
  have "e_batch_id e \<in> b_batch_id ` set (batches_of db (o_operation_id r))" "e \<in> set (children_of db (e_batch_id e))"
    using b r(2) e by (force simp: batches_of_def children_of_def)+
  then show thesis using child_effect_ok [OF inv r(1)] that r(1) by blast
qed

text \<open>
  C2 (at most once). In every run of the kernel from an empty database, with any callers, crashes
  and repeated drives, an effect committed with the recovery class \<open>NeverReplay\<close> is handed to an
  adapter at most once, and every effect at most as often as its dispatch count says.
\<close>

theorem invoked_at_most_once:
  assumes "codec_ok C" and "dispatch_run C empty_db es db"
    and "e \<in> set (effects db)" and "e_effect_id e = to_string C effect_id"
  shows "int (count_list es effect_id) \<le> e_dispatch_count e \<and>
    (e_recovery e = recovery_as_str NeverReplay \<longrightarrow> count_list es effect_id \<le> 1)"
proof -
  have run: "counted C es db" "kernel_inv C db"
    using dispatch_run_counted [OF assms(1,2) kernel_inv_empty] by simp_all
  have le: "int (count_list es effect_id) \<le> e_dispatch_count e" using run(1) assms(3,4) by (simp add: counted_def)
  have "e_dispatch_count e \<le> 1" if "e_recovery e = recovery_as_str NeverReplay"
    by (rule effect_row_ok [OF run(2) assms(3)]) (use that in \<open>simp add: effect_ok_def dispatch_ok_def\<close>)
  then show ?thesis using le by auto
qed

theorem invoked_at_most_once_witness:
  "count_list [100] (100 :: EffectId) \<le> 1 \<and> dispatch_run sample_codec empty_db [100] sample_dispatched"
proof -
  have quiet: "dispatch_run C empty_db [] db" if "kernel_steps C empty_db db" for C :: "('x, 'y) codec" and db
    using that by (induction rule: rtranclp_induct) (auto intro: dispatch_run.intros)
  have "kernel_steps sample_codec empty_db sample_intended"
    using sample_step_queued sample_step_active sample_step_intended by (meson rtranclp.rtrancl_into_rtrancl)
  then have "dispatch_run sample_codec empty_db
      ([] @ map pe_effect_id (pb_effects \<lparr>pb_batch_id = 20, pb_effects = [\<lparr>pe_batch_id = 20, pe_effect_id = 100,
         pe_binding = ''tool'', pe_binding_revision = ''1'', pe_request = 5 :: int, pe_recovery = NeverReplay,
         pe_dispatch_count = 1, pe_transition_version = 3\<rparr>]\<rparr>)) sample_dispatched"
    by (rule dispatch_run.invoke [where operation_id = 3 and tv = 2, OF quiet]) code_simp
  then have run: "dispatch_run sample_codec empty_db [100] sample_dispatched" by simp
  obtain e where e: "e \<in> set (effects sample_dispatched)" "e_effect_id e = to_string sample_codec 100"
      "e_recovery e = recovery_as_str NeverReplay"
    by (rule that [of "hd (effects sample_dispatched)"]) code_simp+
  show ?thesis using invoked_at_most_once [OF sample_codec_ok run e(1,2)] e(3) run by simp
qed

end
