(* ===== verification/Kernel_Replay.thy ===== *)
theory Kernel_Replay
  imports Kernel_Example
begin

section \<open>Replay of the semantic history\<close>

text \<open>
  What a client that follows a session by cursor sees (\<open>Kernel::events_after\<close>): every event from
  its cursor on, once and in order, and exactly what the loop appended.
\<close>

text \<open>
  C12 (replay). On every database with the invariant, the events of a session from a cursor at or
  below its high-water mark are returned completely: the stored rows from the cursor on, in order,
  numbered without a gap up to the high-water mark, which is the next cursor.
\<close>

theorem events_after_replays:
  assumes "codec_ok C" and "kernel_inv C db"
    and "s \<in> set (sessions db)" and "s_session_id s = to_string C session_id"
    and "0 \<le> cursor" and "cursor \<le> s_next_event_sequence s"
  shows "\<exists>events. events_after C session_id cursor db =
       Inr \<lparr>page_events = events, next_cursor = s_next_event_sequence s\<rparr> \<and>
     list_all2 (event_shows C db) (history C session_id cursor db) events \<and>
     map ev_sequence events = map (\<lambda>i. cursor + int i) [0..<nat (s_next_event_sequence s - cursor)]"
  unfolding events_after_def using load_event_page_total assms by blast

theorem events_after_replays_witness:
  "\<exists>events. events_after sample_codec 2 0 sample_completed = Inr \<lparr>page_events = events, next_cursor = 1\<rparr> \<and>
     map ev_sequence events = [0]"
proof -
  let ?s = "hd (sessions sample_completed)"
  have "?s \<in> set (sessions sample_completed) \<and> s_session_id ?s = to_string sample_codec 2 \<and>
      s_next_event_sequence ?s = 1"
    by code_simp
  then show ?thesis using events_after_replays [OF sample_codec_ok sample_completed_inv, of ?s 2 0] by auto
qed

text \<open>
  C13 (cursor errors). A cursor beyond the high-water mark of the session is refused with that
  mark, and an unknown session as such; no event is returned in either case.
\<close>

theorem events_after_rejects:
  assumes "kernel_inv C db"
  shows "((\<forall>s \<in> set (sessions db). s_session_id s \<noteq> to_string C session_id) \<longrightarrow>
       events_after C session_id cursor db = Inl (SessionNotFound session_id)) \<and>
    (\<forall>s \<in> set (sessions db). s_session_id s = to_string C session_id \<longrightarrow> s_next_event_sequence s < cursor \<longrightarrow>
       events_after C session_id cursor db = Inl (CursorAhead cursor (s_next_event_sequence s)))"
proof (intro conjI impI ballI)
  assume "\<forall>s \<in> set (sessions db). s_session_id s \<noteq> to_string C session_id"
  then have "find (\<lambda>s. s_session_id s = to_string C session_id) (sessions db) = None"
    by (auto simp: find_None_iff)
  then show "events_after C session_id cursor db = Inl (SessionNotFound session_id)"
    by (simp add: events_after_def load_event_page_def)
next
  fix s assume s: "s \<in> set (sessions db)" "s_session_id s = to_string C session_id" "s_next_event_sequence s < cursor"
  have "find (\<lambda>s. s_session_id s = to_string C session_id) (sessions db) = Some s"
    by (rule find_unique [where k = s_session_id]) (use s kernel_inv_keys(2) [OF assms] in auto)
  moreover have "0 \<le> s_next_event_sequence s"
    using constraints_okD(1) [OF kernel_invD(2) [OF assms]] s(1) by (auto simp: list_all_iff session_checks_def)
  ultimately show "events_after C session_id cursor db = Inl (CursorAhead cursor (s_next_event_sequence s))"
    using s(3) by (simp add: events_after_def load_event_page_def from_sql_integer_def)
qed

theorem events_after_rejects_witness:
  "events_after sample_codec 9 0 sample_completed = Inl (SessionNotFound 9) \<and>
   events_after sample_codec 2 5 sample_completed = Inl (CursorAhead 5 1)"
proof -
  let ?s = "hd (sessions sample_completed)"
  have "?s \<in> set (sessions sample_completed) \<and> s_session_id ?s = to_string sample_codec 2 \<and>
      s_next_event_sequence ?s = 1 \<and> (\<forall>s \<in> set (sessions sample_completed). s_session_id s \<noteq> to_string sample_codec 9)"
    by code_simp
  then show ?thesis
    using events_after_rejects [OF sample_completed_inv, of 9 0]
      events_after_rejects [OF sample_completed_inv, of 2 5] by force
qed

subsection \<open>What was appended is replayed\<close>

lemma history_appended:
  assumes inv: "kernel_inv C db" and s: "s \<in> set (sessions db)" "s_session_id s = to_string C session_id"
    and app: "semantic_events db' =
      semantic_events db @ appended C ids session_id operation_id (s_next_event_sequence s) events"
  shows "history C session_id (s_next_event_sequence s) db' =
    appended C ids session_id operation_id (s_next_event_sequence s) events"
proof -
  let ?n = "s_next_event_sequence s"
  let ?rows = "appended C ids session_id operation_id ?n events"
  have "gapless ?n (map v_sequence (events_of db (to_string C session_id)))"
    using kernel_invD(9) [OF inv s(1)] s(2) by (simp add: session_ok_def)
  then have "v_sequence v < ?n" if "v \<in> set (events_of db (to_string C session_id))" for v
    using that imageI [OF that, of v_sequence] by (simp add: gapless_def)
  then have old: "filter (\<lambda>v. ?n \<le> v_sequence v) (events_of db (to_string C session_id)) = []"
    by (simp add: filter_empty_conv linorder_not_le)
  have keys: "v_session_id v = to_string C session_id \<and> ?n \<le> v_sequence v" if "v \<in> set ?rows" for v
    using that by (auto simp: appended_def event_row_of_def)
  have evs: "events_of db' (to_string C session_id) = events_of db (to_string C session_id) @ ?rows"
    using keys by (simp add: events_of_def app)
  have "sorted (map v_sequence ?rows)"
    unfolding appended_sequences by (simp add: sorted_iff_nth_mono)
  then have "order_by v_sequence ?rows = ?rows" by (simp add: order_by_def sort_key_id_if_sorted)
  then show ?thesis using old keys by (simp add: history_def evs)
qed

lemma replay_appended:
  assumes C: "codec_ok C" and inv: "kernel_inv C db" and inv': "kernel_inv C db'"
    and s: "s \<in> set (sessions db)" "s_session_id s = to_string C session_id"
    and s': "s' \<in> set (sessions db')" "s_session_id s' = to_string C session_id"
      "s_next_event_sequence s' = s_next_event_sequence s + int (length events)"
    and app: "semantic_events db' =
      semantic_events db @ appended C ids session_id operation_id (s_next_event_sequence s) events"
  shows "\<exists>page. events_after C session_id (s_next_event_sequence s) db' = Inr page \<and>
    list_all2 (\<lambda>e n. ev_operation_id e = operation_id \<and> ev_kind e = ne_kind n \<and> ev_payload e = ne_payload n)
      (page_events page) events"
proof -
  let ?n = "s_next_event_sequence s"
  have n: "0 \<le> ?n" "?n \<le> s_next_event_sequence s'"
    using constraints_okD(1) [OF kernel_invD(2) [OF inv]] s(1) s'(3) by (auto simp: list_all_iff session_checks_def)
  obtain es where es: "events_after C session_id ?n db' = Inr \<lparr>page_events = es, next_cursor = s_next_event_sequence s'\<rparr>"
      "list_all2 (event_shows C db') (history C session_id ?n db') es"
    unfolding events_after_def using load_event_page_total [OF C inv' s'(1,2) n] by blast
  have shows2: "list_all2 (event_shows C db') (appended C ids session_id operation_id ?n events) es"
    using es(2) by (simp only: history_appended [OF inv s app])
  have same: "ev_operation_id (es ! i) = operation_id \<and> ev_kind (es ! i) = ne_kind (events ! i) \<and>
      ev_payload (es ! i) = ne_payload (events ! i)" if i: "i < length events" for i
  proof -
    have row: "event_shows C db' (event_row_of C ids session_id operation_id ?n (i, events ! i)) (es ! i)"
      using shows2 i by (simp add: list_all2_conv_all_nth appended_def nth_enumerate_eq)
    obtain t where "value_to_json C (ne_payload (events ! i)) = Some t" "value_from_json C t = Some (ne_payload (events ! i))"
      using round_tripD [OF codec_okD(7) [OF C]] by metis
    then show ?thesis
      using row to_string_inject [OF C] by (simp add: event_shows_def event_row_of_def)
  qed
  have "length es = length events" using list_all2_lengthD [OF shows2] by simp
  then show ?thesis
    using es(1) same by (intro exI [of _ "\<lparr>page_events = es, next_cursor = s_next_event_sequence s'\<rparr>"])
      (simp add: list_all2_conv_all_nth)
qed

text \<open>The tables a committed decision changes.\<close>

lemma commit_decision_history:
  assumes ok: "commit_decision C ids session_id operation_id tv decision db = Inr (committed, db')"
    and con: "constraints_ok db" and committed: "committed \<noteq> DecisionCancellationPending"
  obtains checkpoint events phase outcome s s' where
    "decision_parts decision = Inr (checkpoint, events, phase, outcome)"
    and "s \<in> set (sessions db)" and "s_session_id s = to_string C session_id"
    and "s' \<in> set (sessions db')" and "s_session_id s' = to_string C session_id"
    and "s_next_event_sequence s' = s_next_event_sequence s + int (length events)"
    and "semantic_events db' =
      semantic_events db @ appended C ids session_id operation_id (s_next_event_sequence s) events"
  using ok con
proof (cases rule: commit_decision_cases)
  case pending
  then show thesis using committed by simp
next
  case (decision checkpoint events phase outcome cpj ocj s db1 r)
  let ?db2 = "set_operation (to_string C operation_id) (decided phase cpj ocj) db1"
  let ?s1 = "s\<lparr>s_next_event_sequence := s_next_event_sequence s + int (length events)\<rparr>"
  have s1: "?s1 \<in> set (sessions ?db2)"
    using decision(3,4) by (force simp: decision(5) update_where_def)
  have tables: "semantic_events db' = semantic_events ?db2 \<and>
      (\<exists>f. sessions db' = map f (sessions ?db2) \<and> (\<forall>s. s_session_id (f s) = s_session_id s \<and>
        s_next_event_sequence (f s) = s_next_event_sequence s))"
  proof (cases outcome)
    case None
    then show ?thesis using decision(13) by (auto intro: exI [of _ id])
  next
    case (Some oc)
    then have clear: "clear_active C session_id operation_id ''terminal operation did not own its session'' ?db2 = Inr db'"
      using decision(13) by simp
    show ?thesis
      by (rule clear_active_eq [OF clear schema_keys(2) [OF decision(14)]])
        (simp add: update_where_def, rule exI [of _ "\<lambda>s. if s_session_id s = to_string C session_id
           then s\<lparr>s_active_operation_id := None\<rparr> else s"], simp)
  qed
  then obtain f where f: "sessions db' = map f (sessions ?db2)"
      "\<And>s. s_session_id (f s) = s_session_id s" "\<And>s. s_next_event_sequence (f s) = s_next_event_sequence s"
    by blast
  show thesis
    by (rule that [OF decision(1,3,4), of "f ?s1"]) (use s1 f tables decision(4,5) in \<open>auto simp: decision(5)\<close>)
qed

text \<open>
  C11 (decisions are replayed). The events of a committed loop decision are what \<open>events_after\<close>
  returns from the high-water mark the session had before: the same number, order, kinds and
  payloads, each attributed to the operation that decided.
\<close>

theorem decision_replayed:
  assumes "codec_ok C" and "kernel_inv C db"
    and "commit_decision C ids session_id operation_id tv decision db = Inr (committed, db')"
    and "committed \<noteq> DecisionCancellationPending"
    and "checkpoint_fits C operation_id (decision_checkpoint decision) db"
  shows "\<exists>before page checkpoint events phase outcome.
    events_after C session_id EventCursor_START db = Inr before \<and>
    decision_parts decision = Inr (checkpoint, events, phase, outcome) \<and>
    events_after C session_id (next_cursor before) db' = Inr page \<and>
    list_all2 (\<lambda>e n. ev_operation_id e = operation_id \<and> ev_kind e = ne_kind n \<and> ev_payload e = ne_payload n)
      (page_events page) events"
proof -
  note inv' = commit_decision_inv [OF assms(1,2,3,5)]
  obtain checkpoint events phase outcome s s' where
    d: "decision_parts decision = Inr (checkpoint, events, phase, outcome)"
    and s: "s \<in> set (sessions db)" "s_session_id s = to_string C session_id"
    and s': "s' \<in> set (sessions db')" "s_session_id s' = to_string C session_id"
      "s_next_event_sequence s' = s_next_event_sequence s + int (length events)"
    and app: "semantic_events db' =
      semantic_events db @ appended C ids session_id operation_id (s_next_event_sequence s) events"
    by (rule commit_decision_history [OF assms(3) kernel_invD(2) [OF assms(2)] assms(4)])
  have "0 \<le> s_next_event_sequence s"
    using constraints_okD(1) [OF kernel_invD(2) [OF assms(2)]] s(1) by (auto simp: list_all_iff session_checks_def)
  then obtain es where "events_after C session_id EventCursor_START db =
      Inr \<lparr>page_events = es, next_cursor = s_next_event_sequence s\<rparr>"
    unfolding events_after_def EventCursor_START_def
    using load_event_page_total [OF assms(1,2) s, of 0] by auto
  then show ?thesis
    using d replay_appended [OF assms(1,2) inv' s s' app] by fastforce
qed

theorem decision_replayed_witness:
  "\<exists>before page. events_after sample_codec 2 EventCursor_START sample_settled = Inr before \<and>
     events_after sample_codec 2 (next_cursor before) sample_completed = Inr page \<and>
     map ev_payload (page_events page) = [9]"
proof -
  let ?d = "Complete (sample_checkpoint 2) [sample_event]"
  have run: "commit_decision sample_codec sample_ids 2 3 4 ?d sample_settled = Inr (Finished OutcomeCompleted, sample_completed)"
    by code_simp
  have fits: "checkpoint_fits sample_codec 3 (decision_checkpoint ?d) sample_settled"
    by (rule manifest_fits [OF sample_settled_inv sample_manifest_is(2)])
      (simp add: sample_checkpoint_def sample_manifest_def)
  show ?thesis
    using decision_replayed [OF sample_codec_ok sample_settled_inv run _ fits]
    by (fastforce simp: list_all2_Cons2 sample_event_def)
qed

end
