(* ===== verification/Kernel_Closures.thy ===== *)
theory Kernel_Closures
  imports Kernel_Example
begin

section \<open>Cancellation requests\<close>

text \<open>
  What a durable cancellation request means for the rest of a run: it is never lost, it stops the
  operation before its next decision, intent or dispatch, and its identity stays bound to the
  operation it named.
\<close>

lemma cancellation_requested_stable: "stable C (cancellation_requested C operation_id)"
  unfolding stable_def cancellation_requested_def exists_row_iff later_def
  by (blast dest: set_mono_prefix)

lemma requested_later:
  assumes "codec_ok C" and "kernel_inv C db" and "kernel_steps C db db'"
    and "cancellation_requested C operation_id db"
  shows "cancellation_requested C operation_id db'"
  using cancellation_requested_stable assms(4) kernel_steps_inv [OF assms(1,3,2)]
    kernel_steps_later [OF assms(1,3,2)] unfolding stable_def by blast

text \<open>
  C5 (a request stops the operation). Once a cancellation of an operation is recorded, then at
  every later point of the run no decision of its loop, no effect intent and no dispatch is
  committed: those transactions only report the pending cancellation and write nothing, and an
  abandonment of its unknown effect is refused.
\<close>

theorem request_stops_operation:
  assumes "codec_ok C" and "kernel_inv C db" and "cancellation_requested C operation_id db"
    and "kernel_steps C db db'"
  shows "(\<forall>ids session_id tv decision x.
       commit_decision C ids session_id operation_id tv decision db' = Inr x \<longrightarrow>
       x = (DecisionCancellationPending, db')) \<and>
    (\<forall>batch_id ids tv intent x.
       commit_effect_batch_intent C batch_id ids operation_id tv intent db' = Inr x \<longrightarrow>
       x = (IntentCancellationPending, db')) \<and>
    (\<forall>tv x. prepare_effect_batch C operation_id tv db' = Inr x \<longrightarrow>
       x = (StartCancellationPending, db')) \<and>
    (\<forall>ids session_id tv hw abandonment.
       commit_unknown_effect_abandonment C ids session_id operation_id tv hw abandonment db' =
         Inl (CancellationPending operation_id))"
proof -
  have req: "cancellation_requested C operation_id db'"
    by (rule requested_later [OF assms(1,2,4,3)])
  have inv: "kernel_inv C db'" by (rule kernel_steps_inv [OF assms(1,4,2)])
  show ?thesis
  proof (intro conjI allI impI)
    fix ids session_id tv decision x
    assume ok: "commit_decision C ids session_id operation_id tv decision db' = Inr x"
    obtain c d where x: "x = (c, d)" by (cases x)
    show "x = (DecisionCancellationPending, db')"
      using ok [unfolded x] kernel_invD(2) [OF inv] by (cases rule: commit_decision_cases) (simp_all add: req x)
  next
    fix batch_id ids tv intent x
    assume ok: "commit_effect_batch_intent C batch_id ids operation_id tv intent db' = Inr x"
    obtain c d where x: "x = (c, d)" by (cases x)
    show "x = (IntentCancellationPending, db')"
      using ok [unfolded x] kernel_invD(2) [OF inv]
      by (cases rule: commit_effect_batch_intent_cases) (simp_all add: req x)
  next
    fix tv x
    assume ok: "prepare_effect_batch C operation_id tv db' = Inr x"
    obtain c d where x: "x = (c, d)" by (cases x)
    show "x = (StartCancellationPending, db')"
      using ok [unfolded x] assms(1) inv by (cases rule: prepare_effect_batch_cases) (simp_all add: req x)
  next
    fix ids session_id tv hw abandonment
    show "commit_unknown_effect_abandonment C ids session_id operation_id tv hw abandonment db' =
         Inl (CancellationPending operation_id)"
      by (simp add: commit_unknown_effect_abandonment_def req)
  qed
qed

theorem request_stops_operation_witness:
  "cancellation_requested sample_codec 3 sample_requested \<and>
   prepare_effect_batch sample_codec 3 3 sample_requested = Inr (StartCancellationPending, sample_requested)"
proof -
  have req: "cancellation_requested sample_codec 3 sample_requested" by code_simp
  have "succeeds (prepare_effect_batch sample_codec 3 3) sample_requested" by code_simp
  note run = run_tx_eq [OF this]
  show ?thesis
    using request_stops_operation [OF sample_codec_ok sample_requested_inv req rtranclp.rtrancl_refl] run req
    by metis
qed

subsection \<open>Identities of requests\<close>

lemma request_recorded:
  assumes "request_cancellation_tx C session_id operation_id cancellation_id db = Inr (signal, db')"
  shows "\<lparr>x_cancellation_id = to_string C cancellation_id, x_session_id = to_string C session_id,
    x_operation_id = to_string C operation_id\<rparr> \<in> set (cancellation_requests db')"
  using assms
proof (cases rule: request_cancellation_cases)
  case (repeated x)
  have "x = \<lparr>x_cancellation_id = to_string C cancellation_id, x_session_id = to_string C session_id,
    x_operation_id = to_string C operation_id\<rparr>"
    using repeated(2-4) by (cases x) simp
  then show ?thesis using repeated(1,5) by simp
next
  case (requested r s phase)
  then show ?thesis by simp
qed

lemma request_target:
  assumes inv: "kernel_inv C db" and x: "x \<in> set (cancellation_requests db)"
  obtains r s where "r \<in> set (operations db)" and "o_session_id r = x_session_id x"
    and "o_operation_id r = x_operation_id x"
    and "s \<in> set (sessions db)" and "s_session_id s = x_session_id x"
proof -
  obtain r where r: "r \<in> set (operations db)" "o_session_id r = x_session_id x" "o_operation_id r = x_operation_id x"
    using kernel_invD(4) [OF inv] x unfolding references_ok_def list_all_iff exists_row_iff by blast
  obtain s where "s \<in> set (sessions db)" "s_session_id s = o_session_id r"
    using referenced(1) [OF kernel_invD(4) [OF inv] r(1)] by blast
  then show thesis using that r by simp
qed

text \<open>
  C14 (cancellation identities). A recorded cancellation identity stays bound: at every later
  point of the run, requesting it again for the same operation succeeds, writes nothing and says
  whether that operation is running, and requesting it for any other is refused as a conflict
  that names the operation it is bound to.
\<close>

theorem cancellation_identity_bound:
  assumes "codec_ok C" and "kernel_inv C db"
    and "request_cancellation_tx C session_id operation_id cancellation_id db = Inr (signal, db1)"
    and "kernel_steps C db1 db2"
  shows "(\<exists>running. request_cancellation_tx C session_id operation_id cancellation_id db2 = Inr (running, db2) \<and>
      (\<forall>s \<in> set (sessions db2). s_session_id s = to_string C session_id \<longrightarrow>
        running = (s_active_operation_id s = Some (to_string C operation_id)))) \<and>
    (\<forall>other_session other. other_session \<noteq> session_id \<or> other \<noteq> operation_id \<longrightarrow>
      request_cancellation_tx C other_session other cancellation_id db2 =
        Inl (CancellationConflict cancellation_id operation_id))"
proof -
  let ?x = "\<lparr>x_cancellation_id = to_string C cancellation_id, x_session_id = to_string C session_id,
    x_operation_id = to_string C operation_id\<rparr>"
  have inv1: "kernel_inv C db1" by (rule request_cancellation_inv [OF assms(2,3)])
  have inv2: "kernel_inv C db2" by (rule kernel_steps_inv [OF assms(1,4) inv1])
  have x: "?x \<in> set (cancellation_requests db2)"
    using request_recorded [OF assms(3)] kernel_steps_later [OF assms(1,4) inv1]
    unfolding later_def by (blast dest: set_mono_prefix)
  have fx: "find (\<lambda>x. x_cancellation_id x = to_string C cancellation_id) (cancellation_requests db2) = Some ?x"
    by (rule find_unique [where k = x_cancellation_id]) (use x kernel_inv_keys(9) [OF inv2] in auto)
  obtain s where s: "s \<in> set (sessions db2)" "s_session_id s = to_string C session_id"
    by (rule request_target [OF inv2 x]) simp
  have fs: "find (\<lambda>s. s_session_id s = to_string C session_id) (sessions db2) = Some s"
    by (rule find_unique [where k = s_session_id]) (use s kernel_inv_keys(2) [OF inv2] in auto)
  have same: "request_cancellation_tx C session_id operation_id cancellation_id db2 =
      Inr (s_active_operation_id s = Some (to_string C operation_id), db2)"
    by (simp add: request_cancellation_tx_def fx fs)
  moreover have "s' = s" if "s' \<in> set (sessions db2)" "s_session_id s' = to_string C session_id" for s'
    by (rule unique_onD [OF kernel_inv_keys(2) [OF inv2] that(1) s(1)]) (simp add: that(2) s(2))
  moreover have "request_cancellation_tx C other_session other cancellation_id db2 =
        Inl (CancellationConflict cancellation_id operation_id)"
    if "other_session \<noteq> session_id \<or> other \<noteq> operation_id" for other_session other
    using that by (auto simp: request_cancellation_tx_def fx to_string_inject [OF assms(1)] parse_to_string [OF assms(1)])
  ultimately show ?thesis by blast
qed

theorem cancellation_identity_bound_witness:
  "request_cancellation_tx sample_codec 2 8 50 sample_closed = Inl (CancellationConflict 50 3)"
  using cancellation_identity_bound [OF sample_codec_ok sample_dispatched_inv
      run_tx_eq [OF sample_runs(8), folded sample_requested_def]
      r_into_rtranclp [of "kernel_step sample_codec", OF sample_step_closed]]
  by auto

end
