(* ===== verification/Kernel_Inspection.thy ===== *)
theory Kernel_Inspection
  imports Kernel_Admission Kernel_Effects
begin

section \<open>Inspection and observation\<close>

text \<open>
  The read-only views: \<open>inspection.rs\<close> with the batch snapshots of \<open>projection.rs\<close>, and
  \<open>observation.rs\<close>, which reads a database file of a schema version it is told. None of them
  writes.
\<close>

record 'v EffectSnapshot =
  es_effect_id :: EffectId
  es_position :: u64
  es_binding :: string
  es_binding_revision :: string
  es_recovery :: EffectRecovery
  es_request :: "'v option"
  es_status :: EffectStatus
  es_dispatch_count :: u64
  es_outcome :: "'v EffectOutcome option"

record 'v EffectBatchSnapshot =
  bs_batch_id :: EffectBatchId
  bs_position :: u64
  bs_effects :: "'v EffectSnapshot list"

record 'v OperationSnapshot =
  os_operation_id :: OperationId
  os_command_id :: CommandId
  os_command :: "'v Command"
  os_position :: u64
  os_status :: OperationStatus
  os_manifest :: "RuntimeManifest option"
  os_checkpoint :: "'v Checkpoint option"
  os_outcome :: "OperationOutcome option"
  os_effect_batches :: "'v EffectBatchSnapshot list"

record 'v SessionSnapshot =
  ss_agent_id :: AgentId
  ss_operations :: "'v OperationSnapshot list"

record CommandStanding =
  admitted :: bool
  other_unfinished :: bool

subsection \<open>Snapshots\<close>

definition effect_snapshot ::
    "('t, 'v) codec \<Rightarrow> nat \<times> 't effect_row \<Rightarrow> 'v EffectSnapshot kernel_result" where
  "effect_snapshot C entry =
     (case entry of (expected_position, e) \<Rightarrow>
       and_then (from_sql_integer (e_position e) ''effect position'') (\<lambda>position.
       if position \<noteq> int expected_position
       then Inl (Corrupt ''effect batch child positions are not gapless'')
       else
       and_then (parse_effect_id C (e_effect_id e)) (\<lambda>effect_id.
       and_then (parse_recovery (e_recovery e)) (\<lambda>recovery.
       and_then (transpose_map (decode (value_from_json C)) (e_request_json e)) (\<lambda>request.
       and_then (parse_status (e_status e)) (\<lambda>status.
       and_then (from_sql_integer (e_dispatch_count e) ''effect dispatch count'') (\<lambda>count.
       and_then (transpose_map (decode (effect_outcome_from_json C)) (e_outcome_json e)) (\<lambda>outcome.
       Inr \<lparr>es_effect_id = effect_id, es_position = position, es_binding = e_binding e,
            es_binding_revision = e_binding_revision e, es_recovery = recovery,
            es_request = request, es_status = status, es_dispatch_count = count,
            es_outcome = outcome\<rparr>))))))))"

definition load_effect_snapshots ::
    "('t, 'v) codec \<Rightarrow> EffectBatchId \<Rightarrow> 't db \<Rightarrow> 'v EffectSnapshot list kernel_result" where
  "load_effect_snapshots C batch_id db =
     and_then (try_map (effect_snapshot C) (enumerate 0 (order_by e_position
       (filter (\<lambda>e. e_batch_id e = to_string C batch_id) (effects db))))) require_children"

definition batch_snapshot ::
    "('t, 'v) codec \<Rightarrow> 't db \<Rightarrow> nat \<times> 't batch_row \<Rightarrow> 'v EffectBatchSnapshot kernel_result" where
  "batch_snapshot C db entry =
     (case entry of (expected_position, b) \<Rightarrow>
       and_then (from_sql_integer (b_position b) ''effect batch position'') (\<lambda>position.
       if position \<noteq> int expected_position
       then Inl (Corrupt ''effect batch positions are not gapless'')
       else
       and_then (parse_effect_batch_id C (b_batch_id b)) (\<lambda>batch_id.
       and_then (load_effect_snapshots C batch_id db) (\<lambda>children.
       Inr \<lparr>bs_batch_id = batch_id, bs_position = position, bs_effects = children\<rparr>))))"

definition load_effect_batch_snapshots ::
    "('t, 'v) codec \<Rightarrow> OperationId \<Rightarrow> 't db \<Rightarrow> 'v EffectBatchSnapshot list kernel_result" where
  "load_effect_batch_snapshots C operation_id db =
     try_map (batch_snapshot C db) (enumerate 0 (order_by b_position
       (filter (\<lambda>b. b_operation_id b = to_string C operation_id) (effect_batches db))))"

definition operation_snapshot ::
    "('t, 'v) codec \<Rightarrow> 't db \<Rightarrow> 't operation_row \<times> 't command_row \<Rightarrow>
     'v OperationSnapshot kernel_result" where
  "operation_snapshot C db row =
     and_then (parse_operation_id C (o_operation_id (fst row))) (\<lambda>operation_id.
     and_then (decode_operation C row) (\<lambda>stored.
     and_then (from_sql_integer (o_position (fst row)) ''operation position'') (\<lambda>position.
     and_then (load_effect_batch_snapshots C operation_id db) (\<lambda>batches.
     Inr \<lparr>os_operation_id = operation_id, os_command_id = command_id (so_command stored),
          os_command = so_command stored, os_position = position,
          os_status = phase_status (so_phase stored), os_manifest = so_manifest stored,
          os_checkpoint = so_checkpoint stored, os_outcome = so_outcome stored,
          os_effect_batches = batches\<rparr>))))"

definition inspect ::
    "('t, 'v) codec \<Rightarrow> SessionId \<Rightarrow> 't db \<Rightarrow> 'v SessionSnapshot kernel_result" where
  "inspect C session_id db =
     and_then (ok_or (find (\<lambda>s. s_session_id s = to_string C session_id) (sessions db))
       (SessionNotFound session_id)) (\<lambda>session.
     and_then (try_map (operation_snapshot C db)
       (order_by (\<lambda>(r, c). o_position r)
         (filter (\<lambda>(r, c). o_session_id r = to_string C session_id) (operation_rows db))))
       (\<lambda>ops.
     and_then (parse_agent_id C (s_agent_id session)) (\<lambda>agent_id.
     Inr \<lparr>ss_agent_id = agent_id, ss_operations = ops\<rparr>)))"

definition command_standing ::
    "('t, 'v) codec \<Rightarrow> SessionId \<Rightarrow> CommandId \<Rightarrow> 't db \<Rightarrow> CommandStanding kernel_result" where
  "command_standing C session_id cid db =
     (if \<not> exists_row (\<lambda>s. s_session_id s = to_string C session_id) (sessions db)
      then Inl (SessionNotFound session_id)
      else Inr
       \<lparr>admitted = exists_row (\<lambda>r. o_session_id r = to_string C session_id \<and>
          o_command_id r = to_string C cid) (operations db),
        other_unfinished = exists_row (\<lambda>r. o_session_id r = to_string C session_id \<and>
          o_command_id r \<noteq> to_string C cid \<and> unfinished_operation r) (operations db)\<rparr>)"

subsection \<open>Observation\<close>

definition OBSERVED_SINCE :: u32 where
  "OBSERVED_SINCE = 3"

record OperationObservation =
  oo_operation_id :: OperationId
  oo_command_id :: CommandId
  oo_position :: u64
  oo_status :: OperationStatus

record SessionObservation =
  sv_agent_id :: AgentId
  sv_event_count :: u64
  sv_queued_operations :: u64
  sv_active_operation :: "OperationObservation option"
  sv_latest_operation :: "OperationObservation option"

text \<open>\<open>ORDER BY position DESC LIMIT 1\<close> over the operations of a session, or over the one named.\<close>

definition observed_row :: "('t, 'v) codec \<Rightarrow> SessionId \<Rightarrow> 't option \<Rightarrow> 't db \<Rightarrow> 't operation_row option" where
  "observed_row C session_id wanted db =
     first_row (order_by (\<lambda>r. - o_position r) (filter (\<lambda>r. o_session_id r = to_string C session_id \<and>
       (wanted = None \<or> Some (o_operation_id r) = wanted)) (operations db)))"

definition observe_operation ::
    "('t, 'v) codec \<Rightarrow> SessionId \<Rightarrow> 't option \<Rightarrow> 't db \<Rightarrow>
     OperationObservation option kernel_result" where
  "observe_operation C session_id wanted db =
     (case observed_row C session_id wanted db of
        None \<Rightarrow> Inr None
      | Some r \<Rightarrow>
          and_then (require (0 \<le> o_state_version r \<and> o_state_version r < 2 ^ 32) sqlite_error) (\<lambda>_.
          if o_state_version r \<noteq> int OPERATION_STATE_VERSION
          then Inl (UnsupportedStateVersion (nat (o_state_version r)) OPERATION_STATE_VERSION)
          else
          and_then (parse_operation_id C (o_operation_id r)) (\<lambda>operation_id.
          and_then (parse_command_id C (o_command_id r)) (\<lambda>cid.
          and_then (from_sql_integer (o_position r) ''operation position'') (\<lambda>position.
          and_then (phase_from_database (o_phase r)) (\<lambda>phase.
          Inr (Some \<lparr>oo_operation_id = operation_id, oo_command_id = cid,
                     oo_position = position, oo_status = phase_status phase\<rparr>)))))))"

definition observe_session ::
    "('t, 'v) codec \<Rightarrow> u32 \<Rightarrow> SessionId \<Rightarrow> 't db \<Rightarrow> SessionObservation kernel_result" where
  "observe_session C version session_id db =
     (if \<not> (OBSERVED_SINCE \<le> version \<and> version \<le> SCHEMA_VERSION)
      then Inl (UnsupportedSchema version SCHEMA_VERSION)
      else
      and_then (ok_or (find (\<lambda>s. s_session_id s = to_string C session_id) (sessions db))
        (SessionNotFound session_id)) (\<lambda>session.
      let queued = int (length (filter (\<lambda>r. o_session_id r = to_string C session_id \<and>
        o_phase r = ''queued'') (operations db))) in
      and_then (transpose_map (\<lambda>id. and_then (observe_operation C session_id (Some id) db)
          (\<lambda>found. ok_or found (Corrupt ''active operation does not belong to its session'')))
        (s_active_operation_id session)) (\<lambda>active.
      and_then (observe_operation C session_id None db) (\<lambda>latest.
      and_then (parse_agent_id C (s_agent_id session)) (\<lambda>agent_id.
      and_then (from_sql_integer (s_next_event_sequence session) ''event count'') (\<lambda>event_count.
      and_then (from_sql_integer queued ''queued operation count'') (\<lambda>queued.
      Inr \<lparr>sv_agent_id = agent_id, sv_event_count = event_count,
           sv_queued_operations = queued, sv_active_operation = active,
           sv_latest_operation = latest\<rparr>)))))))"

end
