(* ===== verification/Kernel_Reads.thy ===== *)
theory Kernel_Reads
  imports Kernel_Example Kernel_Inspection
begin

section \<open>Every read succeeds\<close>

text \<open>
  The kernel decodes every row it reads and reports a \<open>Corrupt\<close> database when something does not
  fit. On a database with the invariant none of these reports happens: inspection, the facts of an
  effect batch and the input of the loop are total there, and show what the rows say.
\<close>

subsection \<open>Snapshots\<close>

definition snapshot_shows :: "('t, 'v) codec \<Rightarrow> 't effect_row \<Rightarrow> 'v EffectSnapshot \<Rightarrow> bool" where
  "snapshot_shows C e x \<longleftrightarrow>
     e_effect_id e = to_string C (es_effect_id x) \<and> e_position e = es_position x \<and>
     e_binding e = es_binding x \<and> e_binding_revision e = es_binding_revision x \<and>
     e_recovery e = recovery_as_str (es_recovery x) \<and>
     es_request x = Option.bind (e_request_json e) (value_from_json C) \<and>
     e_status e = status_name (es_status x) \<and> e_dispatch_count e = es_dispatch_count x \<and>
     es_outcome x = Option.bind (e_outcome_json e) (effect_outcome_from_json C)"

definition batch_shows :: "('t, 'v) codec \<Rightarrow> 't db \<Rightarrow> 't batch_row \<Rightarrow> 'v EffectBatchSnapshot \<Rightarrow> bool" where
  "batch_shows C db b x \<longleftrightarrow>
     b_batch_id b = to_string C (bs_batch_id x) \<and> b_position b = bs_position x \<and>
     list_all2 (snapshot_shows C) (order_by e_position (children_of db (b_batch_id b))) (bs_effects x)"

definition operation_shows ::
    "('t, 'v) codec \<Rightarrow> 't db \<Rightarrow> 't operation_row \<Rightarrow> 'v OperationSnapshot \<Rightarrow> bool" where
  "operation_shows C db r x \<longleftrightarrow>
     o_operation_id r = to_string C (os_operation_id x) \<and>
     o_command_id r = to_string C (os_command_id x) \<and> o_position r = os_position x \<and>
     (\<exists>phase. o_phase r = phase_as_str phase \<and> os_status x = phase_status phase) \<and>
     os_manifest x = row_manifest C r \<and>
     os_checkpoint x = Option.bind (o_checkpoint_json r) (checkpoint_from_json C) \<and>
     os_outcome x = Option.bind (o_outcome_json r) (outcome_from_json C) \<and>
     list_all2 (batch_shows C db) (order_by b_position (batches_of db (o_operation_id r))) (os_effect_batches x)"

lemma transpose_decode:
  "(\<And>t. p = Some t \<Longrightarrow> dec t \<noteq> None) \<Longrightarrow> transpose_map (decode dec) p = Inr (Option.bind p dec)"
  by (cases p) (auto simp: ok_or_def)

lemma effect_snapshot_shows:
  assumes C: "codec_ok C" and ok: "effect_ok C M e" and chk: "effect_checks e" and pos: "e_position e = int i"
  shows "\<exists>x. effect_snapshot C (i, e) = Inr x \<and> snapshot_shows C e x"
proof -
  obtain u where u: "e_effect_id e = to_string C u" using ok by (auto simp: effect_ok_def canonical_def)
  obtain rec st where cols: "e_recovery e = recovery_as_str rec" "e_status e = status_name st"
    using effect_columns(1,2) [OF chk] by blast
  have req: "transpose_map (decode (value_from_json C)) (e_request_json e) =
      Inr (Option.bind (e_request_json e) (value_from_json C))"
    and oc: "transpose_map (decode (effect_outcome_from_json C)) (e_outcome_json e) =
      Inr (Option.bind (e_outcome_json e) (effect_outcome_from_json C))"
    by (rule transpose_decode; use ok in \<open>simp add: effect_ok_def\<close>)+
  have "0 \<le> e_dispatch_count e" using chk by (simp add: effect_checks_def)
  then show ?thesis
    by (simp add: effect_snapshot_def u cols req oc pos parse_to_string [OF C] column_text
        effect_columns(3) [OF chk] snapshot_shows_def from_sql_integer_def)
qed

lemma batch_snapshot_shows:
  assumes C: "codec_ok C" and inv: "kernel_inv C db" and r: "r \<in> set (operations db)"
    and b: "b \<in> set (batches_of db (o_operation_id r))" and pos: "b_position b = int i"
  shows "\<exists>x. batch_snapshot C db (i, b) = Inr x \<and> batch_shows C db b x"
proof -
  note own = owned_batch [OF inv r b]
  obtain M where M: "batch_ok C M (children_of db (b_batch_id b))" using own(1) by blast
  obtain u where u: "b_batch_id b = to_string C u" using own(4) by (auto simp: canonical_def)
  have "\<exists>ys. load_effect_snapshots C u db = Inr ys \<and>
      list_all2 (snapshot_shows C) (order_by e_position (children_of db (b_batch_id b))) ys"
    unfolding load_effect_snapshots_def children_of_def [symmetric] u [symmetric]
    by (rule read_children [OF M], rule effect_snapshot_shows [OF C _ own(3)])
      (use M in \<open>auto simp: batch_ok_def\<close>)
  then show ?thesis
    by (auto simp: batch_snapshot_def batch_shows_def u pos parse_to_string [OF C] from_sql_integer_def)
qed

lemma operation_snapshot_shows:
  assumes C: "codec_ok C" and inv: "kernel_inv C db" and r: "r \<in> set (operations db)"
  shows "\<exists>x. operation_snapshot C db (r, command_of db r) = Inr x \<and> operation_shows C db r x"
proof -
  obtain oid where oid: "o_operation_id r = to_string C oid"
    using command_key_canonical(2) [OF inv r] by (auto simp: canonical_def)
  obtain stored where st: "decode_operation C (r, command_of db r) = Inr stored" "stored_shows C r stored"
    using decode_operation_shows [OF C inv r] by blast
  have pos: "0 \<le> o_position r"
    using constraints_okD(2) [OF kernel_invD(2) [OF inv]] r by (auto simp: list_all_iff operation_checks_def)
  have gap: "gapless (o_next_effect_batch_position r) (map b_position (batches_of db (o_operation_id r)))"
    using kernel_invD(10) [OF inv r] by (simp add: op_ok_def batches_ok_def)
  have "\<exists>ys. load_effect_batch_snapshots C oid db = Inr ys \<and>
      list_all2 (batch_shows C db) (order_by b_position (batches_of db (o_operation_id r))) ys"
    unfolding load_effect_batch_snapshots_def batches_of_def [symmetric] oid [symmetric]
    by (rule try_map_enumerate [OF gapless_length [OF gap, unfolded length_map]], rule batch_snapshot_shows [OF C inv r])
  then obtain ys where "load_effect_batch_snapshots C oid db = Inr ys"
      "list_all2 (batch_shows C db) (order_by b_position (batches_of db (to_string C oid))) ys"
    unfolding oid by blast
  then show ?thesis
    using st(2) by (auto simp: operation_snapshot_def operation_shows_def oid st(1) pos parse_to_string [OF C]
        from_sql_integer_def stored_shows_def intro: exI [of _ "so_phase stored"])
qed

text \<open>
  C17 (inspection). On every database with the invariant, inspecting a session succeeds and shows
  all its operations in admission order, each with the status of its phase, its manifest,
  checkpoint and outcome, and all its effect batches and effects in order with their state.
\<close>

theorem inspect_shows:
  assumes C: "codec_ok C" and inv: "kernel_inv C db"
    and s: "s \<in> set (sessions db)" "s_session_id s = to_string C session_id"
  shows "\<exists>snapshot. inspect C session_id db = Inr snapshot \<and>
    s_agent_id s = to_string C (ss_agent_id snapshot) \<and>
    list_all2 (operation_shows C db) (order_by o_position (ops_of db (s_session_id s)))
      (ss_operations snapshot)"
proof -
  have find: "find (\<lambda>s. s_session_id s = to_string C session_id) (sessions db) = Some s"
    by (rule find_unique [where k = s_session_id]) (use s kernel_inv_keys(2) [OF inv] in auto)
  obtain agent where agent: "s_agent_id s = to_string C agent"
    using kernel_invD(9) [OF inv s(1)] by (auto simp: session_ok_def canonical_def)
  have rows: "order_by (\<lambda>(r, c). o_position r)
      (filter (\<lambda>(r, c). o_session_id r = to_string C session_id) (operation_rows db)) =
    map (\<lambda>r. (r, command_of db r)) (order_by o_position (ops_of db (s_session_id s)))"
    unfolding operation_rows_eq [OF inv] filter_map order_by_map ops_of_def s(2) by (simp add: o_def)
  obtain xs where "try_map (operation_snapshot C db)
      (map (\<lambda>r. (r, command_of db r)) (order_by o_position (ops_of db (s_session_id s)))) = Inr xs"
      "list_all2 (operation_shows C db) (order_by o_position (ops_of db (s_session_id s))) xs"
    unfolding try_map_map
    using try_map_rel [of "order_by o_position (ops_of db (s_session_id s))"
        "\<lambda>r. operation_snapshot C db (r, command_of db r)" "operation_shows C db"]
      operation_snapshot_shows [OF C inv] by (auto simp: ops_of_def)
  then show ?thesis
    by (simp add: inspect_def find rows agent parse_to_string [OF C])
qed

theorem inspect_shows_witness:
  "\<exists>snapshot. inspect sample_codec 2 sample_completed = Inr snapshot \<and> length (ss_operations snapshot) = 1"
proof -
  let ?s = "hd (sessions sample_completed)"
  have s: "?s \<in> set (sessions sample_completed)" "s_session_id ?s = to_string sample_codec 2"
    "length (ops_of sample_completed (s_session_id ?s)) = 1"
    by code_simp+
  show ?thesis
    using inspect_shows [OF sample_codec_ok sample_completed_inv s(1,2)] s(3)
    by (auto dest!: list_all2_lengthD simp: order_by_def)
qed

subsection \<open>Effect facts\<close>

definition fact_shows :: "('t, 'v) codec \<Rightarrow> 't effect_row \<Rightarrow> 'v EffectFact \<Rightarrow> bool" where
  "fact_shows C e shown \<longleftrightarrow>
     (case shown of
        NotDispatched u \<Rightarrow> e_status e = ''intent_committed'' \<and> e_effect_id e = to_string C (ue_effect_id u)
      | FactOutcomeUnknown u \<Rightarrow> e_status e \<in> {''dispatch_started'', ''outcome_unknown''} \<and>
          e_effect_id e = to_string C (ue_effect_id u)
      | FactSettled x \<Rightarrow> e_status e = ''settled'' \<and> e_effect_id e = to_string C (se_effect_id x) \<and>
          e_binding e = se_binding x \<and> e_binding_revision e = se_binding_revision x \<and>
          Option.bind (e_outcome_json e) (effect_outcome_from_json C) = Some (se_outcome x))"

lemma effect_fact_shows:
  assumes C: "codec_ok C" and ok: "effect_ok C M e" and chk: "effect_checks e" and pos: "e_position e = int i"
    and req: "e_request_json e \<noteq> None" and M: "\<And>m. manifest = Some m \<Longrightarrow> m = M"
  shows "\<exists>shown. effect_fact C manifest (i, e) = Inr shown \<and> fact_shows C e shown"
proof -
  obtain u where u: "e_effect_id e = to_string C u" using ok by (auto simp: effect_ok_def canonical_def)
  obtain t v where t: "e_request_json e = Some t" "value_from_json C t = Some v"
    using ok req by (auto simp: effect_ok_def)
  obtain st where st: "e_status e = status_name st" using effect_columns(2) [OF chk] by blast
  have fits: "\<not> (case manifest of None \<Rightarrow> False
      | Some m \<Rightarrow> btree_get (effect_bindings m) (e_binding e) \<noteq> Some (e_binding_revision e))"
    using ok M by (cases manifest) (auto simp: effect_ok_def)
  have oc: "(e_outcome_json e \<noteq> None) = (st = Settled)"
    using chk status_text.show_inj [of st Settled] by (auto simp: effect_checks_def st)
  have dec: "\<exists>o'. effect_outcome_from_json C x = Some o'" if "e_outcome_json e = Some x" for x
    using ok that by (auto simp: effect_ok_def)
  have start: "effect_fact C manifest (i, e) =
      (let unsettled = \<lparr>ue_effect_id = u, ue_binding = e_binding e,
             ue_binding_revision = e_binding_revision e, ue_request = v\<rparr> in
       case (st, e_outcome_json e) of
         (IntentCommitted, None) \<Rightarrow> Inr (NotDispatched unsettled)
       | (DispatchStarted, None) \<Rightarrow> Inr (FactOutcomeUnknown unsettled)
       | (EffectOutcomeUnknown, None) \<Rightarrow> Inr (FactOutcomeUnknown unsettled)
       | (Settled, Some outcome_json) \<Rightarrow>
           and_then (decode (effect_outcome_from_json C) outcome_json) (\<lambda>outcome.
           Inr (FactSettled \<lparr>se_effect_id = u, se_binding = e_binding e,
             se_binding_revision = e_binding_revision e, se_request = v, se_outcome = outcome\<rparr>))
       | (Settled, None) \<Rightarrow> Inl (Corrupt ''settled effect has no outcome'')
       | (_, Some _) \<Rightarrow> Inl (Corrupt ''unsettled effect contains an outcome''))"
    unfolding effect_fact_def prod.case if_not_P [OF fits]
    by (simp add: child_position_ok [OF pos] u t st parse_to_string [OF C] column_text)
  show ?thesis
  proof (cases "e_outcome_json e")
    case None
    then show ?thesis unfolding start using oc by (cases st) (simp_all add: fact_shows_def st u)
  next
    case (Some x)
    then obtain o' where "effect_outcome_from_json C x = Some o'" using dec by blast
    then show ?thesis unfolding start using oc Some by (cases st) (simp_all add: fact_shows_def st u)
  qed
qed

lemma load_effect_batch_facts_total:
  assumes C: "codec_ok C" and inv: "kernel_inv C db"
    and r: "r \<in> set (operations db)" "o_operation_id r = to_string C operation_id"
    and b: "to_string C batch_id \<in> b_batch_id ` set (batches_of db (o_operation_id r))"
    and M: "\<And>m. manifest = Some m \<Longrightarrow> row_manifest C r = Some m"
    and unreleased: "o_outcome_json r = None \<or> \<not> all_settled (children_of db (to_string C batch_id))"
  shows "\<exists>facts. load_effect_batch_facts C operation_id batch_id manifest db =
      Inr \<lparr>bf_batch_id = batch_id, bf_effects = facts\<rparr> \<and>
    list_all2 (fact_shows C) (order_by e_position (children_of db (to_string C batch_id))) facts"
proof -
  let ?es = "children_of db (to_string C batch_id)"
  obtain bt where bt: "bt \<in> set (batches_of db (o_operation_id r))" "b_batch_id bt = to_string C batch_id"
    using b by auto
  note own = owned_batch [OF inv r(1) bt(1), unfolded bt(2)]
  obtain m where m: "row_manifest C r = Some m" "batch_ok C m ?es" using own(1) by blast
  have own_row: "exists_row (\<lambda>b. b_batch_id b = to_string C batch_id \<and>
      b_operation_id b = to_string C operation_id) (effect_batches db)"
    using bt r(2) by (auto simp: exists_row_iff batches_of_def)
  have each: "\<exists>shown. effect_fact C manifest (i, e) = Inr shown \<and> fact_shows C e shown"
    if e: "e \<in> set ?es" "e_position e = int i" for i e
    by (rule effect_fact_shows [OF C _ own(3) [OF e(1)] e(2)])
      (use m M unreleased own(2) [OF e(1)] e(1) in \<open>auto simp: batch_ok_def\<close>)
  obtain ys where "and_then (try_map (effect_fact C manifest) (enumerate 0 (order_by e_position ?es))) require_children = Inr ys"
      "list_all2 (fact_shows C) (order_by e_position ?es) ys"
    using read_children [where f = "effect_fact C manifest" and R = "fact_shows C", OF m(2) each] by blast
  then show ?thesis
    using own_row by (auto simp: load_effect_batch_facts_def children_of_def and_then_assoc elim!: and_then_InrE)
qed

end
