(* ===== verification/Kernel_Leases.thy ===== *)
theory Kernel_Leases
  imports Kernel_Example
begin

section \<open>Session leases\<close>

text \<open>
  Who holds the lease of a session while it is driven: the drive, and the effect adapters that run
  on when the drive stops early.
\<close>

text \<open>
  How a session is leased: \<open>own\<close> calls hold a lease of it and \<open>n\<close> adapters a clone. Other callers
  never touch the lease of a session that is held; they may fail to acquire it and signal it.
\<close>

definition leased_by :: "SessionId \<Rightarrow> nat \<Rightarrow> nat \<Rightarrow> 't Kernel \<Rightarrow> bool" where
  "leased_by session_id own n k \<longleftrightarrow> running_adapters k session_id = n \<and>
     (case running_sessions k session_id of
        None \<Rightarrow> own + n = 0
      | Some running \<Rightarrow> rs_holders running = own + n \<and> 0 < own + n)"

inductive elsewhere :: "SessionId \<Rightarrow> 't Kernel \<Rightarrow> 't Kernel \<Rightarrow> bool" for session_id where
  commits: "elsewhere session_id k (k\<lparr>k_db := db\<rparr>)"
| acquires: "lease_acquire s k = Inr k' \<Longrightarrow> elsewhere session_id k k'"
| signals: "elsewhere session_id k (signal_running_operation s operation_id k)"
| binds: "s \<noteq> session_id \<Longrightarrow> lease_bind s operation_id k = Inr k' \<Longrightarrow> elsewhere session_id k k'"
| spawns: "s \<noteq> session_id \<Longrightarrow> elsewhere session_id k (spawn_adapter s k)"
| finishes: "s \<noteq> session_id \<Longrightarrow> elsewhere session_id k (adapter_done s k)"
| drops: "s \<noteq> session_id \<Longrightarrow> elsewhere session_id k (lease_drop s k)"

definition others_elsewhere :: "SessionId \<Rightarrow> ('t, 'v, 'a, 'w) world \<Rightarrow> bool" where
  "others_elsewhere session_id W \<longleftrightarrow> (\<forall>w k. (elsewhere session_id)\<^sup>*\<^sup>* k (fst (others W w k)))"

lemmas lease_defs = lease_acquire_def lease_bind_def lease_clone_def lease_drop_def
  spawn_adapter_def adapter_done_def signal_running_operation_def

lemma leased_acquire: "lease_acquire session_id k = Inr k' \<Longrightarrow> leased_by session_id 0 0 k \<Longrightarrow> leased_by session_id (Suc 0) 0 k'"
  by (auto simp: leased_by_def lease_defs split: if_splits)

lemma leased_bind: "lease_bind session_id oid k = Inr k' \<Longrightarrow> leased_by session_id own n k \<Longrightarrow> leased_by session_id own n k'"
  by (auto simp: leased_by_def lease_defs split: option.splits if_splits)

lemma leased_spawn: "leased_by session_id (Suc own) n k \<Longrightarrow> leased_by session_id (Suc own) (Suc n) (spawn_adapter session_id k)"
  by (auto simp: leased_by_def lease_defs split: option.splits)

lemma leased_done: "leased_by session_id own (Suc n) k \<Longrightarrow> leased_by session_id own n (adapter_done session_id k)"
  by (auto simp: leased_by_def lease_defs split: option.splits)

lemma leased_drop: "leased_by session_id (Suc own) n k \<Longrightarrow> leased_by session_id own n (lease_drop session_id k)"
  by (auto simp: leased_by_def lease_defs split: option.splits)

lemma leased_spawns: "leased_by session_id (Suc 0) 0 k \<Longrightarrow> leased_by session_id (Suc 0) n ((spawn_adapter session_id ^^ n) k)"
  by (induction n) (use leased_spawn [of session_id 0] in auto)

lemma leased_dones:
  "leased_by session_id own n k \<Longrightarrow> j \<le> n \<Longrightarrow> leased_by session_id own (n - j) ((adapter_done session_id ^^ j) k)"
  by (induction j) (auto intro!: leased_done simp: Suc_diff_Suc)

lemma leased_let_go:
  "leased_by session_id (Suc 0) n (fst m) \<Longrightarrow> \<exists>left. leased_by session_id (Suc 0) left (fst (let_go W session_id n m))"
  using leased_dones [of session_id "Suc 0" n "fst m" "min n (already_done W (snd m) n)"] by (auto simp: let_go_def)

lemma leased_db [simp]: "leased_by session_id own n (k\<lparr>k_db := db\<rparr>) = leased_by session_id own n k"
  by (simp add: leased_by_def)

lemma leased_elsewhere:
  assumes "elsewhere session_id k k'" and "leased_by session_id (Suc own) n k"
  shows "leased_by session_id (Suc own) n k'"
  using assms
  by (induction rule: elsewhere.induct)
    (auto simp: leased_by_def lease_defs split: option.splits if_splits)

lemma leased_others:
  assumes "others_elsewhere session_id W" and "leased_by session_id (Suc 0) n k"
  shows "leased_by session_id (Suc 0) n (fst (others W w k))"
proof -
  have "(elsewhere session_id)\<^sup>*\<^sup>* k (fst (others W w k))" using assms(1) by (simp add: others_elsewhere_def)
  then show ?thesis
    using assms(2) by (induction rule: rtranclp_induct) (auto dest: leased_elsewhere [where own = 0])
qed

text \<open>
  A driver that keeps the lease as it is, and one that begins with no attempt in flight and, when
  it stops early, may leave some behind.
\<close>

definition keeps_lease :: "SessionId \<Rightarrow> ('t, 'w, 'a) driver \<Rightarrow> bool" where
  "keeps_lease session_id d \<longleftrightarrow>
     (\<forall>n m result m'. d m = (result, m') \<longrightarrow> leased_by session_id (Suc 0) n (fst m) \<longrightarrow> leased_by session_id (Suc 0) n (fst m'))"

definition lets_go :: "SessionId \<Rightarrow> stop + 'a \<Rightarrow> 't Kernel \<Rightarrow> bool" where
  "lets_go session_id result k \<longleftrightarrow>
     (case result of Inl _ \<Rightarrow> \<exists>n. leased_by session_id (Suc 0) n k | Inr _ \<Rightarrow> leased_by session_id (Suc 0) 0 k)"

definition holds_lease :: "SessionId \<Rightarrow> ('t, 'w, 'a) driver \<Rightarrow> bool" where
  "holds_lease session_id d \<longleftrightarrow>
     (\<forall>m result m'. d m = (result, m') \<longrightarrow> leased_by session_id (Suc 0) 0 (fst m) \<longrightarrow> lets_go session_id result (fst m'))"

lemma keepsD:
  "keeps_lease session_id d \<Longrightarrow> d m = (result, m') \<Longrightarrow> leased_by session_id (Suc 0) n (fst m) \<Longrightarrow> leased_by session_id (Suc 0) n (fst m')"
  unfolding keeps_lease_def by blast

lemma holdsD:
  "holds_lease session_id d \<Longrightarrow> d m = (result, m') \<Longrightarrow> leased_by session_id (Suc 0) 0 (fst m) \<Longrightarrow> lets_go session_id result (fst m')"
  unfolding holds_lease_def by blast

lemma lets_go_simps [simp]:
  "lets_go session_id (Inl e) k = (\<exists>n. leased_by session_id (Suc 0) n k)"
  "lets_go session_id (Inr a) k = leased_by session_id (Suc 0) 0 k"
  by (simp_all add: lets_go_def)

lemma keeps_holds: "keeps_lease session_id d \<Longrightarrow> holds_lease session_id d"
  unfolding holds_lease_def lets_go_def by (metis (mono_tags, lifting) keepsD sum.case_eq_if)

lemma keeps_return: "keeps_lease session_id (driver_return result)"
  by (simp add: keeps_lease_def driver_return_def)

lemma keeps_ids: "keeps_lease session_id (draw_ids W)"
  by (auto simp: keeps_lease_def draw_ids_def split: prod.splits)

lemma keeps_transact:
  assumes "others_elsewhere session_id W"
  shows "keeps_lease session_id (transact W tx)"
  unfolding keeps_lease_def
proof (intro allI impI)
  fix n m result m'
  assume run: "transact W tx m = (result, m')" and m: "leased_by session_id (Suc 0) n (fst m)"
  obtain k w where o: "others W (snd m) (fst m) = (k, w)" by (cases "others W (snd m) (fst m)") simp
  have "leased_by session_id (Suc 0) n k" using leased_others [OF assms m, of "snd m"] o by simp
  then show "leased_by session_id (Suc 0) n (fst m')"
    using run [unfolded transact_def o prod.case] by (cases "tx (k_db k)") auto
qed

lemma keeps_read: "others_elsewhere session_id W \<Longrightarrow> keeps_lease session_id (read_db W query)"
  unfolding read_db_def by (rule keeps_transact)

lemma keeps_then:
  assumes "keeps_lease session_id d" and "\<And>a. keeps_lease session_id (f a)"
  shows "keeps_lease session_id (driver_then d f)"
  unfolding keeps_lease_def
proof (intro allI impI)
  fix n m result m'
  assume run: "driver_then d f m = (result, m')" and m: "leased_by session_id (Suc 0) n (fst m)"
  obtain x m1 where x: "d m = (x, m1)" by (cases "d m") simp
  note m1 = keepsD [OF assms(1) x m]
  show "leased_by session_id (Suc 0) n (fst m')"
    using run x m1 keepsD [OF assms(2) _ m1] by (cases x) (auto simp: driver_then_def)
qed

lemma holds_then:
  assumes "holds_lease session_id d" and "\<And>a. holds_lease session_id (f a)"
  shows "holds_lease session_id (driver_then d f)"
  unfolding holds_lease_def
proof (intro allI impI)
  fix m result m'
  assume run: "driver_then d f m = (result, m')" and m: "leased_by session_id (Suc 0) 0 (fst m)"
  obtain x m1 where x: "d m = (x, m1)" by (cases "d m") simp
  note m1 = holdsD [OF assms(1) x m]
  show "lets_go session_id result (fst m')"
    using run x m1 holdsD [OF assms(2)] by (cases x) (auto simp: driver_then_def)
qed

lemmas keeps_intros = keeps_return keeps_ids keeps_transact keeps_read keeps_then

lemma close_requested_keeps:
  "others_elsewhere session_id W \<Longrightarrow> keeps_lease session_id (close_requested_cancellation C W sid operation_id runtime)"
  unfolding close_requested_cancellation_def by (auto intro!: keeps_intros split: option.split)

lemma apply_loop_decision_keeps:
  "others_elsewhere session_id W \<Longrightarrow> keeps_lease session_id (apply_loop_decision C W sid active runtime decision)"
  unfolding apply_loop_decision_def Let_def
  by (auto intro!: keeps_intros split: LoopDecision.split)

lemma record_completion_keeps:
  "others_elsewhere session_id W \<Longrightarrow> keeps_lease session_id (record_completion C W operation_id batch_id effect completion)"
  unfolding record_completion_def by (auto intro!: keeps_intros split: option.split EffectCompletion.split)

lemma run_attempts_holds:
  assumes W: "others_elsewhere session_id W"
    and run: "run_attempts C W session_id manifest operation_id batch_id attempts expected finished m = (result, m')"
    and m: "leased_by session_id (Suc 0) (length attempts) (fst m)"
  shows "lets_go session_id result (fst m')"
  using run m
proof (induction "length attempts" arbitrary: attempts expected finished m rule: less_induct)
  case less
  note run = less.prems(1) [unfolded run_attempts.simps [of _ _ _ _ _ _ attempts]]
  show ?case
  proof (cases "attempts = []")
    case True
    then show ?thesis using run less.prems(2) by auto
  next
    case False
    obtain pick w where pick: "next_attempt W (snd m)
        (map (\<lambda>(effect, adapter). (adapter, into_invocation effect manifest)) attempts) = (pick, w)" by force
    note run = run [unfolded if_not_P [OF False] pick prod.case]
    show ?thesis
    proof (cases pick)
      case None
      then show ?thesis
        using run leased_let_go [of session_id "length attempts" "(fst m, w)" W] less.prems(2) by auto
    next
      case (Some p)
      obtain i completion where p: "p = (i, completion)" by force
      let ?j = "i mod length attempts"
      let ?effect = "fst (attempts ! ?j)"
      have "?j < length attempts" using False by simp
      then have shorter: "length (remove_at ?j attempts) = length attempts - 1" unfolding remove_at_def by simp
      obtain x m1 where rec: "record_completion C W operation_id batch_id ?effect completion
          (adapter_done session_id (fst m), w) = (x, m1)" by (metis surj_pair)
      have "leased_by session_id (Suc 0) (length attempts - 1) (adapter_done session_id (fst m))"
        by (rule leased_done) (use False less.prems(2) in simp)
      then have m1: "leased_by session_id (Suc 0) (length attempts - 1) (fst m1)"
        using keepsD [OF record_completion_keeps [OF W] rec] by simp
      note run = run [unfolded Some p option.case prod.case Let_def rec]
      show ?thesis
      proof (cases x)
        case (Inl e)
        then show ?thesis using run leased_let_go [OF m1, of W] by auto
      next
        case (Inr f)
        note rest = run [unfolded Inr prod.case sum.case]
        show ?thesis by (rule less.hyps [OF length_remove_at [OF False] rest]) (simp only: shorter m1)
      qed
    qed
  qed
qed

lemma in_flight_holds:
  assumes "others_elsewhere session_id W"
  shows "holds_lease session_id
    (driver_then (on_leases (\<lambda>k. Inr ((spawn_adapter session_id ^^ length attempts) k)))
      (\<lambda>_. run_attempts C W session_id manifest operation_id batch_id attempts expected finished))"
  unfolding holds_lease_def driver_then_def on_leases_def sum.case prod.case
  using run_attempts_holds [OF assms] leased_spawns [of session_id] by (metis fst_conv)

lemma driver_then_assoc: "driver_then (driver_then d f) g = driver_then d (\<lambda>a. driver_then (f a) g)"
  by (rule ext) (auto simp: driver_then_def split: prod.splits sum.splits)

lemma drive_effect_phase_holds:
  assumes W: "others_elsewhere session_id W"
  shows "holds_lease session_id (drive_effect_phase C W session_id active runtime)"
  unfolding drive_effect_phase_def
  by (auto intro!: holds_then holds_then [OF in_flight_holds [OF W], unfolded driver_then_assoc]
      keeps_holds [OF keeps_transact [OF W]] keeps_holds [OF keeps_return] split: EffectBatchStart.split)

lemma drive_round_holds:
  assumes W: "others_elsewhere session_id W"
  shows "holds_lease session_id (drive_round C W session_id runtime active)"
  unfolding drive_round_def
  by (auto intro!: holds_then drive_effect_phase_holds [OF W] keeps_holds [OF keeps_read [OF W]]
      keeps_holds [OF keeps_return] keeps_holds [OF close_requested_keeps [OF W]]
      keeps_holds [OF apply_loop_decision_keeps [OF W]] split: option.split)

lemma drive_loop_holds:
  assumes W: "others_elsewhere session_id W"
    and "drive_loop rounds C W session_id runtime active m = (result, m')" and "leased_by session_id (Suc 0) 0 (fst m)"
  shows "\<exists>n. leased_by session_id (Suc 0) n (fst m') \<and> (result = StillDriving \<or> (\<exists>r. result = Returned (Inr r)) \<longrightarrow> n = 0)"
  using assms(2,3)
proof (induction rounds arbitrary: active m)
  case (Suc rounds)
  obtain x m1 where round: "drive_round C W session_id runtime active m = (x, m1)" by (metis surj_pair)
  note held = holdsD [OF drive_round_holds [OF W] round Suc.prems(2)]
  consider (stop) e where "x = Inl e" | (result) r where "x = Inr (Inl r)" | (go_on) a where "x = Inr (Inr a)"
    by (metis sum.exhaust)
  then show ?case
  proof cases
    case (go_on a)
    then show ?thesis using Suc.IH [of a m1] Suc.prems(1) round held by simp
  qed (use Suc.prems(1) round held in auto)
qed simp

lemma drive_leased_holds:
  assumes W: "others_elsewhere session_id W"
    and run: "drive_leased rounds C W session_id runtime m = (result, m')" and m: "leased_by session_id (Suc 0) 0 (fst m)"
  shows "\<exists>n. leased_by session_id (Suc 0) n (fst m') \<and> (result = StillDriving \<or> (\<exists>r. result = Returned (Inr r)) \<longrightarrow> n = 0)"
proof -
  obtain x m1 where act: "transact W (activate C session_id (rt_manifest runtime)) m = (x, m1)" by (metis surj_pair)
  have m1: "leased_by session_id (Suc 0) 0 (fst m1)"
    by (rule keepsD [OF keeps_transact [OF W] act m])
  have m2: "leased_by session_id (Suc 0) 0 (fst m2)" if "on_leases (lease_bind session_id oid) m1 = (y, m2)" for oid y m2
    using that m1 leased_bind by (auto simp: on_leases_def split: sum.splits)
  consider (stop) e where "x = Inl e" | (idle) "x = Inr None" | (active) a where "x = Inr (Some a)"
    by (metis not_None_eq sum.exhaust)
  then show ?thesis
  proof cases
    case (active a)
    obtain y m3 where bind: "on_leases (lease_bind session_id (ac_operation_id a)) m1 = (y, m3)" by (metis surj_pair)
    note run = run [unfolded drive_leased_def act active prod.case sum.case option.case bind]
    show ?thesis
      using run m2 [OF bind] drive_loop_holds [OF W _ m2 [OF bind]]
      by (cases y) (auto split: if_splits)
  qed (use run act m1 in \<open>auto simp: drive_leased_def\<close>)
qed

text \<open>
  C20 (exclusive drive). While a session is leased, driving it and abandoning an effect of it fail
  as busy and leave everything as it was. A drive of a free session keeps the lease as long as it
  runs; when it has ended, by returning, failing or being dropped, the session is free again
  exactly when the last adapter it left running has finished, and a drive that reports a result
  leaves none.
\<close>

theorem drive_leases_session:
  assumes "others_elsewhere session_id W"
  shows "(running_sessions k session_id \<noteq> None \<longrightarrow>
      drive rounds C W session_id runtime (k, w) = (Returned (Inl (Busy session_id)), k, w) \<and>
      abandon_unknown_effect C W session_id operation_id runtime (k, w) = (Inl (StoppedWith (Busy session_id)), k, w)) \<and>
    (running_sessions k session_id = None \<longrightarrow> running_adapters k session_id = 0 \<longrightarrow>
      (\<forall>result k' w'. drive rounds C W session_id runtime (k, w) = (result, k', w') \<longrightarrow>
        (if result = StillDriving then running_sessions k' session_id \<noteq> None
         else \<forall>j \<le> running_adapters k' session_id.
           running_sessions ((adapter_done session_id ^^ j) k') session_id = None \<longleftrightarrow>
           j = running_adapters k' session_id) \<and>
        ((\<exists>r. result = Returned (Inr r)) \<longrightarrow> running_adapters k' session_id = 0)))"
proof (intro conjI [of "_ \<longrightarrow> _"] impI allI)
  assume "running_sessions k session_id \<noteq> None"
  then show "drive rounds C W session_id runtime (k, w) = (Returned (Inl (Busy session_id)), k, w) \<and>
      abandon_unknown_effect C W session_id operation_id runtime (k, w) = (Inl (StoppedWith (Busy session_id)), k, w)"
    by (simp add: drive_def abandon_unknown_effect_def with_lease_def driver_then_def on_leases_def
        lease_acquire_def drive_stopped_def)
next
  fix result k' w'
  assume free: "running_sessions k session_id = None" "running_adapters k session_id = 0"
    and run: "drive rounds C W session_id runtime (k, w) = (result, k', w')"
  obtain k1 where acq: "lease_acquire session_id k = Inr k1" using free(1) by (simp add: lease_acquire_def)
  have k1: "leased_by session_id (Suc 0) 0 k1" by (rule leased_acquire [OF acq]) (simp add: leased_by_def free)
  obtain res k2 w2 where leased: "drive_leased rounds C W session_id runtime (k1, w) = (res, k2, w2)" by (metis surj_pair)
  obtain n where n: "leased_by session_id (Suc 0) n k2"
      "res = StillDriving \<or> (\<exists>r. res = Returned (Inr r)) \<longrightarrow> n = 0"
    using drive_leased_holds [OF assms leased] k1 by auto
  have res: "result = res" "k' = (if res = StillDriving then k2 else lease_drop session_id k2)"
    using run acq leased by (auto simp: drive_def on_leases_def)
  have after: "leased_by session_id 0 n (lease_drop session_id k2)"
    by (rule leased_drop [OF n(1)])
  have held: "running_sessions k2 session_id \<noteq> None" "running_adapters k2 session_id = n"
    using n(1) by (auto simp: leased_by_def split: option.splits)
  have "running_sessions ((adapter_done session_id ^^ j) (lease_drop session_id k2)) session_id = None \<longleftrightarrow> j = n"
    if "j \<le> n" for j
    using leased_dones [OF after that] that by (auto simp: leased_by_def split: option.splits)
  moreover have "running_adapters (lease_drop session_id k2) session_id = n" using after by (simp add: leased_by_def)
  ultimately show "(if result = StillDriving then running_sessions k' session_id \<noteq> None
         else \<forall>j \<le> running_adapters k' session_id.
           running_sessions ((adapter_done session_id ^^ j) k') session_id = None \<longleftrightarrow>
           j = running_adapters k' session_id) \<and>
        ((\<exists>r. result = Returned (Inr r)) \<longrightarrow> running_adapters k' session_id = 0)"
    using n(2) res held by auto
qed

theorem drive_leases_session_witness:
  "fst sample_dropped = DriveDropped \<and>
   (\<exists>k' w'. snd sample_dropped = (k', w') \<and>
      drive 4 sample_codec dropping_world 2 sample_runtime (k', w') = (Returned (Inl (Busy 2)), k', w') \<and>
      running_sessions (adapter_done 2 k') 2 = None)"
proof -
  have W: "others_elsewhere 2 dropping_world"
    by (simp add: others_elsewhere_def dropping_world_def sample_world_def)
  obtain k' w' where m: "snd sample_dropped = (k', w')" by (metis surj_pair)
  have run: "drive 4 sample_codec dropping_world 2 sample_runtime (sample_kernel sample_queued, 1) = (DriveDropped, k', w')"
    using m sample_dropped_result(1) by (metis prod.collapse sample_dropped_def)
  have one: "running_adapters k' 2 = 1" using sample_dropped_result(2) m by simp
  have free: "running_sessions (sample_kernel sample_queued) 2 = None" "running_adapters (sample_kernel sample_queued) 2 = 0"
    by (simp_all add: sample_kernel_def)
  have ended: "running_sessions ((adapter_done 2 ^^ j) k') 2 = None \<longleftrightarrow> j = 1" if "j \<le> 1" for j
    using drive_leases_session [OF W, of "sample_kernel sample_queued" 4 sample_codec sample_runtime 1 3]
      run one free that by auto
  have held: "running_sessions k' 2 \<noteq> None" using ended [of 0] by simp
  have "drive 4 sample_codec dropping_world 2 sample_runtime (k', w') = (Returned (Inl (Busy 2)), k', w')"
    using drive_leases_session [OF W, of k' 4 sample_codec sample_runtime w' 3] held by blast
  then show ?thesis using m ended [of 1] sample_dropped_result(1) by simp
qed

end
