(* ===== verification/Kernel_Runtime.thy ===== *)
theory Kernel_Runtime
  imports Kernel_Example
begin

section \<open>Runtimes\<close>

text \<open>
  The construction of a runtime (\<open>Runtime::new\<close>) with the bindings it resolves, and what the
  frozen manifest guarantees about which runtime drives an operation.
\<close>

subsection \<open>The bindings of a runtime\<close>

lemma add_effect_binding_iff:
  "add_effect_binding e (names, resolved) = Inr maps \<longleftrightarrow>
     eb_name e \<noteq> [] \<and> eb_revision e \<noteq> [] \<and> btree_get names (eb_name e) = None \<and>
     maps = (btree_insert (eb_name e) (eb_revision e) names, btree_insert (eb_name e) e resolved)"
  by (auto simp: add_effect_binding_def require_text_def)

lemma add_bindings_Cons:
  "try_fold add_effect_binding (e # bindings) (names, resolved) = Inr maps \<longleftrightarrow>
     eb_name e \<noteq> [] \<and> eb_revision e \<noteq> [] \<and> btree_get names (eb_name e) = None \<and>
     try_fold add_effect_binding bindings
       (btree_insert (eb_name e) (eb_revision e) names, btree_insert (eb_name e) e resolved) = Inr maps"
  by (auto simp: and_then_eq_Inr add_effect_binding_iff)

lemma bindings_accepted:
  "(\<exists>maps. try_fold add_effect_binding bindings (names, resolved) = Inr maps) \<longleftrightarrow>
     (\<forall>e \<in> set bindings. eb_name e \<noteq> [] \<and> eb_revision e \<noteq> [] \<and> btree_get names (eb_name e) = None) \<and>
     distinct (map eb_name bindings)"
proof (induction bindings arbitrary: names resolved)
  case (Cons e bindings)
  show ?case
    unfolding add_bindings_Cons ex_simps Cons.IH btree_get_insert
    by (auto split: if_splits) (metis image_eqI)+
qed simp

lemma bindings_registered_from:
  assumes "try_fold add_effect_binding bindings (names, resolved) = Inr (names', resolved')"
  shows "btree_get names' name = (case find (\<lambda>e. eb_name e = name) bindings of
      None \<Rightarrow> btree_get names name | Some e \<Rightarrow> Some (eb_revision e)) \<and>
    btree_get resolved' name = (case find (\<lambda>e. eb_name e = name) bindings of
      None \<Rightarrow> btree_get resolved name | Some e \<Rightarrow> Some e)"
  using assms
proof (induction bindings arbitrary: names resolved)
  case (Cons e bindings)
  have "distinct (map eb_name (e # bindings))"
    using bindings_accepted [of "e # bindings" names resolved] Cons.prems by blast
  then have "eb_name e \<notin> eb_name ` set bindings" by simp
  then have none: "find (\<lambda>x. eb_name x = eb_name e) bindings = None"
    unfolding find_None_iff by (metis image_eqI)
  show ?case
    using Cons.IH Cons.prems none unfolding add_bindings_Cons
    by (cases "eb_name e = name") (auto simp: btree_get_insert split: option.splits)
qed simp

lemma bindings_registered:
  assumes "try_fold add_effect_binding bindings ([], []) = Inr (names, resolved)"
  shows "btree_get names name = map_option eb_revision (find (\<lambda>e. eb_name e = name) bindings)"
    and "btree_get resolved name = find (\<lambda>e. eb_name e = name) bindings"
  using bindings_registered_from [OF assms, of name] by (auto split: option.splits)

lemma bindings_sorted:
  assumes "try_fold add_effect_binding bindings (names, resolved) = Inr (names', resolved')"
    and "sorted (map fst names)" and "distinct (map fst names)"
  shows "sorted (map fst names') \<and> distinct (map fst names')"
  using assms
proof (induction bindings arbitrary: names resolved)
  case (Cons e bindings)
  then show ?case
    using Cons.IH btree_insert_sorted [OF Cons.prems(2,3)] unfolding add_bindings_Cons by blast
qed simp

lemma find_by_name:
  assumes "distinct (map eb_name bindings)"
  shows "(\<exists>e \<in> set bindings. eb_name e = name \<and> eb_revision e = revision) \<longleftrightarrow>
    map_option eb_revision (find (\<lambda>e. eb_name e = name) bindings) = Some revision"
  using assms by (induction bindings) (auto simp: rev_image_eqI)

text \<open>
  C18 (runtime validation). \<open>Runtime::new\<close> succeeds exactly when every identity is non-empty, the
  checkpoint schema version is not zero, and no two effect bindings share a name.
\<close>

theorem runtime_new_valid:
  "(\<exists>runtime. Runtime_new loop checkpoint_schema digest bindings = Inr runtime) \<longleftrightarrow>
     lb_name loop \<noteq> [] \<and> lb_revision loop \<noteq> [] \<and> checkpoint_schema \<noteq> 0 \<and> digest \<noteq> [] \<and>
     (\<forall>e \<in> set bindings. eb_name e \<noteq> [] \<and> eb_revision e \<noteq> []) \<and> distinct (map eb_name bindings)"
proof -
  have "(\<exists>runtime. Runtime_new loop checkpoint_schema digest bindings = Inr runtime) \<longleftrightarrow>
      lb_name loop \<noteq> [] \<and> lb_revision loop \<noteq> [] \<and> checkpoint_schema \<noteq> 0 \<and> digest \<noteq> [] \<and>
      (\<exists>maps. try_fold add_effect_binding bindings ([], []) = Inr maps)"
    by (auto simp: Runtime_new_def require_text_def and_then_def split: sum.splits)
  then show ?thesis using bindings_accepted [of bindings "[]" "[]"] by auto
qed

theorem runtime_new_valid_witness:
  "(\<exists>runtime. Runtime_new \<lparr>lb_name = ''loop'', lb_revision = ''1'', lb_plugin = sample_plugin\<rparr> 1 ''digest''
      [\<lparr>eb_name = ''tool'', eb_revision = ''1'', eb_adapter = ()\<rparr>] = Inr runtime) \<and>
   \<not> (\<exists>runtime. Runtime_new \<lparr>lb_name = ''loop'', lb_revision = ''1'', lb_plugin = sample_plugin\<rparr> 1 ''digest''
      [\<lparr>eb_name = ''tool'', eb_revision = ''1'', eb_adapter = ()\<rparr>,
       \<lparr>eb_name = ''tool'', eb_revision = ''2'', eb_adapter = ()\<rparr>] = Inr runtime)"
  by (simp add: runtime_new_valid)

text \<open>
  C19 (bindings resolve). A runtime resolves a binding at a revision exactly when its manifest
  lists that revision for it, and then to the adapter of the binding registered under that name;
  the manifest's bindings are in ascending order without duplicates.
\<close>

theorem runtime_resolves_manifest:
  assumes "Runtime_new loop checkpoint_schema digest bindings = Inr runtime"
  shows "resolve_effect runtime name revision =
      (if btree_get (effect_bindings (rt_manifest runtime)) name = Some revision
       then map_option eb_adapter (find (\<lambda>e. eb_name e = name) bindings) else None) \<and>
    (btree_get (effect_bindings (rt_manifest runtime)) name = Some revision \<longleftrightarrow>
       (\<exists>e \<in> set bindings. eb_name e = name \<and> eb_revision e = revision)) \<and>
    sorted (map fst (effect_bindings (rt_manifest runtime))) \<and>
    distinct (map fst (effect_bindings (rt_manifest runtime)))"
proof -
  obtain names resolved where fold: "try_fold add_effect_binding bindings ([], []) = Inr (names, resolved)"
    and rt: "effect_bindings (rt_manifest runtime) = names" "rt_effects runtime = resolved"
    using assms by (auto simp: Runtime_new_def elim!: and_then_InrE split: if_splits)
  note b = bindings_registered [OF fold, of name]
  have dist: "distinct (map eb_name bindings)"
    using bindings_accepted [of bindings "[]" "[]"] fold by auto
  have "(\<exists>e \<in> set bindings. eb_name e = name \<and> eb_revision e = revision) \<longleftrightarrow>
      map_option eb_revision (find (\<lambda>e. eb_name e = name) bindings) = Some revision"
    by (rule find_by_name [OF dist])
  then show ?thesis
    using b bindings_sorted [OF fold] by (auto simp: resolve_effect_def rt split: option.splits)
qed


theorem runtime_resolves_manifest_witness:
  "\<exists>runtime. Runtime_new \<lparr>lb_name = ''loop'', lb_revision = ''1'', lb_plugin = sample_plugin\<rparr> 1 ''digest''
      [\<lparr>eb_name = ''tool'', eb_revision = ''1'', eb_adapter = ()\<rparr>] = Inr runtime \<and>
     resolve_effect runtime ''tool'' ''1'' = Some () \<and> resolve_effect runtime ''tool'' ''2'' = None"
proof -
  let ?new = "Runtime_new \<lparr>lb_name = ''loop'', lb_revision = ''1'', lb_plugin = sample_plugin\<rparr> 1 ''digest''
      [\<lparr>eb_name = ''tool'', eb_revision = ''1'', eb_adapter = ()\<rparr>]"
  obtain runtime where rt: "?new = Inr runtime"
    by (simp add: Runtime_new_def require_text_def add_effect_binding_def)
  show ?thesis
    using rt runtime_resolves_manifest [OF rt, of "''tool''" "''1''"]
      runtime_resolves_manifest [OF rt, of "''tool''" "''2''"] by auto
qed

subsection \<open>Frozen manifests\<close>

text \<open>
  C21 (frozen manifest). An operation that started under one manifest is not run by a runtime with
  another: when its session is free and no other caller interferes, the drive fails with a
  mismatch before the loop decides and before anything is dispatched or written, whatever number
  of rounds it may make.
\<close>

theorem mismatch_runs_nothing:
  assumes C: "codec_ok C" and inv: "kernel_inv C (k_db k)" and free: "running_sessions k session_id = None"
    and quiet: "\<And>w k. others W w k = (k, w)"
    and s: "s \<in> set (sessions (k_db k))" "s_session_id s = to_string C session_id"
      "s_active_operation_id s = Some (to_string C operation_id)"
    and M: "manifest_is C operation_id M (k_db k)" "M \<noteq> rt_manifest runtime"
  shows "\<exists>k'. drive rounds C W session_id runtime (k, w) = (Returned (Inl RuntimeMismatch), k', w) \<and> k_db k' = k_db k"
proof -
  let ?db = "k_db k"
  have find: "find (\<lambda>s. s_session_id s = to_string C session_id) (sessions ?db) = Some s"
    by (rule find_unique [where k = s_session_id]) (use s kernel_inv_keys(2) [OF inv] in auto)
  obtain agent where agent: "s_agent_id s = to_string C agent"
    using kernel_invD(9) [OF inv s(1)] by (auto simp: session_ok_def canonical_def)
  obtain r where r: "r \<in> set (operations ?db)" "o_operation_id r = to_string C operation_id" "row_manifest C r = Some M"
    using M(1) by (auto simp: manifest_is_def)
  have "o_session_id r = to_string C session_id"
    using pointed_operation(1) [OF inv s(1,3) r(1,2)] s(2) by simp
  then obtain stored where "load_operation C session_id operation_id ?db = Inr (Some stored)" "so_manifest stored = Some M"
    using load_operation_shows [OF C inv r(1) _ r(2)] r(3) by (auto simp: stored_shows_def)
  then obtain a where a: "load_active_query C agent session_id operation_id ?db = Inr a" "ac_manifest a = M"
      "ac_operation_id a = operation_id"
    by (simp add: load_active_query_def)
  have act: "activate C session_id (rt_manifest runtime) ?db = Inr (Some (a\<lparr>ac_newly_activated := False\<rparr>), ?db)"
    by (simp add: activate_def find agent s(3) parse_to_string [OF C] a(1))
  show ?thesis
    using M(2) free
    by (simp add: drive_def on_leases_def lease_acquire_def drive_leased_def transact_def quiet act lease_bind_def
        a(2,3) lease_drop_def)
qed

theorem mismatch_runs_nothing_witness:
  "\<exists>k'. drive 9 sample_codec sample_world 2
      (sample_runtime\<lparr>rt_manifest := sample_manifest\<lparr>config_digest := ''other''\<rparr>\<rparr>) (sample_kernel sample_active, 1) =
     (Returned (Inl RuntimeMismatch), k', 1) \<and> k_db k' = sample_active"
proof -
  let ?s = "hd (sessions sample_active)"
  have s: "?s \<in> set (sessions sample_active)" "s_session_id ?s = to_string sample_codec 2"
      "s_active_operation_id ?s = Some (to_string sample_codec 3)"
    by code_simp+
  show ?thesis
    using mismatch_runs_nothing [of sample_codec "sample_kernel sample_active" 2 sample_world ?s 3 sample_manifest
        "sample_runtime\<lparr>rt_manifest := sample_manifest\<lparr>config_digest := ''other''\<rparr>\<rparr>" 9 1]
      sample_codec_ok sample_active_inv s sample_manifest_is(1)
    by (simp add: sample_kernel_def sample_world_def sample_manifest_def)
qed

end
