(* ===== verification/Spec2Isabelle.thy ===== *)
theory Spec2Isabelle
  imports Run_Properties Kernel_Invocations Kernel_Replay Kernel_Closures Kernel_Reads Kernel_Leases Kernel_Runtime
begin

text \<open>
  A verification of the durable kernel of Renoa, the crate \<open>src/crates/renoa-kernel\<close>.
\<close>

section \<open>The kernel as a whole\<close>

text \<open>
  C1 (durable invariant). Every database that the kernel's transactions can reach from an empty
  one, in any order and any interleaving of callers, satisfies the kernel invariant. The arguments
  are arbitrary, except that decisions, intents, cancellations and abandonments carry what their
  only callers check first: a checkpoint of the frozen manifest's schema version, bindings of that
  manifest, and for a cancellation a closed batch. The invariant is: SQLite's constraints, readable identities and JSON, gapless positions and sequences,
  one active operation per session, and agreement of every operation's phase with its manifest,
  checkpoint, outcome, batches and effects.
\<close>

theorem reachable_invariant:
  assumes "codec_ok C" and "kernel_steps C empty_db db"
  shows "kernel_inv C db"
  using reachable_kernel_inv assms by blast

theorem reachable_invariant_witness:
  "kernel_steps sample_codec empty_db sample_completed \<and> kernel_inv sample_codec sample_completed"
  using reachable_invariant [OF sample_codec_ok sample_reached(3)] sample_reached(3) by blast

text \<open>
  C3 (driving is safe). \<open>Kernel::drive\<close> with any runtime, any adapters and any other callers in
  between only takes kernel steps and keeps the invariant, after every number of rounds: when it
  has returned, failed or been dropped, and equally in the middle, where a drive that may never
  return is after that many rounds. More rounds go on from that database by kernel steps and change
  nothing of a drive that has ended. When it reports a finished operation, that outcome is durable
  in the operation's row.
\<close>

theorem drive_safe:
  assumes "codec_ok C" and "others_step C W" and "kernel_inv C (k_db k)"
    and "drive rounds C W session_id runtime (k, w) = (result, k', w')"
  shows "kernel_steps C (k_db k) (k_db k') \<and> kernel_inv C (k_db k') \<and>
    (\<forall>extra. kernel_steps C (k_db k') (k_db (fst (snd (drive (rounds + extra) C W session_id runtime (k, w)))))) \<and>
    (result \<noteq> StillDriving \<longrightarrow>
       (\<forall>extra. drive (rounds + extra) C W session_id runtime (k, w) = (result, k', w'))) \<and>
    (\<forall>operation_id outcome. result = Returned (Inr (DriveFinished operation_id outcome)) \<longrightarrow>
       finished_as C operation_id outcome (k_db k'))"
proof -
  have inv: "kernel_inv C (db_of (k, w))" using assms(3) by simp
  note run = drive_performs [OF assms(1,2,4) inv]
  note on = drive_more [OF assms(1,2) inv assms(4)]
  have "finished_as C operation_id outcome (k_db k')"
    if "result = Returned (Inr (DriveFinished operation_id outcome))" for operation_id outcome
    using run(2) [OF that] by (auto simp: driven_def)
  then show ?thesis using run(1) kernel_steps_inv [OF assms(1) run(1) inv] on by simp
qed

theorem drive_safe_witness:
  "fst (sample_driven 1) = StillDriving \<and> kernel_inv sample_codec (k_db (fst (snd (sample_driven 1)))) \<and>
   fst (sample_driven 4) = Returned (Inr (DriveFinished 3 OutcomeCompleted)) \<and>
   finished_as sample_codec 3 OutcomeCompleted (k_db (fst (snd (sample_driven 4))))"
proof -
  have "kernel_inv sample_codec (k_db (sample_kernel sample_queued))"
    using sample_queued_inv by (simp add: sample_kernel_def)
  note safe = drive_safe [OF sample_codec_ok sample_others this sample_driven_eq]
  show ?thesis using safe [of 1] safe [of 4] sample_driven_result by auto
qed

text \<open>
  C6 (append-only history). Between any two databases of a run the semantic events, the commands
  and the cancellation requests only grow at the end, an operation keeps its session, command and
  position, one that ended never changes again, and one whose manifest was frozen keeps it.
\<close>

theorem history_append_only:
  assumes "codec_ok C" and "kernel_inv C db" and "kernel_steps C db db'"
  shows "prefix (semantic_events db) (semantic_events db') \<and> prefix (commands db) (commands db') \<and>
    prefix (cancellation_requests db) (cancellation_requests db') \<and>
    (\<forall>r \<in> set (operations db). \<exists>r' \<in> set (operations db').
       same_admission r r' \<and> o_transition_version r \<le> o_transition_version r' \<and>
       (terminal_phase (o_phase r) \<longrightarrow> r' = r) \<and>
       (o_manifest_json r \<noteq> None \<longrightarrow> o_manifest_json r' = o_manifest_json r))"
proof -
  have later: "later db db'" by (rule kernel_steps_later [OF assms(1,3,2)])
  have "\<exists>r' \<in> set (operations db'). same_admission r r' \<and> o_transition_version r \<le> o_transition_version r' \<and>
      (terminal_phase (o_phase r) \<longrightarrow> r' = r) \<and>
      (o_manifest_json r \<noteq> None \<longrightarrow> o_manifest_json r' = o_manifest_json r)"
    if "r \<in> set (operations db)" for r
    using later_operation [OF later that] unfolding row_later_def by blast
  then show ?thesis using later unfolding later_def by blast
qed

theorem history_append_only_witness:
  "prefix (semantic_events sample_settled) (semantic_events sample_completed)"
  using history_append_only [OF sample_codec_ok sample_settled_inv sample_reached(4)] by blast

text \<open>
  C4 (idempotent admission). An admission, once returned, is the answer to every later submission
  of the same command to the same session, in either mode, with whatever identity is drawn for
  it, and the repeated submission writes nothing.
\<close>

theorem resubmission_returns_admission:
  assumes "codec_ok C" and "kernel_inv C db"
    and "submit_with_mode C new_id session_id command mode db = Inr (admission, db1)"
    and "kernel_steps C db1 db2"
  shows "submit_with_mode C new_id' session_id command mode' db2 = Inr (admission, db2)"
proof -
  have inv1: "kernel_inv C db1" by (rule submit_with_mode_inv [OF assms(1-3)])
  have ad: "admitted_as C session_id command admission db1" by (rule submit_admitted_as [OF assms(1-3)])
  have "keeps_admissions db1 db2"
    using kernel_steps_later [OF assms(1,4) inv1] later_operation [of db1 db2]
    unfolding keeps_admissions_def row_later_def later_def by (blast dest: set_mono_prefix)
  then have "admitted_as C session_id command admission db2" by (rule admitted_as_kept [OF ad])
  then show ?thesis
    by (rule resubmit_admitted [OF assms(1) kernel_steps_inv [OF assms(1,4) inv1]])
qed

theorem resubmission_returns_admission_witness:
  "submit_with_mode sample_codec 77 2 sample_command RequireNoUnfinishedOperation sample_active =
     Inr (\<lparr>adm_operation_id = 3, adm_position = 0\<rparr>, sample_active)"
  using resubmission_returns_admission [OF sample_codec_ok sample_start_inv
      sample_queued_runs [unfolded submit_def]
      r_into_rtranclp [of "kernel_step sample_codec", OF sample_step_active]]
  by blast

text \<open>
  C7 (one outcome). An operation that ended is over: no later drive, of any session with any
  runtime and for any number of rounds, reports it again as finished or blocked, and an
  abandonment that reports an outcome of it reports the one it ended with.
\<close>

theorem outcome_reported_once:
  assumes "codec_ok C" and "others_step C W" and "kernel_inv C (k_db k)"
    and "finished_as C operation_id outcome (k_db k)"
  shows "(\<forall>rounds session_id runtime w reported.
      fst (drive rounds C W session_id runtime (k, w)) \<noteq> Returned (Inr (DriveFinished operation_id reported)) \<and>
      fst (drive rounds C W session_id runtime (k, w)) \<noteq> Returned (Inr (Blocked operation_id))) \<and>
    (\<forall>session_id runtime w reported m'.
      abandon_unknown_effect C W session_id operation_id runtime (k, w) = (Inr reported, m') \<longrightarrow>
        reported = outcome)"
proof (intro conjI [of "All _"] allI impI)
  fix rounds session_id runtime w reported
  obtain result m' where run: "drive rounds C W session_id runtime (k, w) = (result, m')" by (metis surj_pair)
  have "oid \<noteq> operation_id" if res: "result = Returned (Inr r)" and r: "r = Blocked oid \<or> r = DriveFinished oid reported" for r oid
  proof
    assume oid: "oid = operation_id"
    obtain db1 where db1: "kernel_steps C (k_db k) db1" "\<not> finished_as C operation_id outcome db1"
      using drive_performs(2) [OF assms(1,2) run _ res] assms(3) r oid by (auto simp: driven_def)
    then show False using finished_stays [OF assms(1,3,4)] by blast
  qed
  then show "fst (drive rounds C W session_id runtime (k, w)) \<noteq> Returned (Inr (DriveFinished operation_id reported)) \<and>
      fst (drive rounds C W session_id runtime (k, w)) \<noteq> Returned (Inr (Blocked operation_id))"
    using run by auto
next
  fix session_id runtime w reported m'
  assume run: "abandon_unknown_effect C W session_id operation_id runtime (k, w) = (Inr reported, m')"
  note d = performsD [OF abandon_performs [OF assms(1,2)] run]
  have "kernel_steps C (k_db k) (db_of m')" "finished_as C operation_id reported (db_of m')"
    using d(1) d(2) [OF _ _ refl] assms(3) by simp_all
  then show "reported = outcome" using finished_once [OF assms(1,3,4)] by blast
qed

theorem outcome_reported_once_witness:
  "finished_as sample_codec 3 abandoned_outcome sample_abandoned \<and>
   fst (drive 4 sample_codec sample_world 2 sample_runtime (sample_kernel sample_abandoned, 1)) \<noteq>
     Returned (Inr (DriveFinished 3 OutcomeCompleted)) \<and>
   fst (abandon_unknown_effect sample_codec sample_world 2 3 sample_runtime (sample_kernel sample_abandoned, 1)) =
     Inr abandoned_outcome"
proof -
  have fin: "finished_as sample_codec 3 abandoned_outcome (k_db (sample_kernel sample_abandoned))" by code_simp
  have inv: "kernel_inv sample_codec (k_db (sample_kernel sample_abandoned))"
    using sample_abandoned_inv by (simp add: sample_kernel_def)
  note once = outcome_reported_once [OF sample_codec_ok sample_others inv fin]
  have "\<not> isl (fst (abandon_unknown_effect sample_codec sample_world 2 3 sample_runtime (sample_kernel sample_abandoned, 1)))"
    by code_simp
  then obtain oc m' where run:
      "abandon_unknown_effect sample_codec sample_world 2 3 sample_runtime (sample_kernel sample_abandoned, 1) = (Inr oc, m')"
    by (metis prod.collapse sum.collapse(2))
  have "oc = abandoned_outcome" using once run by blast
  moreover have "finished_as sample_codec 3 abandoned_outcome sample_abandoned"
    using fin by (simp add: sample_kernel_def)
  ultimately show ?thesis using once unfolding run by simp
qed

text \<open>
  C9 (one operation at a time). In every reachable database an operation is in a running phase
  exactly when its session's pointer names it, so a session runs at most one operation.
\<close>

theorem one_active_operation:
  assumes "codec_ok C" and "kernel_steps C empty_db db"
    and "s \<in> set (sessions db)" and "r \<in> set (operations db)" and "o_session_id r = s_session_id s"
  shows "active_phase (o_phase r) = (s_active_operation_id s = Some (o_operation_id r)) \<and>
    (\<forall>r' \<in> set (operations db). o_session_id r' = s_session_id s \<longrightarrow>
       active_phase (o_phase r) \<longrightarrow> active_phase (o_phase r') \<longrightarrow> r' = r)"
proof -
  have inv: "kernel_inv C db" by (rule reachable_kernel_inv [OF assms(1,2)])
  have act: "active_phase (o_phase x) = (s_active_operation_id s = Some (o_operation_id x))"
    if "x \<in> set (operations db)" "o_session_id x = s_session_id s" for x
    using kernel_invD(9) [OF inv assms(3)] that by (simp add: session_ok_def ops_of_def)
  have "r' = r" if "r' \<in> set (operations db)" "o_operation_id r' = o_operation_id r" for r'
    by (rule unique_onD [OF kernel_inv_keys(4) [OF inv] that(1) assms(4) that(2)])
  then show ?thesis using act [OF assms(4,5)] act by auto
qed

theorem one_active_operation_witness:
  "\<exists>s r. s \<in> set (sessions sample_dispatched) \<and> r \<in> set (operations sample_dispatched) \<and>
     active_phase (o_phase r) \<and> s_active_operation_id s = Some (o_operation_id r)"
proof -
  let ?s = "hd (sessions sample_dispatched)" and ?r = "hd (operations sample_dispatched)"
  have m: "?s \<in> set (sessions sample_dispatched)" "?r \<in> set (operations sample_dispatched)"
    "o_session_id ?r = s_session_id ?s" "active_phase (o_phase ?r)"
    by code_simp+
  then show ?thesis using one_active_operation [OF sample_codec_ok sample_reached(1) m(1,2,3)] by blast
qed

text \<open>
  C10 (activation in admission order). Activating an idle session starts its queued operation with
  the lowest position, freezes the manifest of the runtime that drives it, and makes it the
  session's active operation; with nothing queued it starts nothing and writes nothing.
\<close>

theorem activation_in_order:
  assumes "codec_ok C" and "kernel_inv C db"
    and "s \<in> set (sessions db)" and "s_session_id s = to_string C session_id" and "s_active_operation_id s = None"
    and "activate C session_id manifest db = Inr (active, db')"
  shows "case active of
      None \<Rightarrow> db' = db \<and> (\<forall>r \<in> set (operations db). o_session_id r = to_string C session_id \<longrightarrow> o_phase r \<noteq> ''queued'')
    | Some a \<Rightarrow> ac_manifest a = manifest \<and>
        (\<exists>r \<in> set (operations db). o_operation_id r = to_string C (ac_operation_id a) \<and>
           o_session_id r = to_string C session_id \<and> o_phase r = ''queued'' \<and>
           (\<forall>r' \<in> set (operations db). o_session_id r' = to_string C session_id \<longrightarrow> o_phase r' = ''queued'' \<longrightarrow>
              o_position r \<le> o_position r')) \<and>
        (\<forall>s' \<in> set (sessions db'). s_session_id s' = to_string C session_id \<longrightarrow>
           s_active_operation_id s' = Some (to_string C (ac_operation_id a)))"
proof -
  have s_unique: "x = s" if "x \<in> set (sessions db)" "s_session_id x = to_string C session_id" for x
    by (rule unique_onD [OF kernel_inv_keys(2) [OF assms(2)] that(1) assms(3)]) (simp add: that(2) assms(4))
  show ?thesis
    using assms(6) kernel_invD(2) [OF assms(2)] assms(1,2)
  proof (cases rule: activate_cases)
    case (running s' oid a)
    then show ?thesis using s_unique [OF running(1,2)] assms(5) by simp
  next
    case (idle s')
    then show ?thesis
      by (auto simp: next_queued_def filter_empty_conv)
  next
    case (activated s' r oid mj a)
    note q = next_queued_row [OF activated(4)]
    have inv': "kernel_inv C db'" by (rule activate_inv [OF assms(1,2,6)])
    have "manifest_is C oid (ac_manifest a) db'"
      using activate_manifest [OF assms(1) inv' assms(6) [unfolded activated(10)]] activated(11) by simp
    moreover have "manifest_is C oid manifest db'"
      unfolding manifest_is_def activated(8) Let_def
      by (rule bexI [of _ "activated_row mj r"])
        (use q activated(5) round_trip_dec [OF codec_okD(3) [OF assms(1)] activated(6)] in
          \<open>auto simp: activated_row_def row_manifest_def set_operation_def Let_def update_where_def\<close>)
    ultimately have "ac_manifest a = manifest"
      using manifest_unique [OF inv'] by blast
    moreover have "s_active_operation_id x = Some (to_string C oid)"
      if "x \<in> set (sessions db')" "s_session_id x = to_string C session_id" for x
      using that unfolding activated(8) Let_def by (auto simp: update_where_def split: if_splits)
    ultimately show ?thesis
      using q activated(5,10,11) by auto
  qed
qed

theorem activation_in_order_witness:
  "\<exists>a. activate sample_codec 2 sample_manifest sample_queued = Inr (Some a, sample_active) \<and>
     ac_manifest a = sample_manifest"
proof -
  let ?s = "hd (sessions sample_queued)"
  have s: "?s \<in> set (sessions sample_queued)" "s_session_id ?s = to_string sample_codec 2"
      "s_active_operation_id ?s = None" "answer (activate sample_codec 2 sample_manifest) sample_queued \<noteq> None"
    by code_simp+
  then obtain a where a: "answer (activate sample_codec 2 sample_manifest) sample_queued = Some a" by blast
  note run = run_tx_eq [OF sample_runs(1), folded sample_active_def, unfolded a]
  show ?thesis
    using activation_in_order [OF sample_codec_ok sample_queued_inv s(1-3) run] run by auto
qed

text \<open>
  C8 (final effects). An effect that settled, or whose outcome was recorded as unknown, keeps its
  status, its dispatch count and its outcome at every later point of the run.
\<close>

theorem effect_results_final:
  assumes "codec_ok C" and "kernel_inv C db" and "kernel_steps C db db'"
    and "e \<in> set (effects db)" and "e_status e = status_name Settled \<or> e_status e = status_name EffectOutcomeUnknown"
    and "e' \<in> set (effects db')" and "e_effect_id e' = e_effect_id e"
  shows "e_status e' = e_status e \<and> e_dispatch_count e' = e_dispatch_count e \<and> e_outcome_json e' = e_outcome_json e"
proof -
  obtain x where x: "x \<in> set (effects db')" "e_effect_id x = e_effect_id e" "effect_later e x"
    using later_effect [OF kernel_steps_later [OF assms(1,3,2)] assms(4)] by blast
  have "x = e'"
    by (rule unique_onD [OF kernel_inv_keys(8) [OF kernel_steps_inv [OF assms(1,3,2)]] x(1) assms(6)])
      (simp add: x(2) assms(7))
  moreover have "e_status e \<in> {''settled'', ''outcome_unknown''}" using assms(5) by auto
  ultimately show ?thesis using x(3) unfolding effect_later_def by blast
qed

theorem effect_results_final_witness:
  "\<exists>e \<in> set (effects sample_settled). \<exists>e' \<in> set (effects sample_completed).
     e_outcome_json e' = e_outcome_json e \<and> e_outcome_json e \<noteq> None"
proof -
  let ?e = "hd (effects sample_settled)" and ?e' = "hd (effects sample_completed)"
  have m: "?e \<in> set (effects sample_settled)" "e_status ?e = status_name Settled"
      "?e' \<in> set (effects sample_completed)" "e_effect_id ?e' = e_effect_id ?e" "e_outcome_json ?e \<noteq> None"
    by code_simp+
  show ?thesis
    using effect_results_final [OF sample_codec_ok sample_settled_inv sample_reached(4) m(1) _ m(3,4)] m by blast
qed

text \<open>
  C15 (request retention). In every reachable database the request of an effect is kept as long as
  it can still be needed and released afterwards: it is gone exactly when its operation has an
  outcome and every effect of its batch settled.
\<close>

theorem requests_released_exactly:
  assumes "codec_ok C" and "kernel_steps C empty_db db"
    and "r \<in> set (operations db)" and "b \<in> set (effect_batches db)" and "b_operation_id b = o_operation_id r"
    and "e \<in> set (effects db)" and "e_batch_id e = b_batch_id b"
  shows "e_request_json e = None \<longleftrightarrow>
    o_outcome_json r \<noteq> None \<and>
    (\<forall>x \<in> set (effects db). e_batch_id x = b_batch_id b \<longrightarrow> e_status x = status_name Settled)"
proof -
  have inv: "kernel_inv C db" by (rule reachable_kernel_inv [OF assms(1,2)])
  have b: "b \<in> set (batches_of db (o_operation_id r))" using assms(4,5) by (simp add: batches_of_def)
  have e: "e \<in> set (children_of db (b_batch_id b))" using assms(6,7) by (simp add: children_of_def)
  show ?thesis
    using owned_batch(2) [OF inv assms(3) b e] by (auto simp: all_settled_def children_of_def)
qed

theorem requests_released_exactly_witness:
  "e_request_json (hd (effects sample_settled)) \<noteq> None \<and> e_request_json (hd (effects sample_completed)) = None"
proof -
  have a: "hd (operations sample_settled) \<in> set (operations sample_settled)"
      "hd (effect_batches sample_settled) \<in> set (effect_batches sample_settled)"
      "b_operation_id (hd (effect_batches sample_settled)) = o_operation_id (hd (operations sample_settled))"
      "hd (effects sample_settled) \<in> set (effects sample_settled)"
      "e_batch_id (hd (effects sample_settled)) = b_batch_id (hd (effect_batches sample_settled))"
      "o_outcome_json (hd (operations sample_settled)) = None"
    by code_simp+
  have c: "hd (operations sample_completed) \<in> set (operations sample_completed)"
      "hd (effect_batches sample_completed) \<in> set (effect_batches sample_completed)"
      "b_operation_id (hd (effect_batches sample_completed)) = o_operation_id (hd (operations sample_completed))"
      "hd (effects sample_completed) \<in> set (effects sample_completed)"
      "e_batch_id (hd (effects sample_completed)) = b_batch_id (hd (effect_batches sample_completed))"
      "o_outcome_json (hd (operations sample_completed)) \<noteq> None"
      "\<forall>x \<in> set (effects sample_completed). e_batch_id x = b_batch_id (hd (effect_batches sample_completed)) \<longrightarrow>
         e_status x = status_name Settled"
    by code_simp+
  show ?thesis
    using requests_released_exactly [OF sample_codec_ok sample_reached(2) a(1-5)]
      requests_released_exactly [OF sample_codec_ok sample_reached(3) c(1-5)] a(6) c(6,7) by blast
qed

text \<open>
  C16 (numbering and bounds). In every reachable database the positions of a session's operations
  are the numbers below its counter, the sequences of its events those below its high-water mark,
  each taken once, and no counter or version leaves the range of a signed 64-bit integer.
\<close>

theorem numbering_bounded:
  assumes "codec_ok C" and "kernel_steps C empty_db db" and "s \<in> set (sessions db)"
  shows "o_position ` set (ops_of db (s_session_id s)) = {0..<s_next_command_position s} \<and>
    distinct (map o_position (ops_of db (s_session_id s))) \<and>
    v_sequence ` set (events_of db (s_session_id s)) = {0..<s_next_event_sequence s} \<and>
    distinct (map v_sequence (events_of db (s_session_id s))) \<and>
    s_next_command_position s < 2 ^ 63 \<and> s_next_event_sequence s < 2 ^ 63 \<and>
    (\<forall>r \<in> set (operations db). 0 \<le> o_transition_version r \<and> o_transition_version r < 2 ^ 63)"
proof -
  have inv: "kernel_inv C db" by (rule reachable_kernel_inv [OF assms(1,2)])
  have s: "session_checks s" and ops: "list_all operation_checks (operations db)"
    using constraints_okD(1,2) [OF kernel_invD(2) [OF inv]] assms(3) by (simp_all add: list_all_iff)
  show ?thesis
    using kernel_invD(9) [OF inv assms(3)] s ops
    by (auto simp: session_ok_def gapless_def session_checks_def operation_checks_def list_all_iff in_i64_def)
qed

theorem numbering_bounded_witness:
  "\<exists>s \<in> set (sessions sample_completed).
     v_sequence ` set (events_of sample_completed (s_session_id s)) = {0..<s_next_event_sequence s}"
proof -
  have "hd (sessions sample_completed) \<in> set (sessions sample_completed)" by code_simp
  then show ?thesis using numbering_bounded [OF sample_codec_ok sample_reached(3)] by blast
qed

end
